(* ===== verification/Prelude.thy ===== *)
theory Prelude
  imports Main "HOL-Library.Word" "HOL-Library.Monad_Syntax"
begin

unbundle bit_operations_syntax

text \<open>
  Shared vocabulary of the development: the machine integers of the 32-bit target, the flat
  byte-addressed memory with its little-endian accessors, separation of address ranges, and the
  generic lemmas the components use.

  The ESP32-S3 is a little-endian 32-bit machine without an MMU.  A pointer is a
  \<open>32 word\<close>, the null pointer is \<open>0\<close>, and the memory is a total function from
  addresses to bytes.  Partial operations (a dereference of a null pointer, an endless loop) are
  modelled by the option type: \<open>None\<close> means that the C execution has no result.
\<close>

type_synonym u8 = "8 word"
type_synonym u16 = "16 word"
type_synonym u32 = "32 word"
type_synonym mem = "u32 \<Rightarrow> u8"

abbreviation NULL :: u32 where
  "NULL \<equiv> 0"

named_theorems mem_simps \<open>reads after writes of the byte memory\<close>
named_theorems frame_simps \<open>fields an operation leaves alone\<close>


section \<open>Little-endian accesses\<close>

definition ld16 :: "mem \<Rightarrow> u32 \<Rightarrow> u16" where
  "ld16 m a = ucast (m a) OR push_bit 8 (ucast (m (a + 1)))"

definition st16 :: "mem \<Rightarrow> u32 \<Rightarrow> u16 \<Rightarrow> mem" where
  "st16 m a v = m(a := ucast v, a + 1 := ucast (drop_bit 8 v))"

definition ld32 :: "mem \<Rightarrow> u32 \<Rightarrow> u32" where
  "ld32 m a = ucast (m a) OR push_bit 8 (ucast (m (a + 1)))
     OR push_bit 16 (ucast (m (a + 2))) OR push_bit 24 (ucast (m (a + 3)))"

definition st32 :: "mem \<Rightarrow> u32 \<Rightarrow> u32 \<Rightarrow> mem" where
  "st32 m a v = m(a := ucast v, a + 1 := ucast (drop_bit 8 v),
     a + 2 := ucast (drop_bit 16 v), a + 3 := ucast (drop_bit 24 v))"

text \<open>The compiler builtins \<open>__builtin_bswap16\<close> and \<open>__builtin_bswap32\<close>.\<close>

definition bswap16 :: "u16 \<Rightarrow> u16" where
  "bswap16 x = push_bit 8 x OR drop_bit 8 x"

definition byte_of :: "u32 \<Rightarrow> nat \<Rightarrow> u32" where
  "byte_of x i = ucast (ucast (drop_bit (8 * i) x) :: u8)"

definition bswap32 :: "u32 \<Rightarrow> u32" where
  "bswap32 x = push_bit 24 (byte_of x 0) OR push_bit 16 (byte_of x 1)
     OR push_bit 8 (byte_of x 2) OR byte_of x 3"

text \<open>The ranges \<open>[a, a + n)\<close> and \<open>[b, b + k)\<close> do not meet; the distances are
  taken modulo \<open>2 ^ 32\<close>, so the definition is right for ranges that wrap around.\<close>

definition apart :: "u32 \<Rightarrow> u32 \<Rightarrow> u32 \<Rightarrow> u32 \<Rightarrow> bool" where
  "apart n a k b \<longleftrightarrow> n \<le> b - a \<and> k \<le> a - b"

text \<open>Reading and writing runs of bytes; \<open>mem_write\<close> is the loop of \<open>memcpy\<close> when the
  source bytes are given as a list.\<close>

definition mem_read :: "mem \<Rightarrow> u32 \<Rightarrow> nat \<Rightarrow> u8 list" where
  "mem_read m a n = map (\<lambda>i. m (a + of_nat i)) [0..<n]"

fun mem_write :: "mem \<Rightarrow> u32 \<Rightarrow> u8 list \<Rightarrow> mem" where
  "mem_write m a [] = m"
| "mem_write m a (x # xs) = mem_write (m(a := x)) (a + 1) xs"


section \<open>Laws of the accessors\<close>

lemma byte_lane_cases:
  "n < LENGTH(32) \<Longrightarrow> (n < 8 \<Longrightarrow> P) \<Longrightarrow> (8 \<le> n \<Longrightarrow> n < 16 \<Longrightarrow> P)
   \<Longrightarrow> (16 \<le> n \<Longrightarrow> n < 24 \<Longrightarrow> P) \<Longrightarrow> (24 \<le> n \<Longrightarrow> n < 32 \<Longrightarrow> P) \<Longrightarrow> P"
  by fastforce

lemma ld16_st16_same [mem_simps]: "ld16 (st16 m a v) a = v"
  unfolding ld16_def st16_def
  by (simp, rule bit_word_eqI) (auto simp: bit_simps)

lemma ld32_st32_same [mem_simps]: "ld32 (st32 m a v) a = v"
  unfolding ld32_def st32_def
  by (simp, rule bit_word_eqI, erule byte_lane_cases) (auto simp: bit_simps)

lemma bswap16_twice [simp]: "bswap16 (bswap16 x) = x"
  unfolding bswap16_def by (rule bit_word_eqI) (auto simp: bit_simps)

lemma bit_byte_of: "bit (byte_of x i) n \<longleftrightarrow> n < 8 \<and> bit x (8 * i + n)"
  by (auto simp: byte_of_def bit_simps)
lemma bit_bswap32: "n < 32 \<Longrightarrow> bit (bswap32 x) n \<longleftrightarrow> bit x (n mod 8 + 8 * (3 - n div 8))"
proof -
  assume n: "n < 32"
  consider "n < 8" | "8 \<le> n" "n < 16" | "16 \<le> n" "n < 24" | "24 \<le> n" "n < 32" using n by linarith
  then show ?thesis
  proof cases
    case 1 then have "n div 8 = 0" "n mod 8 = n" by auto
    then show ?thesis using 1 by (auto simp: bswap32_def bit_simps bit_byte_of ac_simps)
  next
    case 2 then have "n div 8 = 1" "n mod 8 = n - 8" by (auto simp: mod_if)
    then show ?thesis using 2 by (auto simp: bswap32_def bit_simps bit_byte_of ac_simps)
  next
    case 3 then have "n div 8 = 2" "n mod 8 = n - 16" by (auto simp: mod_if)
    then show ?thesis using 3 by (auto simp: bswap32_def bit_simps bit_byte_of ac_simps)
  next
    case 4 then have "n div 8 = 3" "n mod 8 = n - 24" by (auto simp: mod_if)
    then show ?thesis using 4 by (auto simp: bswap32_def bit_simps bit_byte_of ac_simps)
  qed
qed
lemma bswap32_twice [simp]: "bswap32 (bswap32 x) = x"
proof (rule bit_word_eqI)
  fix n assume "n < LENGTH(32)"
  then have n: "n < 32" by simp
  let ?k = "n mod 8 + 8 * (3 - n div 8)"
  have k: "?k < 32" using n by (auto simp: less_Suc_eq)
  have "?k mod 8 + 8 * (3 - ?k div 8) = n" using n by (simp add: div_add1_eq)
  then show "bit (bswap32 (bswap32 x)) n \<longleftrightarrow> bit x n" using bit_bswap32[OF n] bit_bswap32[OF k] by simp
qed

lemma bswap16_eq_iff: "bswap16 x = y \<longleftrightarrow> x = bswap16 y"
  by (metis bswap16_twice)

lemma bswap32_eq_iff: "bswap32 x = y \<longleftrightarrow> x = bswap32 y"
  by (metis bswap32_twice)

lemma unat_u32_less: "unat (w :: u32) < 2 ^ 32"
  using unsigned_less [of w] by simp

lemma unat_add_no_wrap:
  fixes a :: u32 shows "unat a + k < 2 ^ 32 \<Longrightarrow> unat (a + of_nat k) = unat a + k"
  by (subst unat_add_lem [THEN iffD1]) (simp_all add: unat_of_nat take_bit_nat_eq_self)

lemma apart_sym: "apart n a k b \<longleftrightarrow> apart k b n a"
  by (auto simp: apart_def)

lemma apart_mono:
  assumes "apart n a k b" "n' \<le> n" "k' \<le> k"
  shows "apart n' a k' b"
  using assms by (auto simp: apart_def)

lemma apart_neq:
  assumes "apart n a k b" "i < n" "j < k"
  shows "a + i \<noteq> b + j"
proof
  assume e: "a + i = b + j"
  have d: "n \<le> b - a" "k \<le> a - b" using assms by (auto simp: apart_def)
  show False
  proof (cases "j \<le> i")
    case True
    have "b - a = i - j" using e by (simp add: algebra_simps)
    moreover have "i - j \<le> i" using True by (metis word_sub_le)
    ultimately show False using d(1) assms(2) by auto
  next
    case False
    have "a - b = j - i" using e by (simp add: algebra_simps)
    moreover have "j - i \<le> j" using False by (metis word_sub_le linear)
    ultimately show False using d(2) assms(3) by auto
  qed
qed

lemma ld32_cong: "(\<And>j. j < 4 \<Longrightarrow> m (b + j) = m' (b + j)) \<Longrightarrow> ld32 m b = ld32 m' b"
proof -
  assume h: "\<And>j. j < 4 \<Longrightarrow> m (b + j) = m' (b + j)"
  show ?thesis using h[of 0] h[of 1] h[of 2] h[of 3] by (simp add: ld32_def)
qed
lemma st32_other: "(\<And>i. i < 4 \<Longrightarrow> a + i \<noteq> b) \<Longrightarrow> st32 m a v b = m b"
proof -
  assume h: "\<And>i. i < 4 \<Longrightarrow> a + i \<noteq> b"
  show ?thesis using h[of 0] h[of 1] h[of 2] h[of 3] by (simp add: st32_def)
qed
lemma ld32_st32_apart [mem_simps]: "apart 4 a 4 b \<Longrightarrow> ld32 (st32 m a v) b = ld32 m b"
  by (rule ld32_cong, rule st32_other) (rule apart_neq)

lemma st32_byte_apart [mem_simps]: "apart 4 a 1 b \<Longrightarrow> st32 m a v b = m b"
  using apart_neq[of 4 a 1 b _ 0] by (auto intro!: st32_other)
lemma ld32_upd_apart [mem_simps]: "apart 1 a 4 b \<Longrightarrow> ld32 (m(a := v)) b = ld32 m b"
  using apart_neq[of 1 a 4 b 0] by (intro ld32_cong) (auto)
lemma length_mem_read [mem_simps]: "length (mem_read m a n) = n" by (simp add: mem_read_def)
lemma nth_mem_read [mem_simps]: "i < n \<Longrightarrow> mem_read m a n ! i = m (a + of_nat i)" by (simp add: mem_read_def)

lemma mem_write_other: 
  "(\<And>i. i < length xs \<Longrightarrow> a + of_nat i \<noteq> b) \<Longrightarrow> mem_write m a xs b = m b"
proof (induction xs arbitrary: m a)
  case (Cons x xs)
  have "a \<noteq> b" using Cons.prems[of 0] by simp
  moreover have "a + 1 + of_nat i \<noteq> b" if "i < length xs" for i
    using Cons.prems[of "Suc i"] that by (simp add: algebra_simps)
  ultimately show ?case by (simp add: Cons.IH)
qed simp
lemma of_nat_inj_32: "i < 2^32 \<Longrightarrow> j < 2^32 \<Longrightarrow> (of_nat i :: u32) = of_nat j \<longleftrightarrow> i = j"
  by (simp add: word_of_nat_eq_iff take_bit_nat_eq_self)
lemma mem_write_nth: 
  "i < length xs \<Longrightarrow> length xs \<le> 2 ^ 32 \<Longrightarrow> mem_write m a xs (a + of_nat i) = xs ! i"
proof (induction xs arbitrary: m a i)
  case (Cons x xs)
  show ?case
  proof (cases i)
    case 0
    have "mem_write (m(a := x)) (a + 1) xs a = (m(a := x)) a"
    proof (rule mem_write_other)
      fix i assume "i < length xs"
      then have "(of_nat (Suc i) :: u32) \<noteq> of_nat 0" 
        using Cons.prems(2) by (subst of_nat_inj_32) auto
      then show "a + 1 + of_nat i \<noteq> a" by (simp add: add.assoc) 
    qed
    then show ?thesis using 0 by simp
  next
    case (Suc j)
    have "mem_write (m(a := x)) (a + 1) xs (a + 1 + of_nat j) = xs ! j"
      by (rule Cons.IH) (use Cons.prems Suc in auto)
    then show ?thesis using Suc by (simp add: add.assoc)
  qed
qed simp
lemma mem_read_write: 
  "length xs \<le> 2 ^ 32 \<Longrightarrow> mem_read (mem_write m a xs) a (length xs) = xs"
  by (rule nth_equalityI) (simp_all only: length_mem_read nth_mem_read mem_write_nth)

lemma mem_write_append:
  "mem_write m p (xs @ ys) = mem_write (mem_write m p xs) (p + of_nat (length xs)) ys"
  by (induction xs arbitrary: m p) (simp_all flip: add.assoc)

lemma mem_read_append: "mem_read m a (i + j) = mem_read m a i @ mem_read m (a + of_nat i) j"
  by (rule nth_equalityI) (auto simp: mem_read_def nth_append algebra_simps)

end
