(* ===== verification/CString.thy ===== *)
theory CString
  imports Prelude
begin

text \<open>
  \<^verbatim>\<open>src/libc/string/string.c\<close> and \<^verbatim>\<open>src/libc/ctype/ctype.c\<close> on the byte memory.  A counting loop
  \<^verbatim>\<open>while (n--)\<close> is a recursion on the number of rounds left; a loop that looks for a terminating
  zero is a \<open>partial_function\<close>, which has no result when there is none.  A function that returns
  its first argument is modelled by the memory it leaves.  \<open>cstr m p xs\<close> says that the bytes
  \<open>xs\<close> and a terminating zero are at \<open>p\<close>.
\<close>

section \<open>The functions\<close>

fun copy_up :: "nat \<Rightarrow> u32 \<Rightarrow> u32 \<Rightarrow> mem \<Rightarrow> mem" where
  "copy_up 0 d s m = m"
| "copy_up (Suc n) d s m = copy_up n (d + 1) (s + 1) (m(d := m s))"

fun copy_down :: "nat \<Rightarrow> u32 \<Rightarrow> u32 \<Rightarrow> mem \<Rightarrow> mem" where
  "copy_down 0 d s m = m"
| "copy_down (Suc n) d s m = copy_down n (d - 1) (s - 1) (m(d - 1 := m (s - 1)))"

fun fill_up :: "nat \<Rightarrow> u32 \<Rightarrow> u8 \<Rightarrow> mem \<Rightarrow> mem" where
  "fill_up 0 p c m = m"
| "fill_up (Suc n) p c m = fill_up n (p + 1) c (m(p := c))"

definition memcpy :: "u32 \<Rightarrow> u32 \<Rightarrow> u32 \<Rightarrow> mem \<Rightarrow> mem" where
  "memcpy dest src n m = copy_up (unat n) dest src m"

definition memmove :: "u32 \<Rightarrow> u32 \<Rightarrow> u32 \<Rightarrow> mem \<Rightarrow> mem" where
  "memmove dest src n m =
     (if dest < src then copy_up (unat n) dest src m
      else copy_down (unat n) (dest + n) (src + n) m)"

definition memset :: "u32 \<Rightarrow> int \<Rightarrow> u32 \<Rightarrow> mem \<Rightarrow> mem" where
  "memset s c n m = fill_up (unat n) s (word_of_int c) m"

fun memcmp_loop :: "nat \<Rightarrow> u32 \<Rightarrow> u32 \<Rightarrow> mem \<Rightarrow> int" where
  "memcmp_loop 0 p1 p2 m = 0"
| "memcmp_loop (Suc n) p1 p2 m =
     (if m p1 \<noteq> m p2 then uint (m p1) - uint (m p2) else memcmp_loop n (p1 + 1) (p2 + 1) m)"

definition memcmp :: "u32 \<Rightarrow> u32 \<Rightarrow> u32 \<Rightarrow> mem \<Rightarrow> int" where
  "memcmp s1 s2 n m = memcmp_loop (unat n) s1 s2 m"

fun memchr_loop :: "nat \<Rightarrow> u32 \<Rightarrow> u8 \<Rightarrow> mem \<Rightarrow> u32" where
  "memchr_loop 0 p c m = NULL"
| "memchr_loop (Suc n) p c m = (if m p = c then p else memchr_loop n (p + 1) c m)"

definition memchr :: "u32 \<Rightarrow> int \<Rightarrow> u32 \<Rightarrow> mem \<Rightarrow> u32" where
  "memchr s c n m = memchr_loop (unat n) s (word_of_int c) m"

text \<open>\<^verbatim>\<open>while ((*d++ = *src++));\<close>\<close>

partial_function (option) strcpy :: "u32 \<Rightarrow> u32 \<Rightarrow> mem \<Rightarrow> mem option" where
  "strcpy d src m =
     (let m' = m(d := m src) in if m src = 0 then Some m' else strcpy (d + 1) (src + 1) m')"

text \<open>\<^verbatim>\<open>while (n && (*d++ = *src++)) n--;\<close> with the final \<^verbatim>\<open>n\<close> and \<^verbatim>\<open>d\<close>; on a zero byte
  \<^verbatim>\<open>d\<close> has moved and \<^verbatim>\<open>n\<close> has not.\<close>

fun strn_loop :: "nat \<Rightarrow> u32 \<Rightarrow> u32 \<Rightarrow> mem \<Rightarrow> nat \<times> u32 \<times> mem" where
  "strn_loop 0 d src m = (0, d, m)"
| "strn_loop (Suc n) d src m =
     (if m src = 0 then (Suc n, d + 1, m(d := m src))
      else strn_loop n (d + 1) (src + 1) (m(d := m src)))"

definition strncpy :: "u32 \<Rightarrow> u32 \<Rightarrow> u32 \<Rightarrow> mem \<Rightarrow> mem" where
  "strncpy dest src n m = (case strn_loop (unat n) dest src m of (n, d, m) \<Rightarrow> fill_up n d 0 m)"

text \<open>\<^verbatim>\<open>while (*d) d++;\<close>\<close>

partial_function (option) str_end :: "u32 \<Rightarrow> mem \<Rightarrow> u32 option" where
  "str_end d m = (if m d = 0 then Some d else str_end (d + 1) m)"

definition strcat :: "u32 \<Rightarrow> u32 \<Rightarrow> mem \<Rightarrow> mem option" where
  "strcat dest src m = do { d \<leftarrow> str_end dest m; strcpy d src m }"

definition strncat :: "u32 \<Rightarrow> u32 \<Rightarrow> u32 \<Rightarrow> mem \<Rightarrow> mem option" where
  "strncat dest src n m =
     do { d \<leftarrow> str_end dest m;
          case strn_loop (unat n) d src m of (n, d, m) \<Rightarrow> Some (m(d := 0)) }"

partial_function (option) strcmp :: "u32 \<Rightarrow> u32 \<Rightarrow> mem \<Rightarrow> int option" where
  "strcmp s1 s2 m =
     (if m s1 \<noteq> 0 \<and> m s1 = m s2 then strcmp (s1 + 1) (s2 + 1) m
      else Some (uint (m s1) - uint (m s2)))"

fun strncmp_loop :: "nat \<Rightarrow> u32 \<Rightarrow> u32 \<Rightarrow> mem \<Rightarrow> int" where
  "strncmp_loop 0 s1 s2 m = 0"
| "strncmp_loop (Suc n) s1 s2 m =
     (if m s1 \<noteq> 0 \<and> m s1 = m s2 then strncmp_loop n (s1 + 1) (s2 + 1) m
      else uint (m s1) - uint (m s2))"

definition strncmp :: "u32 \<Rightarrow> u32 \<Rightarrow> u32 \<Rightarrow> mem \<Rightarrow> int" where
  "strncmp s1 s2 n m = strncmp_loop (unat n) s1 s2 m"

partial_function (option) strlen_loop :: "u32 \<Rightarrow> u32 \<Rightarrow> mem \<Rightarrow> u32 option" where
  "strlen_loop s len m = (if m s = 0 then Some len else strlen_loop (s + 1) (len + 1) m)"

definition strlen :: "u32 \<Rightarrow> mem \<Rightarrow> u32 option" where
  "strlen s m = strlen_loop s 0 m"

partial_function (option) strchr :: "u32 \<Rightarrow> int \<Rightarrow> mem \<Rightarrow> u32 option" where
  "strchr s c m =
     (if m s \<noteq> 0 then (if m s = word_of_int c then Some s else strchr (s + 1) c m)
      else Some (if c = 0 then s else NULL))"

partial_function (option) strrchr_loop :: "u32 \<Rightarrow> u32 \<Rightarrow> int \<Rightarrow> mem \<Rightarrow> u32 option" where
  "strrchr_loop lst s c m =
     (if m s \<noteq> 0 then strrchr_loop (if m s = word_of_int c then s else lst) (s + 1) c m
      else Some (if c = 0 then s else lst))"

definition strrchr :: "u32 \<Rightarrow> int \<Rightarrow> mem \<Rightarrow> u32 option" where
  "strrchr s c m = strrchr_loop NULL s c m"

text \<open>The inner loop of \<^verbatim>\<open>strstr\<close>; the result is where \<^verbatim>\<open>n\<close> stops.\<close>

partial_function (option) strstr_match :: "u32 \<Rightarrow> u32 \<Rightarrow> mem \<Rightarrow> u32 option" where
  "strstr_match h n m =
     (if m h \<noteq> 0 \<and> m n \<noteq> 0 \<and> m h = m n then strstr_match (h + 1) (n + 1) m else Some n)"

partial_function (option) strstr_loop :: "u32 \<Rightarrow> u32 \<Rightarrow> mem \<Rightarrow> u32 option" where
  "strstr_loop haystack needle m =
     (if m haystack = 0 then Some NULL
      else do { n \<leftarrow> strstr_match haystack needle m;
                if m n = 0 then Some haystack else strstr_loop (haystack + 1) needle m })"

definition strstr :: "u32 \<Rightarrow> u32 \<Rightarrow> mem \<Rightarrow> u32 option" where
  "strstr haystack needle m =
     (if m needle = 0 then Some haystack else strstr_loop haystack needle m)"

text \<open>\<^verbatim>\<open>strtok\<close>: the loops that skip delimiters and the characters of a token; \<^verbatim>\<open>strchr(delim, *next)\<close>
  is only evaluated on a non-zero character.\<close>

partial_function (option) tok_skip :: "bool \<Rightarrow> u32 \<Rightarrow> u32 \<Rightarrow> mem \<Rightarrow> u32 option" where
  "tok_skip delims nx delim m =
     (if m nx = 0 then Some nx
      else do { r \<leftarrow> strchr delim (uint (m nx)) m;
                if (r \<noteq> NULL) = delims then tok_skip delims (nx + 1) delim m else Some nx })"

text \<open>The result is the returned pointer, the new value of the static \<^verbatim>\<open>next\<close> and the memory.\<close>

definition strtok :: "u32 \<Rightarrow> u32 \<Rightarrow> u32 \<Rightarrow> mem \<Rightarrow> (u32 \<times> u32 \<times> mem) option" where
  "strtok str delim nx m =
     (let nx = (if str \<noteq> NULL then str else nx)
      in if nx = NULL then Some (NULL, nx, m)
         else do {
           nx \<leftarrow> tok_skip True nx delim m;
           if m nx = 0 then Some (NULL, NULL, m)
           else do {
             e \<leftarrow> tok_skip False nx delim m;
             Some (if m e \<noteq> 0 then (nx, e + 1, m(e := 0)) else (nx, e, m)) } })"

partial_function (option) strcspn_loop :: "u32 \<Rightarrow> u32 \<Rightarrow> u32 \<Rightarrow> mem \<Rightarrow> u32 option" where
  "strcspn_loop s len reject m =
     (if m s = 0 then Some len
      else do { r \<leftarrow> strchr reject (uint (m s)) m;
                if r \<noteq> NULL then Some len else strcspn_loop (s + 1) (len + 1) reject m })"

definition strcspn :: "u32 \<Rightarrow> u32 \<Rightarrow> mem \<Rightarrow> u32 option" where
  "strcspn s reject m = strcspn_loop s 0 reject m"


subsection \<open>Character classes\<close>

definition isdigit :: "int \<Rightarrow> bool" where "isdigit c \<longleftrightarrow> 48 \<le> c \<and> c \<le> 57"
definition islower :: "int \<Rightarrow> bool" where "islower c \<longleftrightarrow> 97 \<le> c \<and> c \<le> 122"
definition isupper :: "int \<Rightarrow> bool" where "isupper c \<longleftrightarrow> 65 \<le> c \<and> c \<le> 90"
definition isalpha :: "int \<Rightarrow> bool" where
  "isalpha c \<longleftrightarrow> (97 \<le> c \<and> c \<le> 122) \<or> (65 \<le> c \<and> c \<le> 90)"
definition isalnum :: "int \<Rightarrow> bool" where "isalnum c \<longleftrightarrow> isdigit c \<or> isalpha c"
definition isspace :: "int \<Rightarrow> bool" where
  "isspace c \<longleftrightarrow> c = 32 \<or> c = 9 \<or> c = 10 \<or> c = 13 \<or> c = 12 \<or> c = 11"
definition isxdigit :: "int \<Rightarrow> bool" where
  "isxdigit c \<longleftrightarrow> isdigit c \<or> (97 \<le> c \<and> c \<le> 102) \<or> (65 \<le> c \<and> c \<le> 70)"
definition isprint :: "int \<Rightarrow> bool" where "isprint c \<longleftrightarrow> 32 \<le> c \<and> c \<le> 126"
definition iscntrl :: "int \<Rightarrow> bool" where "iscntrl c \<longleftrightarrow> c < 32 \<or> c = 127"
definition ispunct :: "int \<Rightarrow> bool" where "ispunct c \<longleftrightarrow> isprint c \<and> \<not> isalnum c \<and> \<not> isspace c"
definition isgraph :: "int \<Rightarrow> bool" where "isgraph c \<longleftrightarrow> isprint c \<and> \<not> isspace c"
definition tolower :: "int \<Rightarrow> int" where "tolower c = (if isupper c then c + 97 - 65 else c)"
definition toupper :: "int \<Rightarrow> int" where "toupper c = (if islower c then c + 65 - 97 else c)"

lemmas ctype_defs = isdigit_def islower_def isupper_def isalpha_def isalnum_def isspace_def
  isxdigit_def isprint_def iscntrl_def ispunct_def isgraph_def tolower_def toupper_def


section \<open>Strings\<close>

fun cstr :: "mem \<Rightarrow> u32 \<Rightarrow> u8 list \<Rightarrow> bool" where
  "cstr m p [] \<longleftrightarrow> m p = 0"
| "cstr m p (x # xs) \<longleftrightarrow> m p = x \<and> x \<noteq> 0 \<and> cstr m (p + 1) xs"

lemma cstr_unique: "cstr m p xs \<Longrightarrow> cstr m p ys \<Longrightarrow> xs = ys"
proof (induction xs arbitrary: p ys)
  case Nil then show ?case by (cases ys) auto
next
  case (Cons x xs) then show ?case by (cases ys) auto
qed

lemma cstr_nonzero: "cstr m p xs \<Longrightarrow> 0 \<notin> set xs"
  by (induction xs arbitrary: p) auto

lemma cstr_end: "cstr m p xs \<Longrightarrow> m (p + of_nat (length xs)) = 0"
  by (induction xs arbitrary: p) (auto simp flip: add.assoc)

lemma cstr_nth: "cstr m p xs \<Longrightarrow> i < length xs \<Longrightarrow> m (p + of_nat i) = xs ! i"
proof (induction xs arbitrary: p i)
  case (Cons x xs)
  then show ?case by (cases i) (auto simp flip: add.assoc)
qed simp

lemma cstr_suffix: "cstr m p (xs @ ys) \<Longrightarrow> cstr m (p + of_nat (length xs)) ys"
  by (induction xs arbitrary: p) (auto simp flip: add.assoc)

lemma cstr_cong:
  "(\<And>i. i \<le> length xs \<Longrightarrow> m (p + of_nat i) = m' (p + of_nat i)) \<Longrightarrow> cstr m p xs = cstr m' p xs"
proof (induction xs arbitrary: p)
  case Nil
  then show ?case using Nil [of 0] by simp
next
  case (Cons x xs)
  have "m p = m' p" using Cons.prems [of 0] by simp
  moreover have "cstr m (p + 1) xs = cstr m' (p + 1) xs"
    using Cons.prems [of "Suc _"] by (intro Cons.IH) (auto simp: add.assoc)
  ultimately show ?case by simp
qed

lemma str_end_cstr: "cstr m p xs \<Longrightarrow> str_end p m = Some (p + of_nat (length xs))"
  by (induction xs arbitrary: p) (simp_all add: str_end.simps add.assoc)

lemma strlen_loop_cstr: "cstr m p xs \<Longrightarrow> strlen_loop p n m = Some (n + of_nat (length xs))"
  by (induction xs arbitrary: p n) (simp_all add: strlen_loop.simps add.assoc)

text \<open>\<^verbatim>\<open>strlen\<close> terminates on a terminated string and counts its bytes.\<close>

lemma strlen_counts: "cstr m p xs \<Longrightarrow> strlen p m = Some (of_nat (length xs))"
  by (simp add: strlen_def strlen_loop_cstr)

text \<open>The order of two strings.\<close>

fun list_cmp :: "u8 list \<Rightarrow> u8 list \<Rightarrow> int" where
  "list_cmp [] [] = 0"
| "list_cmp [] (y # ys) = - uint y"
| "list_cmp (x # xs) [] = uint x"
| "list_cmp (x # xs) (y # ys) = (if x = y then list_cmp xs ys else uint x - uint y)"

lemma strcmp_cstr:
  "cstr m p xs \<Longrightarrow> cstr m q ys \<Longrightarrow> strcmp p q m = Some (list_cmp xs ys)"
proof (induction xs ys arbitrary: p q rule: list_cmp.induct)
  case (4 x xs y ys)
  then show ?case by (auto simp: strcmp.simps [of p q])
qed (auto simp: strcmp.simps)

lemma list_cmp_zero: "0 \<notin> set xs \<Longrightarrow> 0 \<notin> set ys \<Longrightarrow> list_cmp xs ys = 0 \<longleftrightarrow> xs = ys"
  by (induction xs ys rule: list_cmp.induct) (auto simp: uint_0_iff dest: unsigned_word_eqI)

text \<open>\<^verbatim>\<open>strcmp\<close> terminates on terminated strings and returns 0 exactly when they are equal.\<close>

lemma strcmp_equal:
  assumes "cstr m p xs" and "cstr m q ys"
  shows "\<exists>r. strcmp p q m = Some r \<and> (r = 0 \<longleftrightarrow> xs = ys)"
  using strcmp_cstr [OF assms] list_cmp_zero cstr_nonzero assms by blast

section \<open>Block copies\<close>

lemma unat_less_Suc_diff:
  fixes a p :: u32
  assumes "n < 2 ^ 32"
  shows "unat (a - p) < Suc n \<longleftrightarrow> a = p \<or> unat (a - (p + 1)) < n"
proof (cases "a = p")
  case False
  then have "a - p \<noteq> 0" by simp
  then have "unat (a - p - 1) = unat (a - p) - 1" "unat (a - p) \<noteq> 0"
    by (auto simp: unat_minus_one unat_eq_zero)
  then show ?thesis using False by (auto simp: diff_diff_eq)
qed simp

lemma fill_up_at: "n \<le> 2 ^ 32 \<Longrightarrow> fill_up n p c m a = (if unat (a - p) < n then c else m a)"
proof (induction n arbitrary: p m)
  case (Suc n)
  then show ?case using unat_less_Suc_diff [of n a p] by (auto simp: Suc.IH)
qed simp

text \<open>A copy upwards is right when no byte is overwritten before it is read.\<close>

lemma copy_up_at:
  assumes "n \<le> 2 ^ 32" and "\<And>i j. i < j \<Longrightarrow> j < n \<Longrightarrow> d + of_nat i \<noteq> s + of_nat j"
  shows "copy_up n d s m a = (if unat (a - d) < n then m (s + (a - d)) else m a)"
  using assms
proof (induction n arbitrary: d s m)
  case (Suc n)
  have IH: "copy_up n (d + 1) (s + 1) (m(d := m s)) a
     = (if unat (a - (d + 1)) < n then (m(d := m s)) (s + 1 + (a - (d + 1))) else (m(d := m s)) a)"
    using Suc.prems(1) Suc.prems(2) [of "Suc _" "Suc _"] by (intro Suc.IH) (auto simp: add.assoc)
  have shift: "s + 1 + (a - (d + 1)) = s + (a - d)" by simp
  show ?case
  proof (cases "unat (a - (d + 1)) < n")
    case True
    let ?j = "Suc (unat (a - (d + 1)))"
    have "d + of_nat 0 \<noteq> s + of_nat ?j" using True by (intro Suc.prems(2)) auto
    then have "s + (a - d) \<noteq> d" by simp
    then show ?thesis using IH True Suc.prems(1) unat_less_Suc_diff [of n a d]
      by (simp add: shift)
  next
    case False
    then show ?thesis using IH Suc.prems(1) unat_less_Suc_diff [of n a d] by auto
  qed
qed simp

text \<open>A copy downwards, from the ends of the ranges.\<close>

lemma copy_down_at:
  assumes "n \<le> 2 ^ 32" and "\<And>i j. i < j \<Longrightarrow> j < n \<Longrightarrow> d - 1 - of_nat i \<noteq> s - 1 - of_nat j"
  shows "copy_down n d s m a = (if unat (d - 1 - a) < n then m (s - (d - a)) else m a)"
  using assms
proof (induction n arbitrary: d s m)
  case (Suc n)
  let ?m = "m(d - 1 := m (s - 1))"
  have IH: "copy_down n (d - 1) (s - 1) ?m a
     = (if unat (d - 1 - 1 - a) < n then ?m (s - 1 - (d - 1 - a)) else ?m a)"
    using Suc.prems(1) Suc.prems(2) [of "Suc _" "Suc _"] by (intro Suc.IH) (auto simp: algebra_simps)
  have shift: "s - 1 - (d - 1 - a) = s - (d - a)" by simp
  have less: "unat (d - 1 - a) < Suc n \<longleftrightarrow> a = d - 1 \<or> unat (d - 1 - 1 - a) < n"
    using unat_less_Suc_diff [of n "d - 1" a] Suc.prems(1) by (auto simp: algebra_simps)
  show ?case
  proof (cases "unat (d - 1 - 1 - a) < n")
    case True
    let ?j = "Suc (unat (d - 1 - 1 - a))"
    have "d - 1 - of_nat 0 \<noteq> s - 1 - of_nat ?j" using True by (intro Suc.prems(2)) auto
    then have "s - (d - a) \<noteq> d - 1" by (simp add: algebra_simps)
    then show ?thesis using IH True less by (simp add: shift)
  next
    case False
    then show ?thesis using IH less by auto
  qed
qed simp

lemma down_range:
  fixes a d n :: u32
  shows "unat (d + n - 1 - a) < unat n \<longleftrightarrow> unat (a - d) < unat n"
proof -
  define k where "k = a - d"
  have e: "d + n - 1 - a = n - 1 - k" by (simp add: k_def)
  have "n - 1 - k < n \<longleftrightarrow> k < n" by uint_arith
  then show ?thesis by (simp add: e k_def word_less_nat_alt)
qed

text \<open>C23: \<^verbatim>\<open>memmove\<close> is right for overlapping ranges in both directions: when neither range wraps
  around the address space, every byte of the destination is the byte that was in the source
  before the call, and every other byte of the memory is unchanged.\<close>

theorem memmove_correct:
  assumes "unat dest + unat n \<le> 2 ^ 32" and "unat src + unat n \<le> 2 ^ 32"
  shows "memmove dest src n m a = (if unat (a - dest) < unat n then m (src + (a - dest)) else m a)"
proof -
  have n: "unat n \<le> 2 ^ 32" using assms by simp
  show ?thesis
  proof (cases "dest < src")
    case True
    then have lt: "unat dest < unat src" by (simp add: word_less_nat_alt)
    have "dest + of_nat i \<noteq> src + of_nat j" if "i < j" "j < unat n" for i j
    proof -
      have "unat (dest + of_nat i) = unat dest + i" "unat (src + of_nat j) = unat src + j"
        using that assms by (auto intro!: unat_add_no_wrap)
      then show ?thesis using lt that by auto
    qed
    then show ?thesis using True copy_up_at [OF n] by (simp add: memmove_def)
  next
    case False
    then have le: "unat src \<le> unat dest" by (simp add: word_less_nat_alt)
    have "dest + n - 1 - of_nat i \<noteq> src + n - 1 - of_nat j" if "i < j" "j < unat n" for i j
    proof -
      have eq: "x + n - 1 - of_nat k = x + of_nat (unat n - 1 - k)" if "k < unat n" for x k
      proof -
        have "(of_nat (unat n) :: u32) = of_nat (Suc k + (unat n - 1 - k))" using that by simp
        then have "n = of_nat k + 1 + of_nat (unat n - 1 - k)" by (simp add: add_ac)
        then show ?thesis by (metis (no_types) add_diff_cancel_left' add_diff_eq diff_diff_eq add.commute)
      qed
      have "unat (dest + of_nat (unat n - 1 - i)) = unat dest + (unat n - 1 - i)"
        "unat (src + of_nat (unat n - 1 - j)) = unat src + (unat n - 1 - j)"
        by (rule unat_add_no_wrap; use that assms in simp)+
      moreover have "unat src + (unat n - 1 - j) < unat dest + (unat n - 1 - i)"
        using le that by simp
      ultimately have "dest + of_nat (unat n - 1 - i) \<noteq> src + of_nat (unat n - 1 - j)"
        by (metis less_irrefl)
      then show ?thesis using that by (simp only: eq not_False_eq_True)
    qed
    from copy_down_at [OF n this, where m = m and a = a]
    have "memmove dest src n m a =
        (if unat (dest + n - 1 - a) < unat n then m (src + n - (dest + n - a)) else m a)"
      using False by (simp add: memmove_def)
    moreover have "src + n - (dest + n - a) = src + (a - dest)" by simp
    ultimately show ?thesis by (simp only: down_range)
  qed
qed

theorem memmove_correct_witness:
  "memmove 0x101 0x100 3 ((\<lambda>_. 0)(0x100 := 1, 0x101 := 2, 0x102 := 3)) 0x103 = 3"
  using memmove_correct [of "0x101" 3 "0x100" "(\<lambda>_. 0)(0x100 := 1, 0x101 := 2, 0x102 := 3)" "0x103"]
  by simp

lemma memset_at: "memset p c n m a = (if unat (a - p) < unat n then word_of_int c else m a)"
proof -
  have "unat n \<le> 2 ^ 32" using unat_u32_less [of n] by simp
  then show ?thesis by (simp add: memset_def fill_up_at)
qed

lemma memcpy_at:
  assumes "\<And>i j. i < j \<Longrightarrow> j < unat n \<Longrightarrow> d + of_nat i \<noteq> s + of_nat j"
  shows "memcpy d s n m a = (if unat (a - d) < unat n then m (s + (a - d)) else m a)"
proof -
  have "unat n \<le> 2 ^ 32" using unat_u32_less [of n] by simp
  then show ?thesis using copy_up_at assms by (simp add: memcpy_def)
qed


section \<open>String copies\<close>

text \<open>The bytes that \<^verbatim>\<open>strncpy\<close> stores for a source string \<open>xs\<close>.\<close>

definition strncpy_bytes :: "u8 list \<Rightarrow> nat \<Rightarrow> u8 list" where
  "strncpy_bytes xs n =
     (if length xs < n then xs @ replicate (n - length xs + 1) 0 else take n xs)"

lemma fill_up_write: "fill_up n p c m = mem_write m p (replicate n c)"
  by (induction n arbitrary: p m) auto

lemma strn_loop_cstr:
  assumes "cstr m s xs"
    and "\<And>i j. i \<le> j \<Longrightarrow> j \<le> length xs \<Longrightarrow> d + of_nat i \<noteq> s + of_nat j"
  shows "strn_loop n d s m =
    (if length xs < n
     then (n - length xs, d + of_nat (length xs) + 1, mem_write m d (xs @ [0]))
     else (0, d + of_nat n, mem_write m d (take n xs)))"
  using assms
proof (induction xs arbitrary: n d s m)
  case Nil
  then show ?case by (cases n) (auto simp: fun_upd_def)
next
  case (Cons x xs)
  show ?case
  proof (cases n)
    case (Suc k)
    have ne: "d \<noteq> s + of_nat j" if "j \<le> Suc (length xs)" for j
      using Cons.prems(2) [of 0 j] that by simp
    have "cstr (m(d := x)) (s + 1) xs = cstr m (s + 1) xs"
      using ne [of "Suc _"] by (intro cstr_cong) (auto simp: add.assoc)
    then have c: "cstr (m(d := x)) (s + 1) xs" using Cons.prems(1) by simp
    have "strn_loop k (d + 1) (s + 1) (m(d := x)) =
      (if length xs < k
       then (k - length xs, d + 1 + of_nat (length xs) + 1, mem_write (m(d := x)) (d + 1) (xs @ [0]))
       else (0, d + 1 + of_nat k, mem_write (m(d := x)) (d + 1) (take k xs)))"
      using Cons.prems(2) [of "Suc _" "Suc _"] by (intro Cons.IH [OF c]) (auto simp: add.assoc)
    then show ?thesis using Suc Cons.prems(1) by (auto simp: add.assoc)
  qed simp
qed


text \<open>\<^verbatim>\<open>strncpy\<close> into a destination apart from the source string.  A source of at least \<open>n\<close> bytes
  is cut after \<open>n\<close> bytes.  A shorter one is copied and padded with zeros to a total of
  \<open>n + 1\<close> bytes: one more than the size the caller passes.\<close>

theorem strncpy_stores:
  assumes "cstr m src xs"
    and "\<And>i j. i \<le> j \<Longrightarrow> j \<le> length xs \<Longrightarrow> dest + of_nat i \<noteq> src + of_nat j"
  shows "strncpy dest src n m = mem_write m dest (strncpy_bytes xs (unat n))
    \<and> length (strncpy_bytes xs (unat n)) = (if length xs < unat n then unat n + 1 else unat n)"
proof
  have "[0] @ replicate k 0 = replicate (k + 1) (0 :: u8)" for k by simp
  then have r: "xs @ replicate (k + 1) 0 = (xs @ [0]) @ replicate k 0" for k by simp
  have "strn_loop (unat n) dest src m = (if length xs < unat n
     then (unat n - length xs, dest + of_nat (length xs) + 1, mem_write m dest (xs @ [0]))
     else (0, dest + of_nat (unat n), mem_write m dest (take (unat n) xs)))"
    by (rule strn_loop_cstr [OF assms(1)]) (rule assms(2))
  then show "strncpy dest src n m = mem_write m dest (strncpy_bytes xs (unat n))"
    unfolding strncpy_def strncpy_bytes_def r
    by (simp add: fill_up_write mem_write_append add.assoc)
  show "length (strncpy_bytes xs (unat n)) = (if length xs < unat n then unat n + 1 else unat n)"
    by (simp add: strncpy_bytes_def)
qed

lemma strcpy_cstr:
  assumes "cstr m s xs"
    and "\<And>i j. i \<le> j \<Longrightarrow> j \<le> length xs \<Longrightarrow> d + of_nat i \<noteq> s + of_nat j"
  shows "strcpy d s m = Some (mem_write m d (xs @ [0]))"
  using assms
proof (induction xs arbitrary: d s m)
  case Nil
  then show ?case by (simp add: strcpy.simps [of d s] fun_upd_def)
next
  case (Cons x xs)
  have ne: "d \<noteq> s + of_nat j" if "j \<le> Suc (length xs)" for j
    using Cons.prems(2) [of 0 j] that by simp
  have "cstr (m(d := x)) (s + 1) xs = cstr m (s + 1) xs"
    using ne [of "Suc _"] by (intro cstr_cong) (auto simp: add.assoc)
  then have c: "cstr (m(d := x)) (s + 1) xs" using Cons.prems(1) by simp
  have "strcpy (d + 1) (s + 1) (m(d := x)) = Some (mem_write (m(d := x)) (d + 1) (xs @ [0]))"
    using Cons.prems(2) [of "Suc _" "Suc _"] by (intro Cons.IH [OF c]) (auto simp: add.assoc)
  then show ?case using Cons.prems(1)
    by (subst strcpy.simps) (simp add: Let_def fun_upd_def)
qed

lemma cstr_write: "0 \<notin> set xs \<Longrightarrow> length xs < 2 ^ 32 \<Longrightarrow> cstr (mem_write m d (xs @ [0])) d xs"
proof -
  assume x: "0 \<notin> set xs" "length xs < 2 ^ 32"
  have at: "mem_write m d (xs @ [0]) (d + of_nat i) = (xs @ [0]) ! i" if "i \<le> length xs" for i
    using that x(2) by (intro mem_write_nth) auto
  have "cstr mm p ys" if "\<And>i. i \<le> length ys \<Longrightarrow> mm (p + of_nat i) = (ys @ [0]) ! i" "0 \<notin> set ys"
    for mm p ys using that
  proof (induction ys arbitrary: p)
    case Nil
    then show ?case using Nil(1) [of 0] by simp
  next
    case (Cons y ys)
    have "cstr mm (p + 1) ys"
      using Cons.prems(1) [of "Suc _"] Cons.prems(2) by (intro Cons.IH) (auto simp: add.assoc)
    then show ?case using Cons.prems(1) [of 0] Cons.prems(2) by simp
  qed
  from this [OF at x(1)] show ?thesis by simp
qed

text \<open>\<^verbatim>\<open>strcpy\<close> followed by reading the destination gives the source string back.\<close>

lemma strcpy_roundtrip:
  assumes "cstr m src xs" and "length xs < 2 ^ 32"
    and "\<And>i j. i \<le> j \<Longrightarrow> j \<le> length xs \<Longrightarrow> dest + of_nat i \<noteq> src + of_nat j"
  shows "\<exists>m'. strcpy dest src m = Some m' \<and> cstr m' dest xs
     \<and> (\<forall>a. (\<forall>i\<le>length xs. a \<noteq> dest + of_nat i) \<longrightarrow> m' a = m a)"
proof -
  have "mem_write m dest (xs @ [0]) a = m a" if "\<forall>i\<le>length xs. a \<noteq> dest + of_nat i" for a
    using that by (intro mem_write_other) (metis length_append_singleton less_Suc_eq_le)
  then show ?thesis
    using strcpy_cstr [OF assms(1,3)] cstr_write [OF cstr_nonzero [OF assms(1)] assms(2)] by auto
qed

theorem strncpy_stores_witness:
  "strncpy 0x200 0x100 4 ((\<lambda>_. 7)(0x100 := 65, 0x101 := 0)) 0x204 = 0"
proof -
  let ?m = "(\<lambda>_. 7)(0x100 := 65 :: u8, 0x101 := 0)"
  have ne: "(0x200 :: u32) + of_nat i \<noteq> 0x100 + of_nat j" if "i \<le> j" "j \<le> length [65 :: u8]" for i j
    using that by (cases i; cases j; auto)
  have "strncpy 0x200 0x100 4 ?m = mem_write ?m 0x200 (strncpy_bytes [65] 4)"
    using strncpy_stores [of ?m "0x100" "[65]" "0x200" 4, OF _ ne] by simp
  then show ?thesis by (simp add: strncpy_bytes_def numeral_eq_Suc)
qed


section \<open>Searching\<close>

lemma strchr_cstr:
  "cstr m s xs \<Longrightarrow> c \<noteq> 0 \<Longrightarrow>
   strchr s c m = Some (case find (\<lambda>i. xs ! i = word_of_int c) [0..<length xs] of
     Some i \<Rightarrow> s + of_nat i | None \<Rightarrow> NULL)"
proof (induction xs arbitrary: s)
  case Nil
  then show ?case by (simp add: strchr.simps)
next
  case (Cons x xs)
  have up: "[0..<length (x # xs)] = 0 # map Suc [0..<length xs]"
    by (simp add: upt_conv_Cons map_Suc_upt del: upt_Suc)
  have "find P (map Suc is) = map_option Suc (find (P \<circ> Suc) is)" for P "is"
    by (induction "is") auto
  then show ?case
    using Cons unfolding up
    by (auto simp: strchr.simps [of s] o_def option.map_comp split: option.splits)
qed

lemma strstr_match_cstr:
  "cstr m h xs \<Longrightarrow> cstr m n ys \<Longrightarrow>
   \<exists>k. strstr_match h n m = Some k \<and> (m k = 0 \<longleftrightarrow> take (length ys) xs = ys)"
proof (induction xs arbitrary: h n ys)
  case Nil
  then show ?case by (cases ys) (auto simp: strstr_match.simps [of h])
next
  case (Cons x xs)
  show ?case
  proof (cases ys)
    case Nil
    then show ?thesis using Cons.prems by (auto simp: strstr_match.simps [of h])
  next
    case (Cons y ys')
    then show ?thesis using Cons.prems Cons.IH [of "h + 1" "n + 1" ys']
      by (auto simp: strstr_match.simps [of h])
  qed
qed

text \<open>Where \<open>ys\<close> first occurs in \<open>xs\<close>.\<close>

fun first_occurrence :: "u8 list \<Rightarrow> u8 list \<Rightarrow> nat option" where
  "first_occurrence ys [] = (if ys = [] then Some 0 else None)"
| "first_occurrence ys (x # xs) =
     (if take (length ys) (x # xs) = ys then Some 0 else map_option Suc (first_occurrence ys xs))"

lemma strstr_loop_cstr:
  "cstr m h xs \<Longrightarrow> cstr m n ys \<Longrightarrow> ys \<noteq> [] \<Longrightarrow>
   strstr_loop h n m = Some (case first_occurrence ys xs of Some i \<Rightarrow> h + of_nat i | None \<Rightarrow> NULL)"
proof (induction xs arbitrary: h)
  case Nil
  then show ?case by (simp add: strstr_loop.simps)
next
  case (Cons x xs)
  obtain k where k: "strstr_match h n m = Some k" "m k = 0 \<longleftrightarrow> take (length ys) (x # xs) = ys"
    using strstr_match_cstr [OF Cons.prems(1,2)] by blast
  have h: "m h \<noteq> 0" "cstr m (h + 1) xs" using Cons.prems(1) by auto
  show ?case
    using k h Cons.IH [OF h(2) Cons.prems(2,3)]
    by (subst strstr_loop.simps) (auto split: option.splits)
qed

text \<open>\<^verbatim>\<open>strstr\<close> terminates on terminated strings and returns the address of the first occurrence
  of the needle, \<^verbatim>\<open>NULL\<close> when there is none.\<close>

theorem strstr_first:
  assumes "cstr m h xs" and "cstr m n ys"
  shows "strstr h n m = Some (case first_occurrence ys xs of Some i \<Rightarrow> h + of_nat i | None \<Rightarrow> NULL)"
proof (cases ys)
  case Nil
  then have "first_occurrence ys xs = Some 0" by (cases xs) auto
  then show ?thesis using Nil assms(2) by (simp add: strstr_def)
next
  case (Cons y ys')
  then show ?thesis using assms strstr_loop_cstr [OF assms] by (auto simp: strstr_def)
qed

lemma first_occurrence_Some:
  "first_occurrence ys xs = Some i \<Longrightarrow>
   take (length ys) (drop i xs) = ys \<and> (\<forall>j<i. take (length ys) (drop j xs) \<noteq> ys)"
proof (induction xs arbitrary: i)
  case (Cons x xs)
  show ?case
  proof (cases "take (length ys) (x # xs) = ys")
    case False
    then obtain k where "first_occurrence ys xs = Some k" "i = Suc k" using Cons.prems by auto
    with Cons.IH [of k] False show ?thesis by (auto simp: less_Suc_eq_0_disj)
  qed (use Cons.prems in simp)
qed (auto split: if_splits)

theorem strstr_first_witness:
  "strstr 0x100 0x200 ((\<lambda>_. 0)(0x100 := 1, 0x101 := 2, 0x102 := 3, 0x200 := 2, 0x201 := 3)) = Some 0x101"
  using strstr_first [of "(\<lambda>_. 0)(0x100 := 1, 0x101 := 2, 0x102 := 3, 0x200 := 2, 0x201 := 3)"
      "0x100" "[1, 2, 3]" "0x200" "[2, 3]"] by simp

end
