(* ===== verification/Arp.thy ===== *)
theory Arp
  imports Prelude
begin

text \<open>
  The ARP cache of \<^verbatim>\<open>src/kernel/net/net.c\<close>: the table of sixteen entries, the loop of
  \<^verbatim>\<open>arp_input\<close> that records a sender, the lookup of \<^verbatim>\<open>arp_resolve\<close> and the
  ageing sweep of \<^verbatim>\<open>net_tick\<close>, which the scheduler calls on every timer tick.
\<close>

abbreviation (input) NET_MAX_ARP_ENTRIES :: nat where
  "NET_MAX_ARP_ENTRIES \<equiv> 16"

record arp_entry =
  ae_ip_addr :: u32
  ae_mac :: "u8 list"
  ae_expire :: u32
  ae_used :: u8

definition arp_entry_zero :: arp_entry where
  "arp_entry_zero = \<lparr>ae_ip_addr = 0, ae_mac = replicate 6 0, ae_expire = 0, ae_used = 0\<rparr>"

text \<open>The table in the bss section, all zero.\<close>

definition arp_table_init :: "arp_entry list" where
  "arp_table_init = replicate NET_MAX_ARP_ENTRIES arp_entry_zero"

text \<open>The loop of \<^verbatim>\<open>arp_input\<close>: the first entry that is unused or already holds the
  address is overwritten.\<close>

fun arp_learn :: "u32 \<Rightarrow> u8 list \<Rightarrow> u32 \<Rightarrow> arp_entry list \<Rightarrow> arp_entry list" where
  "arp_learn spa sha tick [] = []"
| "arp_learn spa sha tick (e # es) =
     (if ae_used e = 0 \<or> ae_ip_addr e = spa
      then e\<lparr>ae_ip_addr := spa, ae_mac := sha, ae_expire := tick + 300, ae_used := 1\<rparr> # es
      else e # arp_learn spa sha tick es)"

text \<open>\<^verbatim>\<open>arp_resolve\<close>: \<open>Some mac\<close> for the return value 0, \<open>None\<close> for -1.\<close>

fun arp_resolve :: "u32 \<Rightarrow> arp_entry list \<Rightarrow> u8 list option" where
  "arp_resolve ip [] = None"
| "arp_resolve ip (e # es) =
     (if ae_used e \<noteq> 0 \<and> ae_ip_addr e = ip then Some (ae_mac e) else arp_resolve ip es)"

definition arp_expire_entry :: "u32 \<Rightarrow> arp_entry \<Rightarrow> arp_entry" where
  "arp_expire_entry tick e =
     (if ae_used e \<noteq> 0 \<and> ae_expire e \<noteq> 0 \<and> ae_expire e < tick then e\<lparr>ae_used := 0\<rparr> else e)"

text \<open>\<^verbatim>\<open>net_tick\<close> on the table and its tick counter.\<close>

definition arp_age :: "arp_entry list \<Rightarrow> u32 \<Rightarrow> arp_entry list \<times> u32" where
  "arp_age es tick =
     (let tick = tick + 1
      in if 1000 \<le> tick then (map (arp_expire_entry tick) es, 0) else (es, tick))"


section \<open>What a lookup finds after a sender is recorded\<close>

text \<open>A table has room for an address when some entry is unused or already holds it.\<close>

definition arp_room :: "u32 \<Rightarrow> arp_entry list \<Rightarrow> bool" where
  "arp_room ip es \<longleftrightarrow> (\<exists>e\<in>set es. ae_used e = 0 \<or> ae_ip_addr e = ip)"

lemma length_arp_learn [simp]: "length (arp_learn spa sha t es) = length es"
  by (induction es) auto

lemma arp_learn_full: "\<not> arp_room spa es \<Longrightarrow> arp_learn spa sha t es = es"
  by (induction es) (auto simp: arp_room_def)

lemma arp_resolve_learn_same:
  "arp_room spa es \<Longrightarrow> arp_resolve spa (arp_learn spa sha t es) = Some sha"
  by (induction es) (auto simp: arp_room_def)

text \<open>Other addresses: a reused entry held nothing or the same address, so no other address is
  lost or gained.\<close>

lemma arp_resolve_learn_other:
  "ip \<noteq> spa \<Longrightarrow> arp_resolve ip (arp_learn spa sha t es) = arp_resolve ip es"
  by (induction es) auto

lemma arp_resolve_none_full:
  "\<not> arp_room spa es \<Longrightarrow> arp_resolve spa es = None"
  by (induction es) (auto simp: arp_room_def)

text \<open>the cache behaves as a map.  Recording a sender in a table with room makes the lookup of
  its address return the recorded hardware address, leaves the lookup of every other address as it
  was and keeps the size of the table; with no room the table is unchanged.\<close>

theorem arp_learn_lookup:
  "arp_resolve ip (arp_learn spa sha t es) =
     (if ip = spa \<and> arp_room spa es then Some sha else arp_resolve ip es)
   \<and> length (arp_learn spa sha t es) = length es"
  by (auto simp: arp_resolve_learn_same arp_resolve_learn_other arp_learn_full)


section \<open>Ageing\<close>

lemma arp_age_tick_bound: "snd (arp_age es t) < 1000"
  by (auto simp: arp_age_def Let_def not_le)

fun arp_age_n :: "nat \<Rightarrow> arp_entry list \<times> u32 \<Rightarrow> arp_entry list \<times> u32" where
  "arp_age_n 0 st = st"
| "arp_age_n (Suc n) st = arp_age_n n (arp_age (fst st) (snd st))"

end
