(* ===== verification/Dll.thy ===== *)
theory Dll
  imports Prelude
begin

text \<open>
  Intrusive doubly linked lists.  The free list of the heap allocator, the run queues and the
  sleep queue of the scheduler and the children of a ramfs directory are all chains of
  \<open>next\<close>/\<open>prev\<close> pointers kept inside the linked objects, and all unlink a node with the
  same two guarded assignments.  \<open>dseg\<close> and \<open>dll\<close> say that a chain holds a given list of
  addresses; the locale \<open>linked_store\<close> states what a component's pointer fields promise and
  proves once that pushing and unlinking act on the chain as consing and removing act on lists.
\<close>

section \<open>Chains\<close>

fun dseg :: "(u32 \<Rightarrow> u32) \<Rightarrow> (u32 \<Rightarrow> u32) \<Rightarrow> u32 \<Rightarrow> u32 \<Rightarrow> u32 list \<Rightarrow> u32 \<Rightarrow> u32 \<Rightarrow> bool" where
  "dseg nx pv pr h [] l q \<longleftrightarrow> h = q \<and> l = pr"
| "dseg nx pv pr h (x # xs) l q \<longleftrightarrow>
     h = x \<and> x \<noteq> NULL \<and> pv x = pr \<and> dseg nx pv x (nx x) xs l q"

fun dll :: "(u32 \<Rightarrow> u32) \<Rightarrow> (u32 \<Rightarrow> u32) \<Rightarrow> u32 \<Rightarrow> u32 \<Rightarrow> u32 list \<Rightarrow> bool" where
  "dll nx pv pr h [] \<longleftrightarrow> h = NULL"
| "dll nx pv pr h (x # xs) \<longleftrightarrow> h = x \<and> x \<noteq> NULL \<and> pv x = pr \<and> dll nx pv x (nx x) xs"

lemma dseg_append:
  "dseg nx pv pr h (xs @ ys) l q \<longleftrightarrow>
     (\<exists>m r. dseg nx pv pr h xs m r \<and> dseg nx pv m r ys l q)"
  by (induction xs arbitrary: pr h) auto

lemma dll_append:
  "dll nx pv pr h (xs @ ys) \<longleftrightarrow> (\<exists>m r. dseg nx pv pr h xs m r \<and> dll nx pv m r ys)"
  by (induction xs arbitrary: pr h) auto

lemma dseg_NULL_dll: "dseg nx pv pr h xs l NULL \<Longrightarrow> dll nx pv pr h xs"
  by (induction xs arbitrary: pr h) auto

lemma dseg_last: "dseg nx pv pr h xs l q \<Longrightarrow> l = (if xs = [] then pr else last xs)"
  by (induction xs arbitrary: pr h) auto

lemma dseg_cong:
  assumes "\<And>x. x \<in> set xs \<Longrightarrow> nx x = nx' x" "\<And>x. x \<in> set xs \<Longrightarrow> pv x = pv' x"
  shows "dseg nx pv pr h xs l q \<longleftrightarrow> dseg nx' pv' pr h xs l q"
  using assms by (induction xs arbitrary: pr h) auto

lemma dll_cong:
  assumes "\<And>x. x \<in> set xs \<Longrightarrow> nx x = nx' x" "\<And>x. x \<in> set xs \<Longrightarrow> pv x = pv' x"
  shows "dll nx pv pr h xs \<longleftrightarrow> dll nx' pv' pr h xs"
  using assms by (induction xs arbitrary: pr h) auto

lemma dll_nonnull: "dll nx pv pr h xs \<Longrightarrow> x \<in> set xs \<Longrightarrow> x \<noteq> NULL"
  by (induction xs arbitrary: pr h) auto

lemma dll_head: "dll nx pv pr h xs \<Longrightarrow> h = (case xs of [] \<Rightarrow> NULL | x # _ \<Rightarrow> x)"
  by (cases xs) auto

lemma dll_Nil_iff: "dll nx pv pr h xs \<Longrightarrow> (h = NULL) = (xs = [])"
  by (cases xs) auto

text \<open>A chain determines its list and repeats no address.\<close>

lemma dll_unique: "dll nx pv pr h xs \<Longrightarrow> dll nx pv pr h ys \<Longrightarrow> xs = ys"
proof (induction xs arbitrary: pr h ys)
  case Nil
  then show ?case by (cases ys) auto
next
  case (Cons x xs)
  then show ?case by (cases ys) auto
qed

lemma dll_suffix_unique:
  "dll nx pv pr h xs \<Longrightarrow> dll nx pv pr' h ys \<Longrightarrow> xs = ys"
proof (induction xs arbitrary: pr pr' h ys)
  case Nil
  then show ?case by (cases ys) auto
next
  case (Cons x xs)
  from Cons.prems obtain ys' where ys: "ys = x # ys'" by (cases ys) auto
  with Cons.prems have "xs = ys'" by (auto intro: Cons.IH)
  with ys show ?case by simp
qed

lemma dll_distinct: "dll nx pv pr h xs \<Longrightarrow> distinct xs"
proof (induction xs arbitrary: pr h)
  case (Cons x xs)
  have "x \<notin> set xs"
  proof
    assume "x \<in> set xs"
    then obtain as bs where xs: "xs = as @ x # bs" by (auto dest: split_list)
    from Cons.prems have tail: "dll nx pv x (nx x) xs" by simp
    with xs have "\<exists>m. dll nx pv x (nx x) bs \<and> m = x"
      by (auto simp: dll_append)
    then have "bs = xs" using tail by (auto intro: dll_suffix_unique)
    with xs show False by simp
  qed
  with Cons show ?case by auto
qed simp


section \<open>The interface of a linked store\<close>

text \<open>
  The shared statement \<^verbatim>\<open>if (x->prev) x->prev->next = x->next; if (x->next) x->next->prev = x->prev;\<close>
\<close>

definition unlink_node ::
  "('s \<Rightarrow> u32 \<Rightarrow> u32) \<Rightarrow> ('s \<Rightarrow> u32 \<Rightarrow> u32) \<Rightarrow> (u32 \<Rightarrow> u32 \<Rightarrow> 's \<Rightarrow> 's) \<Rightarrow> (u32 \<Rightarrow> u32 \<Rightarrow> 's \<Rightarrow> 's) \<Rightarrow>
     u32 \<Rightarrow> 's \<Rightarrow> 's" where
  "unlink_node nxt prv set_nxt set_prv x s =
     (let s1 = (if prv s x \<noteq> NULL then set_nxt (prv s x) (nxt s x) s else s)
      in if nxt s1 x \<noteq> NULL then set_prv (nxt s1 x) (prv s1 x) s1 else s1)"

text \<open>
  \<open>sep a b\<close> says that the objects at \<open>a\<close> and \<open>b\<close> do not overlap: distinct addresses in
  a store with one cell per object, distinct and far enough apart in the byte memory.
\<close>

locale linked_store =
  fixes nxt prv :: "'s \<Rightarrow> u32 \<Rightarrow> u32"
    and set_nxt set_prv :: "u32 \<Rightarrow> u32 \<Rightarrow> 's \<Rightarrow> 's"
    and sep :: "u32 \<Rightarrow> u32 \<Rightarrow> bool"
  assumes nxt_set_nxt_same: "nxt (set_nxt a v s) a = v"
    and nxt_set_nxt_sep: "sep a b \<Longrightarrow> nxt (set_nxt a v s) b = nxt s b"
    and prv_set_nxt_same: "prv (set_nxt a v s) a = prv s a"
    and prv_set_nxt_sep: "sep a b \<Longrightarrow> prv (set_nxt a v s) b = prv s b"
    and prv_set_prv_same: "prv (set_prv a v s) a = v"
    and prv_set_prv_sep: "sep a b \<Longrightarrow> prv (set_prv a v s) b = prv s b"
    and nxt_set_prv_same: "nxt (set_prv a v s) a = nxt s a"
    and nxt_set_prv_sep: "sep a b \<Longrightarrow> nxt (set_prv a v s) b = nxt s b"
    and sep_commute: "sep a b \<Longrightarrow> sep b a"
begin

lemmas set_simps =
  nxt_set_nxt_same nxt_set_nxt_sep prv_set_nxt_same prv_set_nxt_sep
  prv_set_prv_same prv_set_prv_sep nxt_set_prv_same nxt_set_prv_sep

text \<open>Writing a node apart from every node of a chain leaves the chain alone.\<close>

lemma dll_set_nxt_sep:
  "(\<And>x. x \<in> set xs \<Longrightarrow> sep a x) \<Longrightarrow>
   dll (nxt (set_nxt a v s)) (prv (set_nxt a v s)) pr h xs \<longleftrightarrow> dll (nxt s) (prv s) pr h xs"
  by (rule dll_cong) (auto simp: set_simps)

lemma dll_set_prv_sep:
  "(\<And>x. x \<in> set xs \<Longrightarrow> sep a x) \<Longrightarrow>
   dll (nxt (set_prv a v s)) (prv (set_prv a v s)) pr h xs \<longleftrightarrow> dll (nxt s) (prv s) pr h xs"
  by (rule dll_cong) (auto simp: set_simps)

lemma dseg_set_nxt_sep:
  "(\<And>x. x \<in> set xs \<Longrightarrow> sep a x) \<Longrightarrow>
   dseg (nxt (set_nxt a v s)) (prv (set_nxt a v s)) pr h xs l q \<longleftrightarrow> dseg (nxt s) (prv s) pr h xs l q"
  by (rule dseg_cong) (auto simp: set_simps)

lemma dseg_set_prv_sep:
  "(\<And>x. x \<in> set xs \<Longrightarrow> sep a x) \<Longrightarrow>
   dseg (nxt (set_prv a v s)) (prv (set_prv a v s)) pr h xs l q \<longleftrightarrow> dseg (nxt s) (prv s) pr h xs l q"
  by (rule dseg_cong) (auto simp: set_simps)

text \<open>Pushing a node in front of a chain.\<close>

lemma push_front:
  assumes chain: "dll (nxt s) (prv s) NULL h xs"
    and x: "x \<noteq> NULL" "\<And>y. y \<in> set xs \<Longrightarrow> sep x y"
    and pair: "pairwise sep (set xs)"
  defines "s1 \<equiv> set_prv x NULL (set_nxt x h s)"
  defines "s2 \<equiv> (if h \<noteq> NULL then set_prv h x s1 else s1)"
  shows "dll (nxt s2) (prv s2) NULL x (x # xs)"
proof (cases xs)
  case Nil
  with chain x show ?thesis by (simp add: s2_def s1_def set_simps)
next
  case (Cons y ys)
  with chain have y: "h = y" "y \<noteq> NULL" and tl: "dll (nxt s) (prv s) y (nxt s y) ys" by auto
  have xy: "sep x y" using x Cons by simp
  have d: "distinct (y # ys)" using chain Cons dll_distinct by blast
  have ysep: "sep y z" if "z \<in> set ys" for z
    using pair Cons d that by (auto simp: pairwise_def)
  have xsep: "sep x z" if "z \<in> set ys" for z
    using x(2) Cons that by simp
  have s2: "s2 = set_prv y x s1" using y by (simp add: s2_def)
  have "dll (nxt s2) (prv s2) y (nxt s y) ys"
    using tl xsep ysep by (simp add: s2 s1_def dll_set_prv_sep dll_set_nxt_sep)
  moreover have "nxt s2 y = nxt s y" "prv s2 y = x"
    using xy by (simp_all add: s2 s1_def set_simps)
  moreover have "nxt s2 x = y" "prv s2 x = NULL"
    using xy y sep_commute by (simp_all add: s2 s1_def set_simps)
  ultimately show ?thesis using Cons y x(1) by simp
qed

text \<open>The two guarded assignments take a node out of its chain.\<close>

lemma unlink_chain:
  assumes chain: "dll (nxt s) (prv s) NULL h (as @ x # bs)"
    and pair: "pairwise sep (set (as @ x # bs))"
  defines "s' \<equiv> unlink_node nxt prv set_nxt set_prv x s"
  shows "dll (nxt s') (prv s') NULL (if as = [] then nxt s x else h) (as @ bs)"
    and "nxt s' x = nxt s x" and "prv s' x = prv s x"
proof -
  let ?l = "if as = [] then NULL else last as"
  from chain obtain m where
      pre: "dseg (nxt s) (prv s) NULL h as m x" and x0: "x \<noteq> NULL" and px: "prv s x = m"
      and suf: "dll (nxt s) (prv s) x (nxt s x) bs"
    by (auto simp: dll_append)
  from pre have m: "m = ?l" by (rule dseg_last)
  have dist: "distinct (as @ x # bs)" using chain by (rule dll_distinct)
  have sepI: "sep a b" if "a \<in> set (as @ x # bs)" "b \<in> set (as @ x # bs)" "a \<noteq> b" for a b
    using pair that by (auto simp: pairwise_def)
  define s1 where "s1 = (if prv s x \<noteq> NULL then set_nxt (prv s x) (nxt s x) s else s)"
  have as0: "as = [] \<Longrightarrow> m = NULL" and asl: "as \<noteq> [] \<Longrightarrow> m = last as \<and> m \<noteq> NULL"
    using m dll_nonnull [OF chain, of "last as"] by auto
  have sx: "nxt s1 x = nxt s x" "prv s1 x = prv s x"
  proof (atomize (full), cases "as = []")
    case True
    with as0 px show "nxt s1 x = nxt s x \<and> prv s1 x = prv s x" by (simp add: s1_def)
  next
    case False
    then have "m \<in> set as" using asl by auto
    then have "sep m x" using dist by (intro sepI) auto
    with False asl px show "nxt s1 x = nxt s x \<and> prv s1 x = prv s x"
      by (simp add: s1_def set_simps)
  qed
  have pre1: "dseg (nxt s1) (prv s1) NULL (if as = [] then nxt s x else h) as m (nxt s x)"
  proof (cases as rule: rev_cases)
    case Nil
    then show ?thesis using as0 by simp
  next
    case (snoc as' a)
    then have ma: "m = a" "a \<noteq> NULL" using asl by auto
    from pre snoc obtain m' where
      "dseg (nxt s) (prv s) NULL h as' m' a" "prv s a = m'" by (auto simp: dseg_append)
    moreover have "sep a z" if "z \<in> set as'" for z using snoc dist that by (intro sepI) auto
    ultimately show ?thesis using snoc ma px
      by (auto simp: s1_def dseg_append dseg_set_nxt_sep set_simps)
  qed
  have suf1: "dll (nxt s1) (prv s1) x (nxt s x) bs"
  proof (cases "as = []")
    case False
    then have ml: "m \<in> set as" using asl by auto
    have "sep m z" if "z \<in> set bs" for z using ml dist that by (intro sepI) auto
    with False suf px asl show ?thesis by (simp add: s1_def dll_set_nxt_sep)
  qed (use suf px as0 in \<open>simp add: s1_def\<close>)
  have s': "s' = (if nxt s x \<noteq> NULL then set_prv (nxt s x) m s1 else s1)"
    unfolding s'_def unlink_node_def s1_def [symmetric] Let_def by (simp add: sx px)
  have "dll (nxt s') (prv s') NULL (if as = [] then nxt s x else h) (as @ bs)
      \<and> nxt s' x = nxt s x \<and> prv s' x = prv s x"
  proof (cases bs)
    case Nil
    then have "nxt s x = NULL" using suf by simp
    then show ?thesis using Nil pre1 sx s' by (auto intro: dseg_NULL_dll)
  next
    case (Cons b bs')
    then have b: "nxt s x = b" "b \<noteq> NULL" using suf by auto
    have seps: "\<And>z. z \<in> set as \<Longrightarrow> sep b z" "\<And>z. z \<in> set bs' \<Longrightarrow> sep b z" "sep b x"
      using Cons dist by (auto intro!: sepI)
    have s'': "s' = set_prv b m s1" using s' b by simp
    have "dseg (nxt s') (prv s') NULL (if as = [] then nxt s x else h) as m b"
      using pre1 seps b by (simp add: s'' dseg_set_prv_sep)
    moreover have "dll (nxt s') (prv s') m b bs"
      using suf1 Cons b seps by (simp add: s'' dll_set_prv_sep set_simps)
    moreover have "nxt s' x = nxt s x" "prv s' x = prv s x"
      using sx seps by (simp_all add: s'' set_simps)
    ultimately show ?thesis unfolding dll_append by blast
  qed
  then show "dll (nxt s') (prv s') NULL (if as = [] then nxt s x else h) (as @ bs)"
    and "nxt s' x = nxt s x" and "prv s' x = prv s x" by auto
qed

end

end
