(* ===== verification/Kstate.thy ===== *)
theory Kstate
  imports Arp Dll
begin

text \<open>
  The kernel's shared state: the structs of \<^verbatim>\<open>src/include/kernel.h\<close> and the globals of
  \<^verbatim>\<open>kernel.c\<close>, \<^verbatim>\<open>scheduler.c\<close> and (for the ARP cache) \<^verbatim>\<open>net.c\<close>.  Objects of one struct
  type live in one store indexed by their address; a pointer is a 32 bit word and \<^term>\<open>NULL\<close> is 0.
  The records are extensible: a component that needs more state extends \<open>kstate\<close>.

  Conventions.  A model of a function that faults (a \<^verbatim>\<open>NULL\<close> dereference) or never returns
  gives \<^term>\<open>None\<close>.  A function whose source dereferences its argument at once is modelled for a
  non-null argument; its callers that can pass \<^verbatim>\<open>NULL\<close> give \<^term>\<open>None\<close> there.
\<close>

abbreviation (input) MAX_TASKS :: nat where "MAX_TASKS \<equiv> 64"
abbreviation (input) MAX_PROCESSES :: nat where "MAX_PROCESSES \<equiv> 32"
abbreviation (input) TASK_STACK_SIZE :: u32 where "TASK_STACK_SIZE \<equiv> 4096"
abbreviation (input) TASK_STATE_RUNNABLE :: u8 where "TASK_STATE_RUNNABLE \<equiv> 0"
abbreviation (input) TASK_STATE_RUNNING :: u8 where "TASK_STATE_RUNNING \<equiv> 1"
abbreviation (input) TASK_STATE_SLEEPING :: u8 where "TASK_STATE_SLEEPING \<equiv> 2"
abbreviation (input) TASK_STATE_BLOCKED :: u8 where "TASK_STATE_BLOCKED \<equiv> 3"
abbreviation (input) TASK_STATE_STOPPED :: u8 where "TASK_STATE_STOPPED \<equiv> 4"
abbreviation (input) TASK_STATE_EXITED :: u8 where "TASK_STATE_EXITED \<equiv> 5"
abbreviation (input) PRIORITY_MAX :: nat where "PRIORITY_MAX \<equiv> 31"
abbreviation (input) PRIORITY_DEFAULT :: u8 where "PRIORITY_DEFAULT \<equiv> 16"
abbreviation (input) PRIORITY_MIN :: u8 where "PRIORITY_MIN \<equiv> 0"

record task_context =
  c_a0 :: u32
  c_a1 :: u32
  c_a2 :: u32
  c_a3 :: u32
  c_a4 :: u32
  c_a5 :: u32
  c_a6 :: u32
  c_a7 :: u32
  c_a8 :: u32
  c_a9 :: u32
  c_a10 :: u32
  c_a11 :: u32
  c_a12 :: u32
  c_a13 :: u32
  c_a14 :: u32
  c_a15 :: u32
  c_sar :: u32
  c_pc :: u32
  c_ps :: u32

record task =
  t_tid :: int
  t_pid :: int
  t_state :: u8
  t_priority :: u8
  t_cpu_affinity :: u8
  t_flags :: u8
  t_context :: u32
  t_stack_base :: u32
  t_stack_size :: u32
  t_stack_used :: u32
  t_next :: u32
  t_prev :: u32
  t_process :: u32
  t_wake_time :: u32
  t_exit_code :: int
  t_heap_allocated :: u32
  t_heap_freed :: u32

record process =
  p_pid :: int
  p_ppid :: int
  p_uid :: u32
  p_gid :: u32
  p_name :: string
  p_main_task :: u32
  p_tasks :: u32
  p_task_count :: int
  p_fd_table :: u32
  p_fd_count :: int
  p_fd_max :: int
  p_heap_start :: u32
  p_heap_end :: u32
  p_heap_brk :: u32
  p_heap_allocated :: u32
  p_heap_freed :: u32
  p_parent :: u32
  p_children :: u32
  p_sibling :: u32
  p_exit_code :: int
  p_exited :: u8

record cpu_state =
  current_task :: u32
  idle_task :: u32
  task_list :: u32
  task_count :: int
  tick_count :: u32
  scheduler_lock :: u32
  nesting_level :: int

text \<open>A \<^verbatim>\<open>struct file *\<close>: null, a slot of the static array \<^verbatim>\<open>open_files\<close> or an
  object on the heap.\<close>

datatype file_ref = FNull | OpenFile nat | HeapFile u32

record kstate =
  psr :: u32
  cpu0 :: cpu_state
  tasks :: "u32 \<Rightarrow> task"
  contexts :: "u32 \<Rightarrow> task_context"
  procs :: "u32 \<Rightarrow> process"
  fd_tables :: "u32 \<Rightarrow> file_ref list"
  process_table :: "u32 list"
  task_table :: "u32 list"
  runnable_queue :: "u32 list"
  sleep_queue :: u32
  arp_table :: "arp_entry list"
  arp_tick :: u32

text \<open>The objects that \<^verbatim>\<open>kzalloc\<close> returns, and the zeroed globals.\<close>

definition task_context_zero :: task_context where
  "task_context_zero = \<lparr>c_a0 = 0, c_a1 = 0, c_a2 = 0, c_a3 = 0, c_a4 = 0, c_a5 = 0, c_a6 = 0, c_a7 = 0,
     c_a8 = 0, c_a9 = 0, c_a10 = 0, c_a11 = 0, c_a12 = 0, c_a13 = 0, c_a14 = 0, c_a15 = 0,
     c_sar = 0, c_pc = 0, c_ps = 0\<rparr>"

definition task_zero :: task where
  "task_zero = \<lparr>t_tid = 0, t_pid = 0, t_state = 0, t_priority = 0, t_cpu_affinity = 0, t_flags = 0,
     t_context = NULL, t_stack_base = NULL, t_stack_size = 0, t_stack_used = 0, t_next = NULL,
     t_prev = NULL, t_process = NULL, t_wake_time = 0, t_exit_code = 0, t_heap_allocated = 0,
     t_heap_freed = 0\<rparr>"

definition process_zero :: process where
  "process_zero = \<lparr>p_pid = 0, p_ppid = 0, p_uid = 0, p_gid = 0, p_name = [], p_main_task = NULL,
     p_tasks = NULL, p_task_count = 0, p_fd_table = NULL, p_fd_count = 0, p_fd_max = 0,
     p_heap_start = NULL, p_heap_end = NULL, p_heap_brk = NULL, p_heap_allocated = 0,
     p_heap_freed = 0, p_parent = NULL, p_children = NULL, p_sibling = NULL, p_exit_code = 0,
     p_exited = 0\<rparr>"

definition cpu_state_zero :: cpu_state where
  "cpu_state_zero = \<lparr>current_task = NULL, idle_task = NULL, task_list = NULL, task_count = 0,
     tick_count = 0, scheduler_lock = 0, nesting_level = 0\<rparr>"

definition kstate_boot :: kstate where
  "kstate_boot = \<lparr>psr = 0, cpu0 = cpu_state_zero, tasks = (\<lambda>_. task_zero),
     contexts = (\<lambda>_. task_context_zero), procs = (\<lambda>_. process_zero), fd_tables = (\<lambda>_. []),
     process_table = replicate MAX_PROCESSES NULL, task_table = replicate MAX_TASKS NULL,
     runnable_queue = replicate 32 NULL, sleep_queue = NULL, arp_table = arp_table_init,
     arp_tick = 0\<rparr>"


section \<open>Identifier allocation (\<^verbatim>\<open>kernel.c\<close>)\<close>

text \<open>The loops over \<open>1 \<le> i < n\<close>; 0 when no slot is free.\<close>

definition first_free :: "nat \<Rightarrow> u32 list \<Rightarrow> int" where
  "first_free n table =
     (case find (\<lambda>i. table ! i = NULL) [1..<n] of Some i \<Rightarrow> int i | None \<Rightarrow> 0)"

definition alloc_pid :: "'a kstate_scheme \<Rightarrow> int" where
  "alloc_pid s = first_free MAX_PROCESSES (process_table s)"

definition alloc_tid :: "'a kstate_scheme \<Rightarrow> int" where
  "alloc_tid s = first_free MAX_TASKS (task_table s)"

definition free_pid :: "int \<Rightarrow> 'a kstate_scheme \<Rightarrow> 'a kstate_scheme" where
  "free_pid pid s =
     (if 0 < pid \<and> pid < int MAX_PROCESSES
      then s\<lparr>process_table := (process_table s)[nat pid := NULL]\<rparr> else s)"

definition free_tid :: "int \<Rightarrow> 'a kstate_scheme \<Rightarrow> 'a kstate_scheme" where
  "free_tid tid s =
     (if 0 < tid \<and> tid < int MAX_TASKS
      then s\<lparr>task_table := (task_table s)[nat tid := NULL]\<rparr> else s)"

lemma find_upt_Some:
  "find P [m..<n] = Some i \<longleftrightarrow> m \<le> i \<and> i < n \<and> P i \<and> (\<forall>j. m \<le> j \<and> j < i \<longrightarrow> \<not> P j)"
proof (induction n)
  case (Suc n)
  have "find P (xs @ [y]) = (case find P xs of Some z \<Rightarrow> Some z | None \<Rightarrow> if P y then Some y else None)"
    for xs :: "nat list" and y by (induction xs) auto
  moreover have "find P [m..<n] = None \<longleftrightarrow> (\<forall>j. m \<le> j \<and> j < n \<longrightarrow> \<not> P j)"
    by (auto simp: find_None_iff)
  ultimately show ?case using Suc
    by (auto split: option.splits simp: less_Suc_eq le_Suc_eq)
qed simp

lemma first_free_spec:
  "(first_free n table = 0 \<and> (\<forall>i. 1 \<le> i \<and> i < n \<longrightarrow> table ! i \<noteq> NULL))
   \<or> (\<exists>i. first_free n table = int i \<and> 1 \<le> i \<and> i < n \<and> table ! i = NULL
        \<and> (\<forall>j. 1 \<le> j \<and> j < i \<longrightarrow> table ! j \<noteq> NULL))"
proof (cases "find (\<lambda>i. table ! i = NULL) [1..<n]")
  case None
  then have "first_free n table = 0" by (simp add: first_free_def)
  with None show ?thesis by (auto simp: find_None_iff)
next
  case (Some i)
  then have "first_free n table = int i" by (simp add: first_free_def)
  with Some show ?thesis by (auto simp: find_upt_Some)
qed

lemma first_free_range: "0 \<le> first_free n table \<and> first_free n table < max 1 (int n)"
  using first_free_spec [of n table] by auto

lemma first_free_pos:
  "first_free n table \<noteq> 0 \<Longrightarrow>
   1 \<le> nat (first_free n table) \<and> nat (first_free n table) < n \<and> table ! nat (first_free n table) = NULL"
  using first_free_spec [of n table] by auto

text \<open>a process identifier is the smallest free slot from 1, so it is never that of a live
  process, and 0 is returned exactly when all of 1 to 31 are taken.\<close>

theorem alloc_pid_smallest_free:
  "alloc_pid s = r \<longleftrightarrow>
     (r = 0 \<and> (\<forall>i\<in>{1..<MAX_PROCESSES}. process_table s ! i \<noteq> NULL))
   \<or> (\<exists>i\<in>{1..<MAX_PROCESSES}. r = int i \<and> process_table s ! i = NULL
        \<and> (\<forall>j\<in>{1..<i}. process_table s ! j \<noteq> NULL))"
  (is "_ \<longleftrightarrow> ?none \<or> ?some")
proof
  assume "alloc_pid s = r"
  then show "?none \<or> ?some"
    using first_free_spec [of MAX_PROCESSES "process_table s"] by (auto simp: alloc_pid_def)
next
  assume "?none \<or> ?some"
  then show "alloc_pid s = r"
  proof
    assume ?none
    then show ?thesis using first_free_spec [of MAX_PROCESSES "process_table s"]
      by (auto simp: alloc_pid_def)
  next
    assume ?some
    then obtain i where i: "1 \<le> i" "i < MAX_PROCESSES" "r = int i" "process_table s ! i = NULL"
      "\<forall>j. 1 \<le> j \<and> j < i \<longrightarrow> process_table s ! j \<noteq> NULL" by auto
    then have "find (\<lambda>i. process_table s ! i = NULL) [1..<MAX_PROCESSES] = Some i"
      by (simp add: find_upt_Some)
    then show ?thesis using i by (simp add: alloc_pid_def first_free_def)
  qed
qed

theorem alloc_pid_smallest_free_witness:
  "alloc_pid kstate_boot = 1
   \<and> alloc_pid (kstate_boot\<lparr>process_table := replicate MAX_PROCESSES 4\<rparr>) = 0"
  using alloc_pid_smallest_free [of kstate_boot 1]
    alloc_pid_smallest_free [of "kstate_boot\<lparr>process_table := replicate MAX_PROCESSES 4\<rparr>" 0]
  by (auto simp: kstate_boot_def)

end
