(* ===== verification/Scheduler.thy ===== *)
theory Scheduler
  imports Kstate "HOL-Library.Monad_Syntax"
begin

text \<open>
  \<^verbatim>\<open>src/kernel/scheduler/scheduler.c\<close>: the 32 runnable queues, the sleep queue, the timer
  tick and the switch to the next task.  The queues are doubly linked through the \<^verbatim>\<open>next\<close> and
  \<^verbatim>\<open>prev\<close> fields of the tasks; \<open>sched_rel\<close> relates them to abstract lists, and every operation
  is shown to refine a list operation.

  \<^verbatim>\<open>context_switch\<close> is assembly: the parameter \<open>sw prev next s\<close> is the state in which
  \<^verbatim>\<open>prev\<close> resumes, \<^term>\<open>None\<close> when it never does.
\<close>

section \<open>Operations\<close>

text \<open>The link fields \<^verbatim>\<open>p->next\<close> and \<^verbatim>\<open>p->prev\<close>.\<close>

definition tnext :: "'a kstate_scheme \<Rightarrow> u32 \<Rightarrow> u32" where
  "tnext s p = t_next (tasks s p)"

definition tprev :: "'a kstate_scheme \<Rightarrow> u32 \<Rightarrow> u32" where
  "tprev s p = t_prev (tasks s p)"

definition set_t_next :: "u32 \<Rightarrow> u32 \<Rightarrow> 'a kstate_scheme \<Rightarrow> 'a kstate_scheme" where
  "set_t_next p v s = s\<lparr>tasks := (tasks s)(p := (tasks s p)\<lparr>t_next := v\<rparr>)\<rparr>"

definition set_t_prev :: "u32 \<Rightarrow> u32 \<Rightarrow> 'a kstate_scheme \<Rightarrow> 'a kstate_scheme" where
  "set_t_prev p v s = s\<lparr>tasks := (tasks s)(p := (tasks s p)\<lparr>t_prev := v\<rparr>)\<rparr>"

definition set_t_state :: "u32 \<Rightarrow> u8 \<Rightarrow> 'a kstate_scheme \<Rightarrow> 'a kstate_scheme" where
  "set_t_state p v s = s\<lparr>tasks := (tasks s)(p := (tasks s p)\<lparr>t_state := v\<rparr>)\<rparr>"

definition set_t_wake_time :: "u32 \<Rightarrow> u32 \<Rightarrow> 'a kstate_scheme \<Rightarrow> 'a kstate_scheme" where
  "set_t_wake_time p v s = s\<lparr>tasks := (tasks s)(p := (tasks s p)\<lparr>t_wake_time := v\<rparr>)\<rparr>"

definition set_current :: "u32 \<Rightarrow> 'a kstate_scheme \<Rightarrow> 'a kstate_scheme" where
  "set_current p s = s\<lparr>cpu0 := (cpu0 s)\<lparr>current_task := p\<rparr>\<rparr>"

definition set_queue :: "nat \<Rightarrow> u32 \<Rightarrow> 'a kstate_scheme \<Rightarrow> 'a kstate_scheme" where
  "set_queue i p s = s\<lparr>runnable_queue := (runnable_queue s)[i := p]\<rparr>"

definition scheduler_init :: "'a kstate_scheme \<Rightarrow> 'a kstate_scheme" where
  "scheduler_init s = s\<lparr>runnable_queue := replicate 32 NULL, sleep_queue := NULL\<rparr>"

text \<open>\<^verbatim>\<open>int prio = task->priority; if (prio > PRIORITY_MAX) prio = PRIORITY_MAX;\<close>\<close>

definition queue_index :: "'a kstate_scheme \<Rightarrow> u32 \<Rightarrow> nat" where
  "queue_index s p =
     (let prio = unat (t_priority (tasks s p)) in if PRIORITY_MAX < prio then PRIORITY_MAX else prio)"

definition task_enqueue :: "u32 \<Rightarrow> 'a kstate_scheme \<Rightarrow> 'a kstate_scheme" where
  "task_enqueue p s =
     (let prio = queue_index s p;
          s = set_t_next p (runnable_queue s ! prio) s;
          s = set_t_prev p NULL s;
          s = (if runnable_queue s ! prio \<noteq> NULL then set_t_prev (runnable_queue s ! prio) p s else s);
          s = set_queue prio p s
      in set_t_state p TASK_STATE_RUNNABLE s)"

definition task_dequeue :: "u32 \<Rightarrow> 'a kstate_scheme \<Rightarrow> 'a kstate_scheme" where
  "task_dequeue p s =
     (let prio = queue_index s p;
          s = (if tprev s p \<noteq> NULL
               then set_t_next (tprev s p) (tnext s p) s
               else set_queue prio (tnext s p) s);
          s = (if tnext s p \<noteq> NULL
               then set_t_prev (tnext s p) (tprev s p) s else s)
      in set_t_next p NULL (set_t_prev p NULL s))"

text \<open>The loop of \<^verbatim>\<open>scheduler_pick_next\<close> from priority \<open>n - 1\<close> down to 0.\<close>

fun pick_from :: "nat \<Rightarrow> 'a kstate_scheme \<Rightarrow> u32 \<times> 'a kstate_scheme" where
  "pick_from 0 s = (NULL, s)"
| "pick_from (Suc prio) s =
     (if runnable_queue s ! prio \<noteq> NULL
      then (runnable_queue s ! prio, task_dequeue (runnable_queue s ! prio) s)
      else pick_from prio s)"

definition scheduler_pick_next :: "'a kstate_scheme \<Rightarrow> u32 \<times> 'a kstate_scheme" where
  "scheduler_pick_next s = pick_from (Suc PRIORITY_MAX) s"

definition schedule ::
  "(u32 \<Rightarrow> u32 \<Rightarrow> 'a kstate_scheme \<Rightarrow> 'a kstate_scheme option) \<Rightarrow>
     'a kstate_scheme \<Rightarrow> 'a kstate_scheme option" where
  "schedule sw s =
     (let prev = current_task (cpu0 s);
          (nx, s) = scheduler_pick_next s;
          nx = (if nx = NULL then idle_task (cpu0 s) else nx)
      in if nx = prev then Some s
         else let s = set_current nx s
              in if nx = NULL then None
                 else let s = set_t_state nx TASK_STATE_RUNNING s;
                          s = (if prev \<noteq> NULL \<and> t_state (tasks s prev) = TASK_STATE_RUNNING
                               then task_enqueue prev (set_t_state prev TASK_STATE_RUNNABLE s)
                               else s)
                      in sw prev nx s)"

definition task_yield ::
  "(u32 \<Rightarrow> u32 \<Rightarrow> 'a kstate_scheme \<Rightarrow> 'a kstate_scheme option) \<Rightarrow>
     'a kstate_scheme \<Rightarrow> 'a kstate_scheme option" where
  "task_yield sw s = schedule sw s"

text \<open>\<^verbatim>\<open>task_sleep\<close> up to its call of \<^verbatim>\<open>schedule\<close>.\<close>

definition sleep_link :: "u32 \<Rightarrow> u32 \<Rightarrow> 'a kstate_scheme \<Rightarrow> 'a kstate_scheme" where
  "sleep_link current ticks s =
     (let s = set_t_wake_time current (tick_count (cpu0 s) + ticks) s;
          s = set_t_state current TASK_STATE_SLEEPING s;
          s = set_t_next current (sleep_queue s) s;
          s = (if sleep_queue s \<noteq> NULL then set_t_prev (sleep_queue s) current s else s)
      in s\<lparr>sleep_queue := current\<rparr>)"

definition task_sleep ::
  "(u32 \<Rightarrow> u32 \<Rightarrow> 'a kstate_scheme \<Rightarrow> 'a kstate_scheme option) \<Rightarrow> u32 \<Rightarrow>
     'a kstate_scheme \<Rightarrow> 'a kstate_scheme option" where
  "task_sleep sw ticks s =
     (let current = current_task (cpu0 s)
      in if current = NULL then Some s else schedule sw (sleep_link current ticks s))"

text \<open>The three guarded assignments that take a task out of the sleep queue, in \<^verbatim>\<open>task_wake\<close>
  and in \<^verbatim>\<open>scheduler_tick\<close>.\<close>

definition sleep_unlink :: "u32 \<Rightarrow> 'a kstate_scheme \<Rightarrow> 'a kstate_scheme" where
  "sleep_unlink p s =
     (let s = unlink_node tnext tprev set_t_next set_t_prev p s
      in if sleep_queue s = p then s\<lparr>sleep_queue := tnext s p\<rparr> else s)"

definition task_wake :: "u32 \<Rightarrow> 'a kstate_scheme \<Rightarrow> 'a kstate_scheme" where
  "task_wake p s =
     (if t_state (tasks s p) = TASK_STATE_SLEEPING then task_enqueue p (sleep_unlink p s)
      else if t_state (tasks s p) = TASK_STATE_BLOCKED then task_enqueue p s
      else s)"

definition wake_expired :: "u32 \<Rightarrow> 'a kstate_scheme \<Rightarrow> 'a kstate_scheme" where
  "wake_expired t s = task_enqueue t (set_t_prev t NULL (set_t_next t NULL (sleep_unlink t s)))"

text \<open>The loop of \<^verbatim>\<open>scheduler_tick\<close> over the sleep queue.\<close>

partial_function (option) tick_loop :: "u32 \<Rightarrow> 'a kstate_scheme \<Rightarrow> 'a kstate_scheme option" where
  "tick_loop t s =
     (if t = NULL then Some s
      else tick_loop (tnext s t)
             (if t_wake_time (tasks s t) \<le> tick_count (cpu0 s) then wake_expired t s else s))"

definition net_tick :: "'a kstate_scheme \<Rightarrow> 'a kstate_scheme" where
  "net_tick s =
     (let (es, tick) = arp_age (arp_table s) (arp_tick s) in s\<lparr>arp_table := es, arp_tick := tick\<rparr>)"

definition scheduler_tick :: "'a kstate_scheme \<Rightarrow> 'a kstate_scheme option" where
  "scheduler_tick s =
     (let s = s\<lparr>cpu0 := (cpu0 s)\<lparr>tick_count := tick_count (cpu0 s) + 1\<rparr>\<rparr>
      in map_option net_tick (tick_loop (sleep_queue s) s))"


section \<open>The task store as a linked store\<close>

lemmas task_set_defs = set_t_next_def set_t_prev_def set_t_state_def set_t_wake_time_def
  set_current_def set_queue_def

interpretation tq: linked_store tnext tprev
  set_t_next set_t_prev "(\<noteq>)"
  by unfold_locales (auto simp: tnext_def tprev_def task_set_defs)

lemma pairwise_neq [simp]: "pairwise (\<noteq>) A"
  by (simp add: pairwise_def)

text \<open>The fields that the setters change and those they keep.\<close>

lemma tasks_setters [simp]:
  "tasks (set_t_next p v s) = (tasks s)(p := (tasks s p)\<lparr>t_next := v\<rparr>)"
  "tasks (set_t_prev p v s) = (tasks s)(p := (tasks s p)\<lparr>t_prev := v\<rparr>)"
  "tasks (set_t_state p st s) = (tasks s)(p := (tasks s p)\<lparr>t_state := st\<rparr>)"
  "tasks (set_t_wake_time p v s) = (tasks s)(p := (tasks s p)\<lparr>t_wake_time := v\<rparr>)"
  "tasks (set_current p s) = tasks s"
  "tasks (set_queue i p s) = tasks s"
  by (simp_all add: task_set_defs)

lemma link_setters [simp]:
  "tnext (set_t_prev p v s) = tnext s" "tprev (set_t_next p v s) = tprev s"
  "tnext (set_t_state p st s) = tnext s" "tprev (set_t_state p st s) = tprev s"
  "tnext (set_t_wake_time p v s) = tnext s" "tprev (set_t_wake_time p v s) = tprev s"
  "tnext (set_current p s) = tnext s" "tprev (set_current p s) = tprev s"
  "tnext (set_queue i p s) = tnext s" "tprev (set_queue i p s) = tprev s"
  "tnext (s\<lparr>sleep_queue := q\<rparr>) = tnext s" "tprev (s\<lparr>sleep_queue := q\<rparr>) = tprev s"
  "tnext (s\<lparr>cpu0 := c\<rparr>) = tnext s" "tprev (s\<lparr>cpu0 := c\<rparr>) = tprev s"
  "tnext (set_t_next p v s) = (tnext s)(p := v)" "tprev (set_t_prev p v s) = (tprev s)(p := v)"
  by (auto simp: tnext_def tprev_def fun_eq_iff)

lemma runnable_queue_setters [simp]:
  "runnable_queue (set_t_next p v s) = runnable_queue s"
  "runnable_queue (set_t_prev p v s) = runnable_queue s"
  "runnable_queue (set_t_state p st s) = runnable_queue s"
  "runnable_queue (set_t_wake_time p v s) = runnable_queue s"
  "runnable_queue (set_current p s) = runnable_queue s"
  "runnable_queue (set_queue i p s) = (runnable_queue s)[i := p]"
  by (simp_all add: task_set_defs)

lemma sleep_queue_setters [simp]:
  "sleep_queue (set_t_next p v s) = sleep_queue s"
  "sleep_queue (set_t_prev p v s) = sleep_queue s"
  "sleep_queue (set_t_state p st s) = sleep_queue s"
  "sleep_queue (set_t_wake_time p v s) = sleep_queue s"
  "sleep_queue (set_current p s) = sleep_queue s"
  "sleep_queue (set_queue i p s) = sleep_queue s"
  by (simp_all add: task_set_defs)

lemma cpu0_setters [simp]:
  "cpu0 (set_t_next p v s) = cpu0 s"
  "cpu0 (set_t_prev p v s) = cpu0 s"
  "cpu0 (set_t_state p st s) = cpu0 s"
  "cpu0 (set_t_wake_time p v s) = cpu0 s"
  "cpu0 (set_current p s) = (cpu0 s)\<lparr>current_task := p\<rparr>"
  "cpu0 (set_queue i p s) = cpu0 s"
  by (simp_all add: task_set_defs)

lemma queue_index_setters [simp]:
  "queue_index (set_t_next p v s) = queue_index s"
  "queue_index (set_t_prev p v s) = queue_index s"
  "queue_index (set_t_state p st s) = queue_index s"
  "queue_index (set_t_wake_time p v s) = queue_index s"
  "queue_index (set_current p s) = queue_index s"
  "queue_index (set_queue i p s) = queue_index s"
  "queue_index (s\<lparr>sleep_queue := q\<rparr>) = queue_index s"
  "queue_index (s\<lparr>cpu0 := c\<rparr>) = queue_index s"
  by (auto simp: queue_index_def fun_eq_iff)

lemma queue_index_less [simp]: "queue_index s p < 32"
  by (simp add: queue_index_def Let_def)

section \<open>The queues as lists\<close>

abbreviation tdll :: "'a kstate_scheme \<Rightarrow> u32 \<Rightarrow> u32 list \<Rightarrow> bool" where
  "tdll s h xs \<equiv> dll (tnext s) (tprev s) NULL h xs"

text \<open>\<open>sched_rel rq sq s\<close>: the runnable queue of priority \<open>i\<close> is the list \<open>rq i\<close>, in link order, and
  the sleep queue is \<open>sq\<close>; a queued task has the priority of its queue and the state of it.\<close>

definition sched_rel :: "(nat \<Rightarrow> u32 list) \<Rightarrow> u32 list \<Rightarrow> 'a kstate_scheme \<Rightarrow> bool" where
  "sched_rel rq sq s \<longleftrightarrow>
     length (runnable_queue s) = 32
   \<and> (\<forall>i<32. tdll s (runnable_queue s ! i) (rq i))
   \<and> tdll s (sleep_queue s) sq
   \<and> (\<forall>i<32. \<forall>p\<in>set (rq i). queue_index s p = i \<and> t_state (tasks s p) = TASK_STATE_RUNNABLE)
   \<and> (\<forall>p\<in>set sq. t_state (tasks s p) = TASK_STATE_SLEEPING)"

text \<open>A task in no queue.\<close>

definition unqueued :: "(nat \<Rightarrow> u32 list) \<Rightarrow> u32 list \<Rightarrow> u32 \<Rightarrow> bool" where
  "unqueued rq sq p \<longleftrightarrow> (\<forall>i<32. p \<notin> set (rq i)) \<and> p \<notin> set sq"

lemma sched_relD:
  assumes "sched_rel rq sq s"
  shows "length (runnable_queue s) = 32"
    and "i < 32 \<Longrightarrow> tdll s (runnable_queue s ! i) (rq i)"
    and "tdll s (sleep_queue s) sq"
    and "i < 32 \<Longrightarrow> p \<in> set (rq i) \<Longrightarrow> queue_index s p = i"
    and "i < 32 \<Longrightarrow> p \<in> set (rq i) \<Longrightarrow> t_state (tasks s p) = TASK_STATE_RUNNABLE"
    and "p \<in> set sq \<Longrightarrow> t_state (tasks s p) = TASK_STATE_SLEEPING"
    and "i < 32 \<Longrightarrow> p \<in> set (rq i) \<Longrightarrow> p \<noteq> NULL"
    and "p \<in> set sq \<Longrightarrow> p \<noteq> NULL"
  using assms by (auto simp: sched_rel_def dest: dll_nonnull)

lemma sched_rel_unqueued:
  assumes "sched_rel rq sq s" and "t_state (tasks s p) \<notin> {TASK_STATE_RUNNABLE, TASK_STATE_SLEEPING}"
  shows "unqueued rq sq p"
  using assms by (auto simp: unqueued_def sched_rel_def)

text \<open>Lists of different queues share no task.\<close>

lemma sched_rel_disjoint:
  assumes "sched_rel rq sq s" "i < 32" "p \<in> set (rq i)"
  shows "j < 32 \<Longrightarrow> j \<noteq> i \<Longrightarrow> p \<notin> set (rq j)" and "p \<notin> set sq"
proof -
  show "p \<notin> set (rq j)" if "j < 32" "j \<noteq> i"
    using sched_relD(4) [OF assms] sched_relD(4) [OF assms(1), of j p] that by blast
  show "p \<notin> set sq"
    using sched_relD(5) [OF assms] sched_relD(6) [OF assms(1), of p] by auto
qed

lemma sched_rel_init: "sched_rel (\<lambda>_. []) [] (scheduler_init s)"
  by (simp add: sched_rel_def scheduler_init_def)

text \<open>The relation reads the task store and the queue heads only.\<close>

lemma sched_rel_cong:
  assumes "tasks s = tasks s'" "runnable_queue s = runnable_queue s'" "sleep_queue s = sleep_queue s'"
  shows "sched_rel rq sq s = sched_rel rq sq s'"
proof -
  have "tnext s = tnext s'" "tprev s = tprev s'" "queue_index s = queue_index s'"
    using assms(1) by (simp_all add: fun_eq_iff tnext_def tprev_def queue_index_def)
  then show ?thesis using assms by (simp add: sched_rel_def)
qed

text \<open>State and wake time of a task in no queue, the tick counter and the current task are not part
  of the relation.\<close>

lemma sched_rel_set_state:
  "sched_rel rq sq s \<Longrightarrow> unqueued rq sq p \<Longrightarrow> sched_rel rq sq (set_t_state p st s)"
  by (auto simp: sched_rel_def unqueued_def)

lemma sched_rel_cong_cpu [simp]:
  "sched_rel rq sq (s\<lparr>cpu0 := c\<rparr>) = sched_rel rq sq s"
  "sched_rel rq sq (set_current p s) = sched_rel rq sq s"
  by (simp_all add: sched_rel_def set_current_def)

lemma dll_fun_upd [simp]:
  "p \<notin> set xs \<Longrightarrow> dll (nx(p := v)) pv pr h xs = dll nx pv pr h xs"
  "p \<notin> set xs \<Longrightarrow> dll nx (pv(p := v)) pr h xs = dll nx pv pr h xs"
  by (rule dll_cong; auto)+



section \<open>Enqueue and dequeue\<close>

lemma enqueue_rel:
  assumes rel: "sched_rel rq sq s" and p: "p \<noteq> NULL" "unqueued rq sq p"
  shows "sched_rel (rq(queue_index s p := p # rq (queue_index s p))) sq (task_enqueue p s)"
proof -
  let ?i = "queue_index s p" and ?h = "runnable_queue s ! queue_index s p"
  let ?s1 = "set_t_prev p NULL (set_t_next p ?h s)"
  let ?s2 = "if ?h \<noteq> NULL then set_t_prev ?h p ?s1 else ?s1"
  note R = sched_relD [OF rel]
  have np: "p \<notin> set (rq j)" if "j < 32" for j using p(2) that by (simp add: unqueued_def)
  have nq: "p \<notin> set sq" using p(2) by (simp add: unqueued_def)
  define s2 where "s2 = ?s2"
  have chain: "dll (tnext s2) (tprev s2) NULL p (p # rq ?i)" unfolding s2_def
    using R(2) [of ?i] p(1) np [of ?i] by (intro tq.push_front) auto
  have hin: "?h \<in> set (rq ?i)" if "?h \<noteq> NULL"
    using R(2) [of ?i] that by (cases "rq ?i") auto
  have other: "tdll s2 h xs"
    if "tdll s h xs" "p \<notin> set xs" "?h \<noteq> NULL \<Longrightarrow> ?h \<notin> set xs" for h xs
    using that by (cases "?h = NULL") (simp_all add: s2_def)
  have s2: "runnable_queue s2 = runnable_queue s" "sleep_queue s2 = sleep_queue s"
      "queue_index s2 = queue_index s" "t_state (tasks s2 q) = t_state (tasks s q)" for q
    by (simp_all add: s2_def)
  have enq: "task_enqueue p s = set_t_state p TASK_STATE_RUNNABLE (set_queue ?i p s2)"
    by (simp add: task_enqueue_def Let_def s2_def)
  have st: "t_state (tasks (task_enqueue p s) q)
      = (if q = p then TASK_STATE_RUNNABLE else t_state (tasks s q))" for q
    by (auto simp: enq s2)
  have qi: "queue_index (task_enqueue p s) = queue_index s" by (simp add: enq s2)
  show ?thesis
    unfolding sched_rel_def
  proof (intro conjI allI impI ballI)
    fix j :: nat assume j: "j < 32"
    show "tdll (task_enqueue p s) (runnable_queue (task_enqueue p s) ! j)
            ((rq(?i := p # rq ?i)) j)"
    proof (cases "j = ?i")
      case True
      then show ?thesis using chain R(1) by (simp add: enq s2)
    next
      case False
      then have "?h \<noteq> NULL \<Longrightarrow> ?h \<notin> set (rq j)"
        using sched_rel_disjoint(1) [OF rel _ hin] j by simp
      then show ?thesis using other [OF R(2) np] j False by (simp add: enq s2)
    qed
  next
    have "?h \<noteq> NULL \<Longrightarrow> ?h \<notin> set sq"
      using sched_rel_disjoint(2) [OF rel _ hin] by simp
    then show "tdll (task_enqueue p s) (sleep_queue (task_enqueue p s)) sq"
      using other [OF R(3) nq] by (simp add: enq s2)
  next
    fix j q assume j: "j < 32" and "q \<in> set ((rq(?i := p # rq ?i)) j)"
    then have q: "q = p \<and> j = ?i \<or> q \<in> set (rq j)" by (auto split: if_splits)
    show "queue_index (task_enqueue p s) q = j" using q R(4) [OF j, of q] by (auto simp: qi)
    show "t_state (tasks (task_enqueue p s) q) = TASK_STATE_RUNNABLE"
      using q R(5) [OF j, of q] by (auto simp: st)
  next
    fix q assume "q \<in> set sq"
    then show "t_state (tasks (task_enqueue p s) q) = TASK_STATE_SLEEPING"
      using R(6) [of q] nq by (auto simp: st)
  next
    show "length (runnable_queue (task_enqueue p s)) = 32" using R(1) by (simp add: enq s2)
  qed
qed

text \<open>Without the guard on \<^verbatim>\<open>prev\<close>, which chooses between the predecessor and the queue head.\<close>

lemma task_dequeue_unlink:
  "task_dequeue p s =
     set_t_next p NULL (set_t_prev p NULL
       (unlink_node tnext tprev set_t_next set_t_prev p
         (if tprev s p \<noteq> NULL then s else set_queue (queue_index s p) (tnext s p) s)))"
  by (simp add: task_dequeue_def unlink_node_def Let_def)

lemma unlink_frame [simp]:
  "runnable_queue (unlink_node tnext tprev set_t_next set_t_prev p s) = runnable_queue s"
  "sleep_queue (unlink_node tnext tprev set_t_next set_t_prev p s) = sleep_queue s"
  "cpu0 (unlink_node tnext tprev set_t_next set_t_prev p s) = cpu0 s"
  "queue_index (unlink_node tnext tprev set_t_next set_t_prev p s) = queue_index s"
  "t_state (tasks (unlink_node tnext tprev set_t_next set_t_prev p s) q) = t_state (tasks s q)"
  "t_wake_time (tasks (unlink_node tnext tprev set_t_next set_t_prev p s) q) = t_wake_time (tasks s q)"
  by (auto simp: unlink_node_def Let_def)

text \<open>Unlinking leaves every other chain alone.\<close>

lemma unlink_other:
  assumes chain: "tdll s h (as @ p # bs)" and other: "tdll s h' xs" "set (as @ p # bs) \<inter> set xs = {}"
  defines "s' \<equiv> unlink_node tnext tprev set_t_next set_t_prev p s"
  shows "dll (tnext s') (tprev s') NULL h' xs"
proof -
  have p: "tprev s p \<noteq> NULL \<Longrightarrow> tprev s p \<in> set as" "tnext s p \<noteq> NULL \<Longrightarrow> tnext s p \<in> set bs"
    using chain by (cases as rule: rev_cases; cases bs; auto simp: dll_append dseg_append)+
  have "tprev s p \<noteq> NULL \<Longrightarrow> tprev s p \<notin> set xs" "tnext s p \<noteq> NULL \<Longrightarrow> tnext s p \<notin> set xs"
    using p other(2) by auto
  then show ?thesis
    using other(1) by (simp add: s'_def unlink_node_def Let_def)
qed

lemma dequeue_rel:
  assumes rel: "sched_rel rq sq s" and i: "i < 32" and split: "rq i = as @ p # bs"
  shows "sched_rel (rq(i := as @ bs)) sq (task_dequeue p s)"
    and "tnext (task_dequeue p s) p = NULL" and "tprev (task_dequeue p s) p = NULL"
    and "t_state (tasks (task_dequeue p s) q) = t_state (tasks s q)"
    and "queue_index (task_dequeue p s) = queue_index s"
    and "cpu0 (task_dequeue p s) = cpu0 s"
proof -
  let ?s1 = "if tprev s p \<noteq> NULL then s else set_queue (queue_index s p) (tnext s p) s"
  let ?s2 = "unlink_node tnext tprev set_t_next set_t_prev p ?s1"
  note R = sched_relD [OF rel]
  have qi: "queue_index s p = i" using R(4) [OF i, of p] split by simp
  have links: "tnext ?s1 = tnext s" "tprev ?s1 = tprev s" by auto
  have ci: "tdll s (runnable_queue s ! i) (as @ p # bs)" using R(2) [OF i] split by simp
  have prev0: "tprev s p = NULL \<longleftrightarrow> as = []"
    using ci dll_nonnull [OF ci] by (cases as rule: rev_cases) (auto simp: dll_append dseg_append)
  have "tdll ?s1 (runnable_queue s ! i) (as @ p # bs)" using ci by (simp only: links)
  note U = tq.unlink_chain(1) [OF this pairwise_neq]
  have dist: "distinct (as @ p # bs)" using ci by (rule dll_distinct)
  have deq: "task_dequeue p s = set_t_next p NULL (set_t_prev p NULL ?s2)"
    by (rule task_dequeue_unlink)
  have other: "tdll (task_dequeue p s) h xs"
    if "tdll s h xs" "set (as @ p # bs) \<inter> set xs = {}" for h xs
    using unlink_other [of ?s1 _ as p bs h xs] ci that by (simp add: deq links)
  show tn: "tnext (task_dequeue p s) p = NULL" and "tprev (task_dequeue p s) p = NULL"
    by (simp_all add: deq)
  show st: "t_state (tasks (task_dequeue p s) q) = t_state (tasks s q)" for q
    by (simp add: deq)
  show qx: "queue_index (task_dequeue p s) = queue_index s" by (simp add: deq)
  show "cpu0 (task_dequeue p s) = cpu0 s" by (simp add: deq)
  show "sched_rel (rq(i := as @ bs)) sq (task_dequeue p s)"
    unfolding sched_rel_def
  proof (intro conjI allI impI ballI)
    fix j :: nat assume j: "j < 32"
    show "tdll (task_dequeue p s) (runnable_queue (task_dequeue p s) ! j) ((rq(i := as @ bs)) j)"
    proof (cases "j = i")
      case True
      then show ?thesis using U dist R(1) i by (cases "as = []") (auto simp: deq qi prev0 links)
    next
      case False
      have "set (as @ p # bs) \<inter> set (rq j) = {}"
        using sched_rel_disjoint(1) [OF rel i _ j False] split by auto
      then show ?thesis using other R(2) [OF j] False by (simp add: deq qi)
    qed
  next
    have "set (as @ p # bs) \<inter> set sq = {}"
      using sched_rel_disjoint(2) [OF rel i] split by auto
    then show "tdll (task_dequeue p s) (sleep_queue (task_dequeue p s)) sq"
      using other R(3) by (simp add: deq)
  next
    show "length (runnable_queue (task_dequeue p s)) = 32" using R(1) by (simp add: deq)
  next
    fix j q assume j: "j < 32" and "q \<in> set ((rq(i := as @ bs)) j)"
    then have q: "q \<in> set (rq j)" using split by (auto split: if_splits)
    show "queue_index (task_dequeue p s) q = j" using R(4) [OF j q] by (simp add: qx)
    show "t_state (tasks (task_dequeue p s) q) = TASK_STATE_RUNNABLE"
      using R(5) [OF j q] by (simp add: st)
  next
    fix q assume "q \<in> set sq"
    then show "t_state (tasks (task_dequeue p s) q) = TASK_STATE_SLEEPING"
      using R(6) by (simp add: st)
  qed
qed

lemma enqueue_frame [simp]:
  "cpu0 (task_enqueue p s) = cpu0 s"
  "queue_index (task_enqueue p s) = queue_index s"
  "sleep_queue (task_enqueue p s) = sleep_queue s"
  "t_wake_time (tasks (task_enqueue p s) q) = t_wake_time (tasks s q)"
  "t_state (tasks (task_enqueue p s) q) = (if q = p then TASK_STATE_RUNNABLE else t_state (tasks s q))"
  by (auto simp: task_enqueue_def Let_def)


section \<open>Choosing the next task\<close>

text \<open>The highest non-empty queue.\<close>

definition top_queue :: "(nat \<Rightarrow> u32 list) \<Rightarrow> nat option" where
  "top_queue rq = find (\<lambda>i. rq i \<noteq> []) (rev [0..<32])"

lemma pick_from_rel:
  assumes rel: "sched_rel rq sq s" and "n \<le> 32"
  shows "pick_from n s = (case find (\<lambda>i. rq i \<noteq> []) (rev [0..<n]) of
           None \<Rightarrow> (NULL, s) | Some i \<Rightarrow> (hd (rq i), task_dequeue (hd (rq i)) s))"
  using assms(2)
proof (induction n)
  case (Suc n)
  have "tdll s (runnable_queue s ! n) (rq n)" using sched_relD(2) [OF rel] Suc.prems by simp
  then show ?case using Suc by (cases "rq n") auto
qed simp

lemma find_rev_upt:
  "find P (rev [0..<n]) = Some i \<longleftrightarrow> i < n \<and> P i \<and> (\<forall>j. i < j \<and> j < n \<longrightarrow> \<not> P j)"
  by (induction n) (auto simp: less_Suc_eq)

lemma top_queue_Some:
  "top_queue rq = Some i \<longleftrightarrow> i < 32 \<and> rq i \<noteq> [] \<and> (\<forall>j. i < j \<and> j < 32 \<longrightarrow> rq j = [])"
  by (simp add: top_queue_def find_rev_upt)

lemma top_queue_None: "top_queue rq = None \<longleftrightarrow> (\<forall>i<32. rq i = [])"
  by (auto simp: top_queue_def find_None_iff)

lemma pick_next_rel:
  assumes rel: "sched_rel rq sq s"
  shows "top_queue rq = None \<Longrightarrow> scheduler_pick_next s = (NULL, s)"
    and "top_queue rq = Some i \<Longrightarrow>
         scheduler_pick_next s = (hd (rq i), task_dequeue (hd (rq i)) s)
       \<and> hd (rq i) \<noteq> NULL
       \<and> sched_rel (rq(i := tl (rq i))) sq (task_dequeue (hd (rq i)) s)
       \<and> unqueued (rq(i := tl (rq i))) sq (hd (rq i))"
proof -
  have pick: "scheduler_pick_next s = (case top_queue rq of
           None \<Rightarrow> (NULL, s) | Some i \<Rightarrow> (hd (rq i), task_dequeue (hd (rq i)) s))"
    using pick_from_rel [OF rel, of 32] by (simp add: scheduler_pick_next_def top_queue_def)
  show "scheduler_pick_next s = (NULL, s)" if "top_queue rq = None" using pick that by simp
  assume top: "top_queue rq = Some i"
  then have i: "i < 32" "rq i = [] @ hd (rq i) # tl (rq i)" by (auto simp: top_queue_Some)
  have nth: "hd (rq i) \<in> set (rq i)" using i(2) by (metis append_Nil list.set_intros(1))
  have "distinct (rq i)" using sched_relD(2) [OF rel i(1)] by (rule dll_distinct)
  then have "hd (rq i) \<notin> set (tl (rq i))" using i(2) by (metis append_Nil distinct.simps(2))
  then have "unqueued (rq(i := tl (rq i))) sq (hd (rq i))"
    using sched_rel_disjoint [OF rel i(1) nth] by (auto simp: unqueued_def)
  then show "scheduler_pick_next s = (hd (rq i), task_dequeue (hd (rq i)) s)
       \<and> hd (rq i) \<noteq> NULL
       \<and> sched_rel (rq(i := tl (rq i))) sq (task_dequeue (hd (rq i)) s)
       \<and> unqueued (rq(i := tl (rq i))) sq (hd (rq i))"
    using pick top dequeue_rel(1) [OF rel i] sched_relD(7) [OF rel i(1) nth] by simp
qed

text \<open>the scheduler takes the most recently queued task of the highest non-empty priority; the
  chosen task leaves its queue, the other queues and the sleep queue stay as they are, and
  nothing is chosen exactly when all 32 queues are empty.\<close>

theorem pick_next_highest:
  assumes "sched_rel rq sq s"
  shows "case scheduler_pick_next s of (p, s') \<Rightarrow>
     (if \<forall>i<32. rq i = [] then p = NULL \<and> s' = s
      else \<exists>i<32. (\<forall>j. i < j \<and> j < 32 \<longrightarrow> rq j = []) \<and> rq i \<noteq> [] \<and> p = hd (rq i) \<and> p \<noteq> NULL
             \<and> sched_rel (rq(i := tl (rq i))) sq s')"
proof (cases "top_queue rq")
  case None
  then show ?thesis using pick_next_rel(1) [OF assms] by (simp add: top_queue_None)
next
  case (Some i)
  then show ?thesis
    using pick_next_rel(2) [OF assms Some] top_queue_Some [of rq i]
    by (intro case_prodI2) auto
qed


section \<open>Switching\<close>

text \<open>The list view of \<^verbatim>\<open>schedule\<close>: the next task and the queues without it.\<close>

definition abs_next :: "(nat \<Rightarrow> u32 list) \<Rightarrow> u32 \<Rightarrow> u32 \<times> (nat \<Rightarrow> u32 list)" where
  "abs_next rq idle =
     (case top_queue rq of Some i \<Rightarrow> (hd (rq i), rq(i := tl (rq i))) | None \<Rightarrow> (idle, rq))"

text \<open>The queues after the outgoing task \<open>c\<close> has been put back in front of its own.\<close>

definition abs_push :: "(u32 \<Rightarrow> nat) \<Rightarrow> u32 \<Rightarrow> (nat \<Rightarrow> u32 list) \<Rightarrow> (nat \<Rightarrow> u32 list)" where
  "abs_push qi c rq = rq(qi c := c # rq (qi c))"

lemma enqueue_push:
  "sched_rel rq sq s \<Longrightarrow> p \<noteq> NULL \<Longrightarrow> unqueued rq sq p \<Longrightarrow>
   sched_rel (abs_push (queue_index s) p rq) sq (task_enqueue p s)"
  unfolding abs_push_def by (rule enqueue_rel)

text \<open>The state that \<^verbatim>\<open>schedule\<close> hands to \<^verbatim>\<open>context_switch\<close>.\<close>

definition switch_state :: "u32 \<Rightarrow> u32 \<Rightarrow> 'a kstate_scheme \<Rightarrow> 'a kstate_scheme" where
  "switch_state prev nx s =
     (let s = set_t_state nx TASK_STATE_RUNNING (set_current nx s)
      in if prev \<noteq> NULL \<and> t_state (tasks s prev) = TASK_STATE_RUNNING
         then task_enqueue prev (set_t_state prev TASK_STATE_RUNNABLE s) else s)"

lemma schedule_cases:
  assumes "scheduler_pick_next s = (p, s1)"
  shows "schedule sw s =
     (let nx = (if p = NULL then idle_task (cpu0 s1) else p)
      in if nx = current_task (cpu0 s) then Some s1
         else if nx = NULL then None
         else sw (current_task (cpu0 s)) nx (switch_state (current_task (cpu0 s)) nx s1))"
  using assms by (simp add: schedule_def switch_state_def Let_def)

text \<open>The outgoing task goes back to its queue when it was still running.\<close>

definition abs_requeue :: "'a kstate_scheme \<Rightarrow> u32 \<Rightarrow> (nat \<Rightarrow> u32 list) \<Rightarrow> (nat \<Rightarrow> u32 list)" where
  "abs_requeue s prev rq =
     (if prev \<noteq> NULL \<and> t_state (tasks s prev) = TASK_STATE_RUNNING
      then abs_push (queue_index s) prev rq else rq)"

lemma switch_state_rel:
  assumes rel: "sched_rel rq sq s" and nx: "unqueued rq sq nx" "prev \<noteq> nx"
  shows "sched_rel (abs_requeue s prev rq) sq (switch_state prev nx s)"
    and "current_task (cpu0 (switch_state prev nx s)) = nx"
    and "t_state (tasks (switch_state prev nx s) nx) = TASK_STATE_RUNNING"
    and "t_state (tasks (switch_state prev nx s) prev) =
           (if prev \<noteq> NULL \<and> t_state (tasks s prev) = TASK_STATE_RUNNING
            then TASK_STATE_RUNNABLE else t_state (tasks s prev))"
    and "queue_index (switch_state prev nx s) = queue_index s"
    and "tick_count (cpu0 (switch_state prev nx s)) = tick_count (cpu0 s)"
    and "idle_task (cpu0 (switch_state prev nx s)) = idle_task (cpu0 s)"
proof -
  let ?s = "set_t_state nx TASK_STATE_RUNNING (set_current nx s)"
  have rel1: "sched_rel rq sq ?s" using rel nx by (intro sched_rel_set_state) simp_all
  show "sched_rel (abs_requeue s prev rq) sq (switch_state prev nx s)"
  proof (cases "prev \<noteq> NULL \<and> t_state (tasks s prev) = TASK_STATE_RUNNING")
    case True
    then have uq: "unqueued rq sq prev" using sched_rel_unqueued [OF rel, of prev] by simp
    have "sched_rel rq sq (set_t_state prev TASK_STATE_RUNNABLE ?s)"
      using rel1 uq by (rule sched_rel_set_state)
    from enqueue_push [OF this _ uq] True nx show ?thesis
      by (simp add: switch_state_def abs_requeue_def Let_def)
  next
    case False
    then have "switch_state prev nx s = ?s" using nx by (auto simp: switch_state_def)
    with False rel1 show ?thesis by (auto simp: abs_requeue_def)
  qed
qed (use nx in \<open>auto simp: switch_state_def Let_def\<close>)

lemma requeue_dequeue:
  "sched_rel rq sq s \<Longrightarrow> i < 32 \<Longrightarrow> rq i = as @ p # bs \<Longrightarrow>
   abs_requeue (task_dequeue p s) c = abs_requeue s c"
  by (simp add: abs_requeue_def fun_eq_iff dequeue_rel(4,5))

lemma schedule_switch:
  assumes rel: "sched_rel rq sq s" and idle: "idle_task (cpu0 s) \<notin> set sq"
    and nx: "abs_next rq (idle_task (cpu0 s)) = (nx, rq1)" "nx \<noteq> NULL" "nx \<noteq> current_task (cpu0 s)"
  defines "c \<equiv> current_task (cpu0 s)"
  obtains s' where "schedule sw s = sw c nx s'"
    "sched_rel (abs_requeue s c rq1) sq s'"
    "current_task (cpu0 s') = nx" "t_state (tasks s' nx) = TASK_STATE_RUNNING"
    "t_state (tasks s' c) = (if c \<noteq> NULL \<and> t_state (tasks s c) = TASK_STATE_RUNNING
       then TASK_STATE_RUNNABLE else t_state (tasks s c))"
    "queue_index s' = queue_index s" "tick_count (cpu0 s') = tick_count (cpu0 s)"
    "idle_task (cpu0 s') = idle_task (cpu0 s)"
proof (cases "top_queue rq")
  case None
  then have q: "nx = idle_task (cpu0 s)" "rq1 = rq" using nx(1) by (simp_all add: abs_next_def)
  have "unqueued rq sq nx" using None idle q by (simp add: unqueued_def top_queue_None)
  note S = switch_state_rel [OF rel this nx(3) [symmetric]]
  have "schedule sw s = sw c nx (switch_state c nx s)"
    using schedule_cases [OF pick_next_rel(1) [OF rel None]] nx q by (simp add: c_def Let_def)
  then show ?thesis
    by (rule that) (use S q(2) in \<open>simp_all add: c_def\<close>)
next
  case (Some i)
  then have q: "nx = hd (rq i)" "rq1 = rq(i := tl (rq i))" using nx(1) by (simp_all add: abs_next_def)
  have i: "i < 32" "rq i = [] @ nx # tl (rq i)" using Some q by (auto simp: top_queue_Some)
  note P = pick_next_rel(2) [OF rel Some] and D = dequeue_rel [OF rel i]
  have "unqueued rq1 sq nx" and r1: "sched_rel rq1 sq (task_dequeue nx s)" using P q by auto
  note S = switch_state_rel [OF r1 this(1) nx(3) [symmetric]]
  have "schedule sw s = sw c nx (switch_state c nx (task_dequeue nx s))"
    using schedule_cases [of s nx "task_dequeue nx s"] P q nx by (simp add: c_def Let_def)
  then show ?thesis
    by (rule that) (use S D requeue_dequeue [OF rel i] in \<open>simp_all add: c_def\<close>)
qed

text \<open>C1: \<^verbatim>\<open>schedule\<close> refines its list specification.  With \<open>nx\<close> the head of the highest non-empty
  queue (the idle task when all are empty): it returns at once when \<open>nx\<close> already runs, it faults
  when there is neither a runnable task nor an idle task, and otherwise it switches to \<open>nx\<close> in a
  state where \<open>nx\<close> is the current task and marked running, the old task is at the front of its
  queue if it was still running, and the queues are well formed.\<close>

theorem schedule_refines:
  assumes "sched_rel rq sq s" and "idle_task (cpu0 s) \<notin> set sq"
    and "current_task (cpu0 s) = c" and "abs_next rq (idle_task (cpu0 s)) = (nx, rq1)"
  shows "if nx = c then \<exists>s'. schedule sw s = Some s' \<and> sched_rel rq1 sq s'
         else if nx = NULL then schedule sw s = None
         else \<exists>s'. schedule sw s = sw c nx s' \<and> sched_rel (abs_requeue s c rq1) sq s'
                \<and> current_task (cpu0 s') = nx \<and> t_state (tasks s' nx) = TASK_STATE_RUNNING"
proof (cases "nx \<noteq> c \<and> nx \<noteq> NULL")
  case True
  then obtain s' where "schedule sw s = sw c nx s'" "sched_rel (abs_requeue s c rq1) sq s'"
    "current_task (cpu0 s') = nx" "t_state (tasks s' nx) = TASK_STATE_RUNNING"
    using schedule_switch [OF assms(1,2,4)] assms(3) by metis
  with True show ?thesis by auto
next
  case False
  show ?thesis
  proof (cases "top_queue rq")
    case None
    then show ?thesis
      using False assms schedule_cases [OF pick_next_rel(1) [OF assms(1) None], of sw]
      by (auto simp: abs_next_def Let_def)
  next
    case (Some i)
    then have q: "nx = hd (rq i)" "rq1 = rq(i := tl (rq i))"
      using assms(4) by (simp_all add: abs_next_def)
    note P = pick_next_rel(2) [OF assms(1) Some]
    with False q have "nx = c" by simp
    then show ?thesis
      using P q assms(3) schedule_cases [of s nx "task_dequeue nx s" sw] by simp
  qed
qed

section \<open>Sleeping and waking\<close>

lemma set_t_prev_same: "tprev s p = v \<Longrightarrow> set_t_prev p v s = s"
  by (auto simp: set_t_prev_def tprev_def)

lemma sched_rel_wake_time [simp]: "sched_rel rq sq (set_t_wake_time p v s) = sched_rel rq sq s"
proof -
  have "t_state (tasks (set_t_wake_time p v s) q) = t_state (tasks s q)" for q by simp
  then show ?thesis by (simp add: sched_rel_def del: tasks_setters)
qed

lemma sched_rel_set_links:
  assumes "sched_rel rq sq s" "unqueued rq sq p"
  shows "sched_rel rq sq (set_t_next p v s)" "sched_rel rq sq (set_t_prev p v s)"
  using assms by (auto simp: sched_rel_def unqueued_def)

text \<open>Linking the current task into the sleep queue.\<close>

lemma sleep_link_rel:
  assumes rel: "sched_rel rq sq s" and p: "p \<noteq> NULL" "unqueued rq sq p" "tprev s p = NULL"
  shows "sched_rel rq (p # sq) (sleep_link p n s)"
proof -
  let ?w = "set_t_state p TASK_STATE_SLEEPING (set_t_wake_time p (tick_count (cpu0 s) + n) s)"
  let ?h = "sleep_queue s"
  define s1 where "s1 = set_t_prev p NULL (set_t_next p ?h ?w)"
  define s2 where "s2 = (if ?h \<noteq> NULL then set_t_prev ?h p s1 else s1)"
  note R = sched_relD [OF rel]
  have np: "p \<notin> set (rq j)" if "j < 32" for j using p(2) that by (simp add: unqueued_def)
  have nq: "p \<notin> set sq" using p(2) by (simp add: unqueued_def)
  have link: "sleep_link p n s = s2\<lparr>sleep_queue := p\<rparr>"
    using p(3) by (simp add: sleep_link_def s2_def s1_def Let_def set_t_prev_same)
  have "tdll ?w ?h sq" using R(3) by simp
  then have chain: "tdll s2 p (p # sq)"
    unfolding s2_def s1_def using p(1) nq by (intro tq.push_front) auto
  have hin: "?h \<in> set sq" if "?h \<noteq> NULL" using R(3) that by (cases sq) auto
  have s2: "runnable_queue s2 = runnable_queue s" "queue_index s2 = queue_index s"
      "t_state (tasks s2 q) = (if q = p then TASK_STATE_SLEEPING else t_state (tasks s q))" for q
    by (simp_all add: s2_def s1_def)
  have other: "tdll s2 (runnable_queue s ! j) (rq j)" if j: "j < 32" for j
  proof -
    have "?h \<noteq> NULL \<Longrightarrow> ?h \<notin> set (rq j)" using hin sched_rel_disjoint(2) [OF rel j] by blast
    then show ?thesis using R(2) [OF j] np [OF j] by (simp add: s2_def s1_def)
  qed
  show ?thesis
    unfolding sched_rel_def link
  proof (intro conjI allI impI ballI)
    fix j q assume j: "j < 32" "q \<in> set (rq j)"
    then have "q \<noteq> p" using np by blast
    then show "queue_index (s2\<lparr>sleep_queue := p\<rparr>) q = j"
      "t_state (tasks (s2\<lparr>sleep_queue := p\<rparr>) q) = TASK_STATE_RUNNABLE"
      using R(4,5) j by (simp_all add: s2)
  qed (use R(1,6) chain other in \<open>auto simp: s2\<close>)
qed

lemma sleep_link_frame [simp]:
  "cpu0 (sleep_link p n s) = cpu0 s" "queue_index (sleep_link p n s) = queue_index s"
  "t_wake_time (tasks (sleep_link p n s) p) = tick_count (cpu0 s) + n"
  "t_state (tasks (sleep_link p n s) p) = TASK_STATE_SLEEPING"
  "q \<noteq> p \<Longrightarrow> t_state (tasks (sleep_link p n s) q) = t_state (tasks s q)"
  by (simp_all add: sleep_link_def Let_def)

text \<open>Taking a task out of the sleep queue.\<close>

lemma sleep_unlink_frame [simp]:
  "cpu0 (sleep_unlink p s) = cpu0 s" "queue_index (sleep_unlink p s) = queue_index s"
  "runnable_queue (sleep_unlink p s) = runnable_queue s"
  "t_wake_time (tasks (sleep_unlink p s) q) = t_wake_time (tasks s q)"
  "t_state (tasks (sleep_unlink p s) q) = t_state (tasks s q)"
  by (simp_all add: sleep_unlink_def Let_def)

lemma sleep_unlink_rel:
  assumes rel: "sched_rel rq (as @ p # bs) s"
  shows "sched_rel rq (as @ bs) (sleep_unlink p s)" and "unqueued rq (as @ bs) p"
proof -
  let ?u = "unlink_node tnext tprev set_t_next set_t_prev p s"
  note R = sched_relD [OF rel]
  note U = tq.unlink_chain [OF R(3) pairwise_neq]
  have hd: "sleep_queue s = p \<longleftrightarrow> as = []"
    using R(3) dll_distinct [OF R(3)] by (cases as) auto
  have chain: "tdll (sleep_unlink p s) (sleep_queue (sleep_unlink p s)) (as @ bs)"
    using U hd by (cases "as = []") (simp_all add: sleep_unlink_def Let_def)
  have other: "tdll (sleep_unlink p s) (runnable_queue s ! j) (rq j)" if j: "j < 32" for j
  proof -
    have "set (as @ p # bs) \<inter> set (rq j) = {}" using sched_rel_disjoint(2) [OF rel j] by blast
    from unlink_other [OF R(3) R(2) [OF j] this] show ?thesis
      by (simp add: sleep_unlink_def Let_def)
  qed
  show "sched_rel rq (as @ bs) (sleep_unlink p s)"
    unfolding sched_rel_def
    by (intro conjI allI impI ballI) (use R chain other in simp_all)
  show "unqueued rq (as @ bs) p"
    using dll_distinct [OF R(3)] sched_rel_disjoint(2) [OF rel] by (auto simp: unqueued_def)
qed

text \<open>\<^verbatim>\<open>task_wake\<close> moves a sleeping task from the sleep queue to the front of the runnable queue
  of its priority, queues a blocked task, and does nothing to a task in any other state.\<close>

theorem task_wake_refines:
  assumes "sched_rel rq sq s" and "p \<noteq> NULL"
    and "t_state (tasks s p) = TASK_STATE_SLEEPING \<longrightarrow> p \<in> set sq"
  shows "if t_state (tasks s p) = TASK_STATE_SLEEPING
           then sched_rel (abs_push (queue_index s) p rq) (remove1 p sq) (task_wake p s)
         else if t_state (tasks s p) = TASK_STATE_BLOCKED
           then sched_rel (abs_push (queue_index s) p rq) sq (task_wake p s)
         else task_wake p s = s"
proof -
  consider (sleeping) "t_state (tasks s p) = TASK_STATE_SLEEPING"
    | (blocked) "t_state (tasks s p) = TASK_STATE_BLOCKED"
    | (other) "t_state (tasks s p) \<noteq> TASK_STATE_SLEEPING" "t_state (tasks s p) \<noteq> TASK_STATE_BLOCKED"
    by blast
  then show ?thesis
  proof cases
    case sleeping
    with assms(3) obtain as bs where sq: "sq = as @ p # bs" "p \<notin> set as"
      by (meson split_list_first)
    note U = sleep_unlink_rel [OF assms(1) [unfolded sq(1)]]
    have "sched_rel (abs_push (queue_index s) p rq) (as @ bs) (task_wake p s)"
      using enqueue_push [OF U(1) assms(2) U(2)] sleeping by (simp add: task_wake_def)
    then show ?thesis using sleeping sq by (simp add: remove1_append)
  next
    case blocked
    then have "unqueued rq sq p" using sched_rel_unqueued [OF assms(1)] by simp
    from enqueue_push [OF assms(1,2) this] blocked show ?thesis by (simp add: task_wake_def)
  qed (simp add: task_wake_def)
qed


section \<open>The timer tick\<close>

text \<open>The due tasks, in the order of the sleep queue, are pushed one after the other.\<close>

definition due :: "'a kstate_scheme \<Rightarrow> u32 \<Rightarrow> bool" where
  "due s p \<longleftrightarrow> t_wake_time (tasks s p) \<le> tick_count (cpu0 s)"

definition abs_wake :: "(u32 \<Rightarrow> nat) \<Rightarrow> u32 list \<Rightarrow> (nat \<Rightarrow> u32 list) \<Rightarrow> (nat \<Rightarrow> u32 list)" where
  "abs_wake qi ps rq = fold (abs_push qi) ps rq"

definition head_of :: "u32 list \<Rightarrow> u32" where
  "head_of xs = (case xs of [] \<Rightarrow> NULL | x # _ \<Rightarrow> x)"

lemma head_of_simps [simp]: "head_of [] = NULL" "head_of (x # xs) = x"
  by (simp_all add: head_of_def)

lemma dll_head_of: "dll nx pv pr h xs \<Longrightarrow> h = head_of xs"
  by (cases xs) auto

lemma dll_next_of: "dll nx pv pr h (as @ x # bs) \<Longrightarrow> nx x = head_of bs"
  by (cases bs) (auto simp: dll_append)

lemma wake_expired_frame [simp]:
  "cpu0 (wake_expired p s) = cpu0 s" "queue_index (wake_expired p s) = queue_index s"
  "due (wake_expired p s) = due s"
  "t_wake_time (tasks (wake_expired p s) q) = t_wake_time (tasks s q)"
  "t_state (tasks (wake_expired p s) q) = (if q = p then TASK_STATE_RUNNABLE else t_state (tasks s q))"
  by (auto simp: wake_expired_def due_def fun_eq_iff)

lemma wake_expired_rel:
  assumes rel: "sched_rel rq (as @ p # bs) s"
  shows "sched_rel (abs_push (queue_index s) p rq) (as @ bs) (wake_expired p s)"
proof -
  note U = sleep_unlink_rel [OF rel]
  have "sched_rel rq (as @ bs) (set_t_prev p NULL (set_t_next p NULL (sleep_unlink p s)))"
    using U by (intro sched_rel_set_links) auto
  from enqueue_push [OF this sched_relD(8) [OF rel] U(2)] show ?thesis
    by (simp add: wake_expired_def)
qed

lemma tick_loop_rel:
  "sched_rel rq (ks @ xs) s \<Longrightarrow>
   \<exists>s'. tick_loop (head_of xs) s = Some s'
      \<and> sched_rel (abs_wake (queue_index s) (filter (due s) xs) rq) (ks @ filter (\<lambda>p. \<not> due s p) xs) s'
      \<and> cpu0 s' = cpu0 s \<and> queue_index s' = queue_index s
      \<and> (\<forall>q. t_wake_time (tasks s' q) = t_wake_time (tasks s q))
      \<and> (\<forall>q. t_state (tasks s' q) =
              (if q \<in> set xs \<and> due s q then TASK_STATE_RUNNABLE else t_state (tasks s q)))"
proof (induction xs arbitrary: ks rq s)
  case Nil
  then show ?case by (simp add: tick_loop.simps [of NULL] abs_wake_def)
next
  case (Cons x xs)
  have x: "x \<noteq> NULL" "tnext s x = head_of xs"
    using sched_relD(8) [OF Cons.prems] dll_next_of [OF sched_relD(3) [OF Cons.prems]] by auto
  show ?case
  proof (cases "due s x")
    case True
    have step: "tick_loop x s = tick_loop (head_of xs) (wake_expired x s)"
      using x True by (simp add: tick_loop.simps [of x] due_def)
    show ?thesis
      using Cons.IH [OF wake_expired_rel [OF Cons.prems]] True
      by (auto simp: step abs_wake_def)
  next
    case False
    have step: "tick_loop x s = tick_loop (head_of xs) s"
      using x False by (simp add: tick_loop.simps [of x] due_def)
    show ?thesis
      using Cons.IH [of rq "ks @ [x]" s] Cons.prems False by (auto simp: step)
  qed
qed

lemma abs_wake_nth: "abs_wake qi ps rq i = rev (filter (\<lambda>p. qi p = i) ps) @ rq i"
  by (induction ps arbitrary: rq) (auto simp: abs_wake_def abs_push_def)

lemma net_tick_frame [simp]:
  "tasks (net_tick s) = tasks s" "cpu0 (net_tick s) = cpu0 s"
  "runnable_queue (net_tick s) = runnable_queue s" "sleep_queue (net_tick s) = sleep_queue s"
  "queue_index (net_tick s) = queue_index s"
  by (auto simp: net_tick_def Let_def queue_index_def fun_eq_iff split: prod.splits)

lemma sched_rel_net_tick [simp]: "sched_rel rq sq (net_tick s) = sched_rel rq sq s"
proof -
  have "tnext (net_tick s) = tnext s" "tprev (net_tick s) = tprev s"
    by (auto simp: tnext_def tprev_def)
  then show ?thesis by (simp add: sched_rel_def)
qed

lemma scheduler_tick_rel:
  assumes rel: "sched_rel rq sq s"
  defines "now \<equiv> tick_count (cpu0 s) + 1"
  shows "\<exists>s'. scheduler_tick s = Some s'
   \<and> sched_rel (abs_wake (queue_index s) (filter (\<lambda>p. t_wake_time (tasks s p) \<le> now) sq) rq)
       (filter (\<lambda>p. \<not> t_wake_time (tasks s p) \<le> now) sq) s'
   \<and> cpu0 s' = (cpu0 s)\<lparr>tick_count := now\<rparr> \<and> queue_index s' = queue_index s
   \<and> (\<forall>q. t_wake_time (tasks s' q) = t_wake_time (tasks s q))
   \<and> (\<forall>q. t_state (tasks s' q) = (if q \<in> set sq \<and> t_wake_time (tasks s q) \<le> now
            then TASK_STATE_RUNNABLE else t_state (tasks s q)))"
proof -
  let ?s = "s\<lparr>cpu0 := (cpu0 s)\<lparr>tick_count := now\<rparr>\<rparr>"
  have due: "due ?s = (\<lambda>p. t_wake_time (tasks s p) \<le> now)" by (simp add: due_def fun_eq_iff)
  have "sched_rel rq ([] @ sq) ?s" using rel by simp
  from tick_loop_rel [OF this, unfolded due] obtain s' where
    "tick_loop (head_of sq) ?s = Some s'"
    "sched_rel (abs_wake (queue_index s) (filter (\<lambda>p. t_wake_time (tasks s p) \<le> now) sq) rq)
       (filter (\<lambda>p. \<not> t_wake_time (tasks s p) \<le> now) sq) s'"
    "cpu0 s' = (cpu0 s)\<lparr>tick_count := now\<rparr>" "queue_index s' = queue_index s"
    "\<forall>q. t_wake_time (tasks s' q) = t_wake_time (tasks s q)"
    "\<forall>q. t_state (tasks s' q) = (if q \<in> set sq \<and> t_wake_time (tasks s q) \<le> now
            then TASK_STATE_RUNNABLE else t_state (tasks s q))"
    by auto
  moreover have "sleep_queue s = head_of sq" using dll_head_of [OF sched_relD(3) [OF rel]] .
  ultimately show ?thesis
    by (intro exI [of _ "net_tick s'"]) (simp add: scheduler_tick_def now_def)
qed

text \<open>C2: a timer tick advances the clock by one and moves exactly the tasks whose wake time has been
  reached from the sleep queue to the front of their runnable queues, leaving the order of the
  rest as it was; the current task keeps running.\<close>

theorem scheduler_tick_refines:
  assumes "sched_rel rq sq s"
  shows "\<exists>s'. scheduler_tick s = Some s'
     \<and> tick_count (cpu0 s') = tick_count (cpu0 s) + 1
     \<and> current_task (cpu0 s') = current_task (cpu0 s)
     \<and> sched_rel
         (\<lambda>i. rev (filter (\<lambda>p. queue_index s p = i)
                    (filter (\<lambda>p. t_wake_time (tasks s p) \<le> tick_count (cpu0 s) + 1) sq)) @ rq i)
         (filter (\<lambda>p. tick_count (cpu0 s) + 1 < t_wake_time (tasks s p)) sq) s'"
proof -
  obtain s' where "scheduler_tick s = Some s'"
    "sched_rel (abs_wake (queue_index s)
        (filter (\<lambda>p. t_wake_time (tasks s p) \<le> tick_count (cpu0 s) + 1) sq) rq)
       (filter (\<lambda>p. \<not> t_wake_time (tasks s p) \<le> tick_count (cpu0 s) + 1) sq) s'"
    "cpu0 s' = (cpu0 s)\<lparr>tick_count := tick_count (cpu0 s) + 1\<rparr>"
    using scheduler_tick_rel [OF assms] by auto
  moreover have "abs_wake qi ps rq = (\<lambda>i. rev (filter (\<lambda>p. qi p = i) ps) @ rq i)" for qi ps
    by (simp add: fun_eq_iff abs_wake_nth)
  ultimately show ?thesis by (simp add: not_le)
qed

text \<open>Some number of timer interrupts.\<close>

fun ticks :: "nat \<Rightarrow> 'a kstate_scheme \<Rightarrow> 'a kstate_scheme option" where
  "ticks 0 s = Some s"
| "ticks (Suc n) s = do { s \<leftarrow> ticks n s; scheduler_tick s }"

lemma unat_Suc_less:
  fixes a :: u32 assumes "unat a + Suc n < 2 ^ 32" shows "unat (a + 1) = Suc (unat a)"
  using assms by (subst unat_add_lem [THEN iffD1]) auto

lemma ticks_rel:
  assumes rel: "sched_rel rq sq s" and p: "p \<in> set sq"
    and wake: "tick_count (cpu0 s) < t_wake_time (tasks s p)"
    and n: "unat (tick_count (cpu0 s)) + n < 2 ^ 32"
  shows "\<exists>s' rq' sq'. ticks n s = Some s' \<and> sched_rel rq' sq' s'
     \<and> unat (tick_count (cpu0 s')) = unat (tick_count (cpu0 s)) + n
     \<and> t_wake_time (tasks s' p) = t_wake_time (tasks s p)
     \<and> (p \<in> set sq' \<longleftrightarrow> unat (tick_count (cpu0 s)) + n < unat (t_wake_time (tasks s p)))
     \<and> (p \<notin> set sq' \<longrightarrow> t_state (tasks s' p) = TASK_STATE_RUNNABLE)"
  using n
proof (induction n)
  case 0
  then show ?case using rel p wake by (auto simp: word_less_nat_alt)
next
  case (Suc n)
  then obtain s1 rq1 sq1 where IH: "ticks n s = Some s1" "sched_rel rq1 sq1 s1"
    "unat (tick_count (cpu0 s1)) = unat (tick_count (cpu0 s)) + n"
    "t_wake_time (tasks s1 p) = t_wake_time (tasks s p)"
    "p \<in> set sq1 \<longleftrightarrow> unat (tick_count (cpu0 s)) + n < unat (t_wake_time (tasks s p))"
    "p \<notin> set sq1 \<Longrightarrow> t_state (tasks s1 p) = TASK_STATE_RUNNABLE"
    by auto
  have now: "unat (tick_count (cpu0 s1) + 1) = unat (tick_count (cpu0 s)) + Suc n"
    using Suc.prems IH(3) unat_Suc_less [of "tick_count (cpu0 s1)" 0] by simp
  obtain s2 where T: "scheduler_tick s1 = Some s2"
    "sched_rel (abs_wake (queue_index s1)
        (filter (\<lambda>p. t_wake_time (tasks s1 p) \<le> tick_count (cpu0 s1) + 1) sq1) rq1)
       (filter (\<lambda>p. \<not> t_wake_time (tasks s1 p) \<le> tick_count (cpu0 s1) + 1) sq1) s2"
    "cpu0 s2 = (cpu0 s1)\<lparr>tick_count := tick_count (cpu0 s1) + 1\<rparr>"
    "queue_index s2 = queue_index s1"
    "\<And>q. t_wake_time (tasks s2 q) = t_wake_time (tasks s1 q)"
    "\<And>q. t_state (tasks s2 q) = (if q \<in> set sq1 \<and> t_wake_time (tasks s1 q) \<le> tick_count (cpu0 s1) + 1
            then TASK_STATE_RUNNABLE else t_state (tasks s1 q))"
    using scheduler_tick_rel [OF IH(2)] by auto
  have due: "t_wake_time (tasks s1 p) \<le> tick_count (cpu0 s1) + 1
      \<longleftrightarrow> unat (t_wake_time (tasks s p)) \<le> unat (tick_count (cpu0 s)) + Suc n"
    by (simp add: word_le_nat_alt now IH(4))
  have "ticks (Suc n) s = Some s2" using IH(1) T(1) by simp
  moreover have "unat (tick_count (cpu0 s2)) = unat (tick_count (cpu0 s)) + Suc n"
    using T(3) now by simp
  moreover have "p \<in> set (filter (\<lambda>p. \<not> t_wake_time (tasks s1 p) \<le> tick_count (cpu0 s1) + 1) sq1)
      \<longleftrightarrow> unat (tick_count (cpu0 s)) + Suc n < unat (t_wake_time (tasks s p))"
    using IH(5) due by auto
  moreover have "t_state (tasks s2 p) = TASK_STATE_RUNNABLE"
    if "p \<notin> set (filter (\<lambda>p. \<not> t_wake_time (tasks s1 p) \<le> tick_count (cpu0 s1) + 1) sq1)"
    using T(6) IH(6) that by auto
  moreover have "t_wake_time (tasks s2 p) = t_wake_time (tasks s p)" using T(5) IH(4) by simp
  ultimately show ?case using T(2) by blast
qed

text \<open>C3: a sleeping task is woken on time.  As long as the tick counter does not wrap, after \<open>n\<close>
  timer interrupts (none of which fails) a sleeper is runnable if its wake time has been reached
  and still sleeping if not.\<close>

theorem sleeper_wakes_on_time:
  assumes "sched_rel rq sq s" and "p \<in> set sq"
    and "tick_count (cpu0 s) < t_wake_time (tasks s p)"
    and "unat (tick_count (cpu0 s)) + n < 2 ^ 32"
  shows "\<exists>s'. ticks n s = Some s' \<and> t_state (tasks s' p) =
     (if unat (t_wake_time (tasks s p)) \<le> unat (tick_count (cpu0 s)) + n
      then TASK_STATE_RUNNABLE else TASK_STATE_SLEEPING)"
proof -
  obtain s' rq' sq' where *: "ticks n s = Some s'" "sched_rel rq' sq' s'"
    "p \<in> set sq' \<longleftrightarrow> unat (tick_count (cpu0 s)) + n < unat (t_wake_time (tasks s p))"
    "p \<notin> set sq' \<longrightarrow> t_state (tasks s' p) = TASK_STATE_RUNNABLE"
    using ticks_rel [OF assms] by blast
  then show ?thesis using sched_relD(6) [OF *(2), of p] by (auto simp: not_le)
qed


lemma word_wrap_less:
  fixes x n :: u32
  assumes "2 ^ 32 \<le> unat x + unat n" and "x < -1"
  shows "x + n \<le> x + 1"
proof -
  have bound: "unat w < 2 ^ 32" for w :: u32 using unsigned_less [of w] by simp
  have "unat x + unat n < 2 * 2 ^ 32" using bound [of x] bound [of n] by linarith
  then have "unat (x + n) = unat x + unat n - 2 ^ 32"
    using assms(1) by (simp add: unat_word_ariths mod_if)
  moreover have "unat n < 2 ^ 32" by (rule bound)
  moreover have "unat x + Suc 0 < 2 ^ 32"
    using assms(2) by (simp add: word_less_nat_alt unsigned_minus_1_eq_mask mask_eq_exp_minus_1)
  then have up: "x \<le> x + 1" using unat_Suc_less [of x 0] by (simp add: word_le_nat_alt)
  ultimately have "x + n \<le> x" using assms(1) by (simp add: word_le_nat_alt)
  also note up
  finally show ?thesis .
qed

text \<open>the comparison with the wake time is not safe against wrap-around of the 32 bit tick
  counter: a task that sleeps across the wrap is made runnable by the very next tick, however
  long it asked to sleep.\<close>

theorem sleep_across_wrap_wakes_early:
  assumes "sched_rel rq sq s" and "p \<in> set sq" and "tick_count (cpu0 s) < -1"
    and "t_wake_time (tasks s p) = tick_count (cpu0 s) + n"
    and "2 ^ 32 \<le> unat (tick_count (cpu0 s)) + unat n"
  shows "\<exists>s'. scheduler_tick s = Some s' \<and> t_state (tasks s' p) = TASK_STATE_RUNNABLE"
proof -
  have "t_wake_time (tasks s p) \<le> tick_count (cpu0 s) + 1"
    using word_wrap_less [OF assms(5,3)] assms(4) by simp
  then show ?thesis using scheduler_tick_rel [OF assms(1)] assms(2) by auto
qed


section \<open>Fairness\<close>

text \<open>Repeated \<^verbatim>\<open>task_yield\<close>: each switch goes on in the task switched to, which yields at once.\<close>

fun yields :: "nat \<Rightarrow> 'a kstate_scheme \<Rightarrow> 'a kstate_scheme option" where
  "yields 0 s = Some s"
| "yields (Suc n) s = do { s \<leftarrow> yields n s; task_yield (\<lambda>_ _ s. Some s) s }"

lemma yield_swap:
  assumes rel: "sched_rel rq sq s" and idle: "idle_task (cpu0 s) \<notin> set sq"
    and a: "current_task (cpu0 s) = a" "a \<noteq> NULL" "t_state (tasks s a) = TASK_STATE_RUNNING"
      "queue_index s a = i"
    and top: "top_queue rq = Some i" "rq i = b # rest"
  shows "\<exists>s'. task_yield (\<lambda>_ _ s. Some s) s = Some s' \<and> sched_rel (rq(i := a # rest)) sq s'
     \<and> current_task (cpu0 s') = b \<and> t_state (tasks s' b) = TASK_STATE_RUNNING
     \<and> queue_index s' = queue_index s \<and> idle_task (cpu0 s') = idle_task (cpu0 s)"
proof -
  have i: "i < 32" and b: "b \<in> set (rq i)" using top by (auto simp: top_queue_Some)
  have nx: "abs_next rq (idle_task (cpu0 s)) = (b, rq(i := rest))"
    using top by (simp add: abs_next_def)
  have "b \<noteq> NULL" "b \<noteq> current_task (cpu0 s)"
    using sched_relD(5,7) [OF rel i b] a by auto
  from schedule_switch [OF rel idle nx this, of "\<lambda>_ _ s. Some s"] obtain s' where
    "schedule (\<lambda>_ _ s. Some s) s = Some s'" "sched_rel (abs_requeue s a (rq(i := rest))) sq s'"
    "current_task (cpu0 s') = b" "t_state (tasks s' b) = TASK_STATE_RUNNING"
    "queue_index s' = queue_index s" "idle_task (cpu0 s') = idle_task (cpu0 s)"
    using a(1) by auto
  moreover have "abs_requeue s a (rq(i := rest)) = rq(i := a # rest)"
    using a by (simp add: abs_requeue_def abs_push_def)
  ultimately show ?thesis by (simp add: task_yield_def)
qed

text \<open>\<open>x\<close> runs and \<open>y # rest\<close> is the highest queue, of the same priority.\<close>

definition pair_state ::
  "(nat \<Rightarrow> u32 list) \<Rightarrow> u32 list \<Rightarrow> nat \<Rightarrow> u32 list \<Rightarrow> u32 \<Rightarrow> u32 \<Rightarrow> 'a kstate_scheme \<Rightarrow> bool" where
  "pair_state rq sq i rest x y s \<longleftrightarrow>
     sched_rel (rq(i := y # rest)) sq s \<and> idle_task (cpu0 s) \<notin> set sq \<and> current_task (cpu0 s) = x
   \<and> x \<noteq> NULL \<and> t_state (tasks s x) = TASK_STATE_RUNNING \<and> queue_index s x = i
   \<and> i < 32 \<and> (\<forall>j. i < j \<and> j < 32 \<longrightarrow> rq j = [])"

lemma pair_swap:
  assumes "pair_state rq sq i rest x y s"
  shows "\<exists>s'. task_yield (\<lambda>_ _ s. Some s) s = Some s' \<and> pair_state rq sq i rest y x s'"
proof -
  let ?rq = "rq(i := y # rest)"
  from assms have rel: "sched_rel ?rq sq s" and i: "i < 32"
    and x: "current_task (cpu0 s) = x" "x \<noteq> NULL" "t_state (tasks s x) = TASK_STATE_RUNNING"
      "queue_index s x = i"
    and idle: "idle_task (cpu0 s) \<notin> set sq" and up: "\<forall>j. i < j \<and> j < 32 \<longrightarrow> rq j = []"
    by (auto simp: pair_state_def)
  have top: "top_queue ?rq = Some i" "?rq i = y # rest" using i up by (auto simp: top_queue_Some)
  have y: "y \<noteq> NULL" "queue_index s y = i" using sched_relD(4,7) [OF rel i, of y] by simp_all
  obtain s' where s': "task_yield (\<lambda>_ _ s. Some s) s = Some s'" "sched_rel (?rq(i := x # rest)) sq s'"
    "current_task (cpu0 s') = y" "t_state (tasks s' y) = TASK_STATE_RUNNING"
    "queue_index s' = queue_index s" "idle_task (cpu0 s') = idle_task (cpu0 s)"
    using yield_swap [OF rel idle x top] by blast
  then have "pair_state rq sq i rest y x s'"
    using y i up idle by (simp add: pair_state_def)
  with s'(1) show ?thesis by blast
qed

text \<open>the queues are last-in first-out, so two tasks that yield to each other starve the rest:
  with \<open>a\<close> running and \<open>b # rest\<close> the highest queue, of the same priority, after any number of yields
  the running task is \<open>a\<close> or \<open>b\<close> and every task of \<open>rest\<close> is still waiting, in the same place.\<close>

theorem yield_starves:
  assumes "pair_state rq sq i rest a b s"
  shows "\<exists>s'. yields n s = Some s' \<and>
     (if even n then pair_state rq sq i rest a b s' else pair_state rq sq i rest b a s')"
proof (induction n)
  case 0
  then show ?case using assms by simp
next
  case (Suc n)
  then obtain s1 where s1: "yields n s = Some s1"
    "if even n then pair_state rq sq i rest a b s1 else pair_state rq sq i rest b a s1" by blast
  show ?case
  proof (cases "even n")
    case True
    with s1 pair_swap [of rq sq i rest a b s1] show ?thesis by auto
  next
    case False
    with s1 pair_swap [of rq sq i rest b a s1] show ?thesis by auto
  qed
qed


section \<open>A concrete state\<close>

text \<open>Task \<open>0x1000\<close> runs, \<open>0x2000\<close> and \<open>0x4000\<close> of the same priority are runnable, \<open>0x3000\<close> sleeps
  until tick 7 and the clock is at 5.\<close>

definition demo_tasks :: "u32 \<Rightarrow> task" where
  "demo_tasks = (\<lambda>_. task_zero)
     (0x1000 := task_zero\<lparr>t_state := TASK_STATE_RUNNING, t_priority := 16\<rparr>,
      0x2000 := task_zero\<lparr>t_state := TASK_STATE_RUNNABLE, t_priority := 16, t_next := 0x4000\<rparr>,
      0x4000 := task_zero\<lparr>t_state := TASK_STATE_RUNNABLE, t_priority := 16, t_prev := 0x2000\<rparr>,
      0x3000 := task_zero\<lparr>t_state := TASK_STATE_SLEEPING, t_priority := 20, t_wake_time := 7\<rparr>)"

definition demo_state :: "u32 \<Rightarrow> kstate" where
  "demo_state t = kstate_boot\<lparr>cpu0 := cpu_state_zero\<lparr>current_task := 0x1000, tick_count := t\<rparr>,
     tasks := demo_tasks, runnable_queue := (replicate 32 NULL)[16 := 0x2000], sleep_queue := 0x3000\<rparr>"

definition demo_rq :: "nat \<Rightarrow> u32 list" where
  "demo_rq = (\<lambda>_. [])(16 := [0x2000, 0x4000])"

lemma demo_rel: "sched_rel demo_rq [0x3000] (demo_state t)"
proof -
  have "tdll (demo_state t) (runnable_queue (demo_state t) ! i) (demo_rq i)" if "i < 32" for i
    using that by (cases "i = 16")
      (auto simp: demo_state_def demo_rq_def tnext_def tprev_def demo_tasks_def task_zero_def nth_list_update)
  then show ?thesis
    by (auto simp: sched_rel_def demo_state_def kstate_boot_def demo_rq_def tnext_def tprev_def
        demo_tasks_def task_zero_def queue_index_def split: if_splits)
qed

lemma demo_top: "top_queue demo_rq = Some 16"
  by (simp add: top_queue_Some demo_rq_def)

lemmas demo_simps = demo_state_def kstate_boot_def demo_tasks_def task_zero_def cpu_state_zero_def
  queue_index_def

lemma demo_next: "abs_next demo_rq 0 = (0x2000, demo_rq(16 := [0x4000]))"
  by (simp add: abs_next_def demo_top) (simp add: demo_rq_def)

theorem pick_next_highest_witness:
  "fst (scheduler_pick_next (demo_state 5)) = 0x2000
   \<and> runnable_queue (snd (scheduler_pick_next (demo_state 5))) ! 16 = 0x4000"
proof -
  obtain p s' where ps: "scheduler_pick_next (demo_state 5) = (p, s')" by fastforce
  have ne: "\<not> (\<forall>i<32. demo_rq i = [])" by (auto simp: demo_rq_def intro!: exI [of _ 16])
  obtain i where i: "i < 32" "demo_rq i \<noteq> []" "p = hd (demo_rq i)"
    "sched_rel (demo_rq(i := tl (demo_rq i))) [0x3000] s'"
    using pick_next_highest [OF demo_rel [of 5]] ps ne by auto
  then have "i = 16" by (auto simp: demo_rq_def split: if_splits)
  with i sched_relD(2) [OF i(4), of 16] show ?thesis by (simp add: ps demo_rq_def)
qed

theorem schedule_refines_witness:
  "\<exists>s'. schedule (\<lambda>_ _ s. Some s) (demo_state 5) = Some s' \<and> current_task (cpu0 s') = 0x2000
      \<and> runnable_queue s' ! 16 = 0x1000"
proof -
  have c: "current_task (cpu0 (demo_state 5)) = 0x1000" "idle_task (cpu0 (demo_state 5)) = 0"
    by (simp_all add: demo_simps)
  have q: "abs_requeue (demo_state 5) 0x1000 (demo_rq(16 := [0x4000])) 16 = [0x1000, 0x4000]"
    by (simp add: abs_requeue_def abs_push_def demo_simps)
  obtain s' where s': "schedule (\<lambda>_ _ s. Some s) (demo_state 5) = Some s'"
    "sched_rel (abs_requeue (demo_state 5) 0x1000 (demo_rq(16 := [0x4000]))) [0x3000] s'"
    "current_task (cpu0 s') = 0x2000"
    using schedule_refines [OF demo_rel _ c(1), of "0x2000" "demo_rq(16 := [0x4000])" "\<lambda>_ _ s. Some s"]
      c(2) demo_next by auto
  then show ?thesis using sched_relD(2) [OF s'(2), of 16] q by auto
qed

theorem task_wake_refines_witness:
  "sched_rel (abs_push (queue_index (demo_state 5)) 0x3000 demo_rq) [] (task_wake 0x3000 (demo_state 5))
   \<and> task_wake 0x1000 (demo_state 5) = demo_state 5"
proof -
  have "t_state (tasks (demo_state 5) 0x3000) = TASK_STATE_SLEEPING"
    "t_state (tasks (demo_state 5) 0x1000) = TASK_STATE_RUNNING" by (simp_all add: demo_simps)
  then show ?thesis
    using task_wake_refines [OF demo_rel [of 5], of "0x3000"] task_wake_refines [OF demo_rel [of 5], of "0x1000"]
    by simp
qed

theorem scheduler_tick_refines_witness:
  "\<exists>s'. scheduler_tick (demo_state 6) = Some s' \<and> sleep_queue s' = NULL \<and> tick_count (cpu0 s') = 7"
proof -
  have "t_wake_time (tasks (demo_state 6) 0x3000) = 7" "tick_count (cpu0 (demo_state 6)) = 6"
    by (simp_all add: demo_simps)
  then obtain s' rq' where "scheduler_tick (demo_state 6) = Some s'" "tick_count (cpu0 s') = 7"
    and rel: "sched_rel rq' [] s'"
    using scheduler_tick_refines [OF demo_rel [of 6]] by auto
  then show ?thesis using sched_relD(3) [OF rel] by auto
qed

theorem sleeper_wakes_on_time_witness:
  "(\<exists>s'. ticks 1 (demo_state 5) = Some s' \<and> t_state (tasks s' 0x3000) = TASK_STATE_SLEEPING)
   \<and> (\<exists>s'. ticks 2 (demo_state 5) = Some s' \<and> t_state (tasks s' 0x3000) = TASK_STATE_RUNNABLE)"
  using sleeper_wakes_on_time [OF demo_rel [of 5], of "0x3000" 1] sleeper_wakes_on_time [OF demo_rel [of 5], of "0x3000" 2]
  by (simp add: demo_simps)


theorem sleep_across_wrap_wakes_early_witness:
  "\<exists>s'. scheduler_tick (demo_state (-10)) = Some s'
      \<and> t_state (tasks s' 0x3000) = TASK_STATE_RUNNABLE"
  using sleep_across_wrap_wakes_early [OF demo_rel [of "-10"], of "0x3000" 17] by (simp add: demo_simps)

theorem yield_starves_witness:
  "\<exists>s'. yields 1000 (demo_state 5) = Some s' \<and> runnable_queue s' ! 16 = 0x2000
      \<and> tnext s' 0x2000 = 0x4000"
proof -
  have "demo_rq(16 := [0x2000, 0x4000]) = demo_rq" by (simp add: demo_rq_def)
  then have "pair_state demo_rq [0x3000] 16 [0x4000] 0x1000 0x2000 (demo_state 5)"
    using demo_rel by (auto simp: pair_state_def demo_simps demo_rq_def)
  from yield_starves [OF this, of 1000] obtain s' where "yields 1000 (demo_state 5) = Some s'"
    "sched_rel (demo_rq(16 := [0x2000, 0x4000])) [0x3000] s'" by (auto simp: pair_state_def)
  then show ?thesis using sched_relD(2) [of _ _ s' 16] by fastforce
qed

end
