(* ===== verification/Sync.thy ===== *)
theory Sync
  imports Scheduler
begin

text \<open>
  \<^verbatim>\<open>src/kernel/sync/sync.c\<close>: spin locks, recursive mutexes and counting semaphores.  A mutex or
  a semaphore lives somewhere in a state that extends the kernel state; the operations take the
  functions that read and update it.  The locale \<open>kernel_cell\<close> says what they rely on.
\<close>

unbundle bit_operations_syntax

section \<open>Spin locks\<close>

definition spinlock_init :: "int \<Rightarrow> int" where
  "spinlock_init lock = 0"

text \<open>The lock word is shared with the other core: \<open>env k\<close> is what the other core does to it before
  the \<open>k\<close>-th access.  \<open>spin_acquire False\<close> is at the test-and-set, \<open>spin_acquire True\<close> in the inner
  loop \<^verbatim>\<open>while (*lock == SPINLOCK_LOCKED)\<close>; the result is the number of accesses made and the
  lock word.\<close>

partial_function (option) spin_acquire :: "(nat \<Rightarrow> int \<Rightarrow> int) \<Rightarrow> bool \<Rightarrow> nat \<Rightarrow> int \<Rightarrow> (nat \<times> int) option" where
  "spin_acquire env inner k lock =
     (let lock = env k lock
      in if inner then spin_acquire env (lock = 1) (Suc k) lock
         else if lock = 0 then Some (Suc k, 1) else spin_acquire env True (Suc k) 1)"

definition spinlock_acquire :: "(nat \<Rightarrow> int \<Rightarrow> int) \<Rightarrow> int \<Rightarrow> (nat \<times> int) option" where
  "spinlock_acquire env lock = spin_acquire env False 0 lock"

definition spinlock_release :: "int \<Rightarrow> int" where
  "spinlock_release lock = 0"


section \<open>Mutexes\<close>

record mutex =
  m_locked :: int
  m_owner :: u32
  m_count :: int

definition mutex_zero :: mutex where
  "mutex_zero = \<lparr>m_locked = 0, m_owner = NULL, m_count = 0\<rparr>"

definition mutex_held :: "u32 \<Rightarrow> mutex" where
  "mutex_held c = \<lparr>m_locked = 1, m_owner = c, m_count = 1\<rparr>"

definition mutex_init :: "((mutex \<Rightarrow> mutex) \<Rightarrow> 's \<Rightarrow> 's) \<Rightarrow> 's \<Rightarrow> 's" where
  "mutex_init upd s = upd (\<lambda>m. m\<lparr>m_locked := 0, m_owner := NULL, m_count := 0\<rparr>) s"

text \<open>The \<^verbatim>\<open>while (__sync_lock_test_and_set(&m->locked, 1))\<close> loop; \<open>p\<close> is the local \<^verbatim>\<open>psr\<close>.\<close>

partial_function (option) mutex_spin ::
  "(u32 \<Rightarrow> u32 \<Rightarrow> 'a kstate_scheme \<Rightarrow> 'a kstate_scheme option) \<Rightarrow>
   ('a kstate_scheme \<Rightarrow> mutex) \<Rightarrow> ((mutex \<Rightarrow> mutex) \<Rightarrow> 'a kstate_scheme \<Rightarrow> 'a kstate_scheme) \<Rightarrow>
   u32 \<Rightarrow> 'a kstate_scheme \<Rightarrow> (u32 \<times> 'a kstate_scheme) option" where
  "mutex_spin sw get upd p s =
     (let old = m_locked (get s);
          s = upd (\<lambda>m. m\<lparr>m_locked := 1\<rparr>) s
      in if old \<noteq> 0
         then do { s \<leftarrow> task_yield sw (s\<lparr>psr := p\<rparr>);
                   mutex_spin sw get upd (psr s) (s\<lparr>psr := psr s OR 0xF\<rparr>) }
         else Some (p, s))"

definition mutex_lock ::
  "(u32 \<Rightarrow> u32 \<Rightarrow> 'a kstate_scheme \<Rightarrow> 'a kstate_scheme option) \<Rightarrow>
   ('a kstate_scheme \<Rightarrow> mutex) \<Rightarrow> ((mutex \<Rightarrow> mutex) \<Rightarrow> 'a kstate_scheme \<Rightarrow> 'a kstate_scheme) \<Rightarrow>
   'a kstate_scheme \<Rightarrow> 'a kstate_scheme option" where
  "mutex_lock sw get upd s =
     (let current = current_task (cpu0 s)
      in if current = NULL then Some s
         else let p = psr s; s = s\<lparr>psr := p OR 0xF\<rparr>
              in if m_locked (get s) \<noteq> 0 \<and> m_owner (get s) = current
                 then Some ((upd (\<lambda>m. m\<lparr>m_count := m_count m + 1\<rparr>) s)\<lparr>psr := p\<rparr>)
                 else do { (p, s) \<leftarrow> mutex_spin sw get upd p s;
                           Some ((upd (\<lambda>m. m\<lparr>m_owner := current, m_count := 1\<rparr>) s)\<lparr>psr := p\<rparr>) })"

definition mutex_unlock ::
  "('a kstate_scheme \<Rightarrow> mutex) \<Rightarrow> ((mutex \<Rightarrow> mutex) \<Rightarrow> 'a kstate_scheme \<Rightarrow> 'a kstate_scheme) \<Rightarrow>
   'a kstate_scheme \<Rightarrow> 'a kstate_scheme" where
  "mutex_unlock get upd s =
     (let current = current_task (cpu0 s)
      in if current = NULL \<or> m_owner (get s) \<noteq> current then s
         else let s = upd (\<lambda>m. m\<lparr>m_count := m_count m - 1\<rparr>) s
              in if 0 < m_count (get s) then s
                 else upd (\<lambda>m. m\<lparr>m_locked := 0\<rparr>) (upd (\<lambda>m. m\<lparr>m_owner := NULL\<rparr>) s))"


section \<open>Semaphores\<close>

record semaphore =
  sem_count :: int
  sem_waiters :: u32

definition semaphore_init :: "((semaphore \<Rightarrow> semaphore) \<Rightarrow> 's \<Rightarrow> 's) \<Rightarrow> int \<Rightarrow> 's \<Rightarrow> 's" where
  "semaphore_init upd v s = upd (\<lambda>m. m\<lparr>sem_count := v, sem_waiters := NULL\<rparr>) s"

definition semaphore_wait ::
  "(u32 \<Rightarrow> u32 \<Rightarrow> 'a kstate_scheme \<Rightarrow> 'a kstate_scheme option) \<Rightarrow>
   ('a kstate_scheme \<Rightarrow> semaphore) \<Rightarrow>
   ((semaphore \<Rightarrow> semaphore) \<Rightarrow> 'a kstate_scheme \<Rightarrow> 'a kstate_scheme) \<Rightarrow>
   'a kstate_scheme \<Rightarrow> 'a kstate_scheme option" where
  "semaphore_wait sw get upd s =
     (let current = current_task (cpu0 s)
      in if current = NULL then Some s
         else let p = psr s; s = s\<lparr>psr := p OR 0xF\<rparr>
              in if 0 < sem_count (get s)
                 then Some ((upd (\<lambda>m. m\<lparr>sem_count := sem_count m - 1\<rparr>) s)\<lparr>psr := p\<rparr>)
                 else let s = set_t_next current (sem_waiters (get s)) s;
                          s = upd (\<lambda>m. m\<lparr>sem_waiters := current\<rparr>) s;
                          s = set_t_state current TASK_STATE_BLOCKED s
                      in schedule sw (s\<lparr>psr := p\<rparr>))"

definition semaphore_signal ::
  "('a kstate_scheme \<Rightarrow> semaphore) \<Rightarrow>
   ((semaphore \<Rightarrow> semaphore) \<Rightarrow> 'a kstate_scheme \<Rightarrow> 'a kstate_scheme) \<Rightarrow>
   'a kstate_scheme \<Rightarrow> 'a kstate_scheme" where
  "semaphore_signal get upd s =
     (let p = psr s; s = s\<lparr>psr := p OR 0xF\<rparr>;
          t = sem_waiters (get s);
          s = (if t \<noteq> NULL
               then task_wake t (upd (\<lambda>m. m\<lparr>sem_waiters := tnext s t\<rparr>) s)
               else upd (\<lambda>m. m\<lparr>sem_count := sem_count m + 1\<rparr>) s)
      in s\<lparr>psr := p\<rparr>)"


section \<open>Spin locks: the lock is taken once the other core has released it\<close>

lemma spin_acquire_step:
  "spin_acquire env False k l =
     (if env k l = 0 then Some (Suc k, 1) else spin_acquire env True (Suc k) 1)"
  "spin_acquire env True k l = spin_acquire env (env k l = 1) (Suc k) (env k l)"
  by (subst spin_acquire.simps; simp add: Let_def)+

lemma spin_inner_waits:
  "(\<And>j. k \<le> j \<Longrightarrow> j < k + n \<Longrightarrow> env j 1 = 1) \<Longrightarrow> spin_acquire env True k 1 = spin_acquire env True (k + n) 1"
proof (induction n arbitrary: k)
  case (Suc n)
  have "spin_acquire env True k 1 = spin_acquire env True (Suc k) 1"
    using Suc.prems [of k] by (subst spin_acquire_step(2)) simp
  also have "\<dots> = spin_acquire env True (Suc k + n) 1"
    using Suc.prems by (intro Suc.IH) auto
  finally show ?case by simp
qed simp

text \<open>C31: \<^verbatim>\<open>spinlock_acquire\<close> of a lock that the other core holds for \<open>n\<close> accesses and then releases
  takes the lock with the access after the one that saw it free; of a free lock, with the first
  access.  The lock word is then 1.\<close>

theorem spinlock_acquire_takes:
  assumes "l = 0 \<or> l = 1" and "env 0 l = l"
    and "l = 1 \<Longrightarrow> \<forall>j. 0 < j \<and> j \<le> n \<longrightarrow> env j 1 = 1"
    and "l = 1 \<Longrightarrow> env (Suc n) 1 = 0" and "l = 1 \<Longrightarrow> env (Suc (Suc n)) 0 = 0"
  shows "spinlock_acquire env l = Some (if l = 0 then 1 else n + 3, 1)"
proof (cases "l = 0")
  case True
  then show ?thesis using assms(2) by (simp add: spinlock_acquire_def spin_acquire_step(1))
next
  case False
  then have l: "l = 1" using assms(1) by simp
  have "spinlock_acquire env l = spin_acquire env True 1 1"
    using assms(2) l by (simp add: spinlock_acquire_def spin_acquire_step(1))
  also have "\<dots> = spin_acquire env True (1 + n) 1"
    using assms(3) l by (intro spin_inner_waits) auto
  also have "\<dots> = spin_acquire env False (Suc (Suc n)) 0"
    using assms(4) l by (simp add: spin_acquire_step(2))
  also have "\<dots> = Some (n + 3, 1)"
    using assms(5) l by (simp add: spin_acquire_step(1))
  finally show ?thesis using l by simp
qed

text \<open>Nobody else releases the lock: the loop never ends.\<close>

lemma spin_held_forever:
  "spin_acquire env inner k l = Some r \<Longrightarrow> env = (\<lambda>_ l. l) \<Longrightarrow> l \<noteq> 0 \<Longrightarrow> (inner \<longrightarrow> l = 1) \<Longrightarrow> False"
  by (induction env inner k l r rule: spin_acquire.raw_induct [rotated, consumes 1, case_names step])
    (fastforce simp: Let_def split: if_splits)

text \<open>without a release by the other core, \<^verbatim>\<open>spinlock_acquire\<close> of a lock that is held never returns
  (a second acquire on one core deadlocks).\<close>

theorem spinlock_reacquire_deadlocks:
  assumes "l \<noteq> 0"
  shows "spinlock_acquire (\<lambda>_ l. l) l = None"
  using spin_held_forever [of "\<lambda>_ l. l" False 0 l] assms
  by (auto simp: spinlock_acquire_def intro: ccontr)

theorem spinlock_acquire_takes_witness:
  "spinlock_acquire (\<lambda>j l. if j = 5 then 0 else l) 1 = Some (7, 1)"
  using spinlock_acquire_takes [of 1 "\<lambda>j l. if j = 5 then 0 else l" 4] by simp

theorem spinlock_reacquire_deadlocks_witness:
  "spinlock_acquire (\<lambda>_ l. l) (snd (the (spinlock_acquire (\<lambda>_ l. l) (spinlock_init 7)))) = None"
proof -
  have "spinlock_acquire (\<lambda>_ l. l) (spinlock_init 7) = Some (1, 1)"
    by (simp add: spinlock_init_def spinlock_acquire_def spin_acquire_step(1))
  then show ?thesis using spinlock_reacquire_deadlocks [of 1] by simp
qed


section \<open>The interface of a cell of the kernel state\<close>

text \<open>What the operations rely on: the cell can be read and updated, and is apart from the processor
  status register, the cpu state and the task store.\<close>

locale kernel_cell =
  fixes get :: "'a kstate_scheme \<Rightarrow> 'm"
    and upd :: "('m \<Rightarrow> 'm) \<Rightarrow> 'a kstate_scheme \<Rightarrow> 'a kstate_scheme"
  assumes get_upd: "get (upd f s) = f (get s)"
    and upd_upd: "upd f (upd g s) = upd (\<lambda>m. f (g m)) s"
    and upd_id: "upd (\<lambda>m. m) s = s"
    and upd_cong: "f (get s) = g (get s) \<Longrightarrow> upd f s = upd g s"
    and get_psr: "get (s\<lparr>psr := p\<rparr>) = get s"
    and upd_psr: "(upd f s)\<lparr>psr := p\<rparr> = upd f (s\<lparr>psr := p\<rparr>)"
    and psr_upd: "psr (upd f s) = psr s"
    and cpu0_upd: "cpu0 (upd f s) = cpu0 s"
begin

lemmas cell_simps = get_upd upd_upd get_psr psr_upd cpu0_upd

lemma psr_restored: "(upd f (s\<lparr>psr := p\<rparr>))\<lparr>psr := psr s\<rparr> = upd f s"
proof -
  have "s\<lparr>psr := psr s\<rparr> = s" by simp
  then show ?thesis by (simp add: upd_psr)
qed

end

text \<open>A mutex: the operations of one task.\<close>

locale mutex_cell = kernel_cell get upd
  for get :: "'a kstate_scheme \<Rightarrow> mutex" and upd
begin

lemma lock_free:
  assumes "current_task (cpu0 s) = c" "c \<noteq> NULL" "m_locked (get s) = 0"
  shows "mutex_lock sw get upd s = Some (upd (\<lambda>m. m\<lparr>m_locked := 1, m_owner := c, m_count := 1\<rparr>) s)"
proof -
  have spin: "mutex_spin sw get upd p (s\<lparr>psr := q\<rparr>) = Some (p, upd (\<lambda>m. m\<lparr>m_locked := 1\<rparr>) (s\<lparr>psr := q\<rparr>))"
    for p q using assms(3) by (subst mutex_spin.simps) (simp add: get_psr)
  show ?thesis
    using assms by (simp add: mutex_lock_def spin get_psr upd_upd psr_restored)
qed

lemma lock_again:
  assumes "current_task (cpu0 s) = c" "c \<noteq> NULL" "m_locked (get s) \<noteq> 0" "m_owner (get s) = c"
  shows "mutex_lock sw get upd s = Some (upd (\<lambda>m. m\<lparr>m_count := m_count m + 1\<rparr>) s)"
  using assms by (simp add: mutex_lock_def get_psr psr_restored)

lemma unlock_owner:
  assumes "current_task (cpu0 s) = c" "c \<noteq> NULL" "m_owner (get s) = c"
  shows "mutex_unlock get upd s =
    (if 1 < m_count (get s) then upd (\<lambda>m. m\<lparr>m_count := m_count m - 1\<rparr>) s
     else upd (\<lambda>m. m\<lparr>m_count := m_count m - 1, m_owner := NULL, m_locked := 0\<rparr>) s)"
  using assms by (simp add: mutex_unlock_def get_upd upd_upd)

lemma unlock_other:
  "m_owner (get s) \<noteq> current_task (cpu0 s) \<Longrightarrow> mutex_unlock get upd s = s"
  by (simp add: mutex_unlock_def)

lemma lock_no_task: "current_task (cpu0 s) = NULL \<Longrightarrow> mutex_lock sw get upd s = Some s"
  by (simp add: mutex_lock_def)

lemma unlock_no_task: "current_task (cpu0 s) = NULL \<Longrightarrow> mutex_unlock get upd s = s"
  by (simp add: mutex_unlock_def)

text \<open>A lock of a free mutex and the matching unlock.\<close>

lemma lock_zero:
  assumes "get s = mutex_zero" "current_task (cpu0 s) = c" "c \<noteq> NULL"
  shows "mutex_lock sw get upd s = Some (upd (\<lambda>_. mutex_held c) s)"
proof -
  have "upd (\<lambda>m. m\<lparr>m_locked := 1, m_owner := c, m_count := 1\<rparr>) s = upd (\<lambda>_. mutex_held c) s"
    by (rule upd_cong) (simp add: assms mutex_zero_def mutex_held_def)
  then show ?thesis using lock_free [OF assms(2,3)] assms(1) by (simp add: mutex_zero_def)
qed

lemma unlock_held:
  assumes "get s = mutex_held c" "current_task (cpu0 s) = c" "c \<noteq> NULL"
  shows "mutex_unlock get upd s = upd (\<lambda>_. mutex_zero) s"
proof -
  have "upd (\<lambda>m. m\<lparr>m_count := m_count m - 1, m_owner := NULL, m_locked := 0\<rparr>) s
      = upd (\<lambda>_. mutex_zero) s"
    by (rule upd_cong) (simp add: assms mutex_zero_def mutex_held_def)
  then show ?thesis using unlock_owner [OF assms(2,3)] assms(1) by (simp add: mutex_held_def)
qed

text \<open>Whoever returns from \<^verbatim>\<open>mutex_lock\<close> owns the mutex.\<close>

lemma spin_locked:
  "mutex_spin sw g u p s = Some r \<Longrightarrow> g = get \<Longrightarrow> u = upd \<Longrightarrow> m_locked (get (snd r)) = 1"
  by (induction sw g u p s r rule: mutex_spin.raw_induct [rotated, consumes 1, case_names step])
    (auto simp: Let_def get_upd split: if_splits bind_splits)

lemma lock_owner:
  assumes "mutex_lock sw get upd s = Some s'" "current_task (cpu0 s) = c" "c \<noteq> NULL"
    "0 \<le> m_count (get s)"
  shows "m_owner (get s') = c \<and> m_locked (get s') \<noteq> 0 \<and> 1 \<le> m_count (get s')"
  using assms by (auto simp: mutex_lock_def Let_def get_psr get_upd split: if_splits bind_splits
      dest: spin_locked)

text \<open>Mutual exclusion: the loop does not end while the holder keeps the mutex.\<close>

lemma spin_held:
  "mutex_spin sw g u p s = Some r \<Longrightarrow> g = get \<Longrightarrow> u = upd \<Longrightarrow> m_locked (get s) \<noteq> 0 \<Longrightarrow>
   (\<And>s s'. task_yield sw s = Some s' \<Longrightarrow> m_locked (get s) \<noteq> 0 \<Longrightarrow> m_locked (get s') \<noteq> 0) \<Longrightarrow> False"
proof (induction sw g u p s r rule: mutex_spin.raw_induct [rotated, consumes 1, case_names step])
  case (step f sw g u p s r)
  let ?s = "upd (\<lambda>m. m\<lparr>m_locked := 1\<rparr>) s\<lparr>psr := p\<rparr>"
  from step.prems step.hyps obtain s1 where y: "task_yield sw ?s = Some s1"
    and f: "f sw g u (psr s1) (s1\<lparr>psr := psr s1 OR 0xF\<rparr>) = Some r"
    by (auto simp: Let_def split: bind_splits)
  have "m_locked (get s1) \<noteq> 0" using step.prems(4) [OF y] by (simp add: get_psr get_upd)
  then show ?case using step.IH [OF f step.prems(1,2)] step.prems(4) by (simp add: get_psr)
qed

lemma lock_excludes:
  assumes "current_task (cpu0 s) \<noteq> NULL" "m_owner (get s) \<noteq> current_task (cpu0 s)" "m_locked (get s) \<noteq> 0"
    and "\<And>s s'. task_yield sw s = Some s' \<Longrightarrow> m_locked (get s) \<noteq> 0 \<Longrightarrow> m_locked (get s') \<noteq> 0"
  shows "mutex_lock sw get upd s = None"
proof (rule ccontr)
  assume "mutex_lock sw get upd s \<noteq> None"
  then obtain r where "mutex_spin sw get upd (psr s) (s\<lparr>psr := psr s OR 0xF\<rparr>) = Some r"
    using assms(1,2) by (auto simp: mutex_lock_def Let_def get_psr split: if_splits bind_splits)
  from spin_held [OF this refl refl _ assms(4)] assms(3) show False by (simp add: get_psr)
qed

end

section \<open>Semaphores: the waiters\<close>

text \<open>The waiters are linked through \<^verbatim>\<open>next\<close> only.\<close>

fun slist :: "(u32 \<Rightarrow> u32) \<Rightarrow> u32 \<Rightarrow> u32 list \<Rightarrow> bool" where
  "slist nx h [] \<longleftrightarrow> h = NULL"
| "slist nx h (x # xs) \<longleftrightarrow> h = x \<and> x \<noteq> NULL \<and> slist nx (nx x) xs"

lemma slist_fun_upd [simp]: "p \<notin> set xs \<Longrightarrow> slist (nx(p := v)) h xs = slist nx h xs"
  by (induction xs arbitrary: h) auto

lemma slist_cong: "(\<And>x. x \<in> set xs \<Longrightarrow> nx x = nx' x) \<Longrightarrow> slist nx h xs = slist nx' h xs"
  by (induction xs arbitrary: h) auto

text \<open>A kernel state with one semaphore.\<close>

record sem_state = kstate +
  sem0 :: semaphore

definition sem_rel :: "u32 list \<Rightarrow> 'a sem_state_scheme \<Rightarrow> bool" where
  "sem_rel ws s \<longleftrightarrow> slist (tnext s) (sem_waiters (sem0 s)) ws \<and> distinct ws
     \<and> (\<forall>p\<in>set ws. t_state (tasks s p) = TASK_STATE_BLOCKED)
     \<and> (ws \<noteq> [] \<longrightarrow> sem_count (sem0 s) \<le> 0)"

lemma sem0_frame [simp]:
  "sem0 (set_t_next p v s) = sem0 s" "sem0 (set_t_prev p v s) = sem0 s"
  "sem0 (set_t_state p st s) = sem0 s" "sem0 (set_queue i p s) = sem0 s"
  "sem0 (set_current p s) = sem0 s"
  by (simp_all add: task_set_defs)

lemma psr_links [simp]:
  "tnext (s\<lparr>psr := p\<rparr>) = tnext s" "tprev (s\<lparr>psr := p\<rparr>) = tprev s"
  "queue_index (s\<lparr>psr := p\<rparr>) = queue_index s"
  "sched_rel rq sq (s\<lparr>psr := p\<rparr>) = sched_rel rq sq s"
  by (simp_all add: fun_eq_iff tnext_def tprev_def queue_index_def cong: sched_rel_cong)

lemma sem0_links [simp]:
  "tnext (sem0_update f s) = tnext s" "tprev (sem0_update f s) = tprev s"
  "queue_index (sem0_update f s) = queue_index s"
  "sched_rel rq sq (sem0_update f s) = sched_rel rq sq s"
  by (simp_all add: fun_eq_iff tnext_def tprev_def queue_index_def cong: sched_rel_cong)

text \<open>The links that queueing a task changes: its own and no link of a task in no queue.\<close>

lemma enqueue_other_next:
  assumes "sched_rel rq sq s" "q \<noteq> p"
  shows "tnext (task_enqueue p s) q = tnext s q"
  using assms(2) by (simp add: task_enqueue_def Let_def)

lemma sem0_enqueue [simp]: "sem0 (task_enqueue p s) = sem0 s"
  by (simp add: task_enqueue_def Let_def)

lemma sem_rel_not_queued:
  "sched_rel rq sq s \<Longrightarrow> sem_rel ws s \<Longrightarrow> p \<in> set ws \<Longrightarrow> unqueued rq sq p"
  by (rule sched_rel_unqueued) (auto simp: sem_rel_def)


text \<open>C16: \<^verbatim>\<open>semaphore_wait\<close> by the running task: a positive count goes down by one and nothing else
  changes; otherwise the task is blocked, in front of the waiters, and the scheduler is called in
  a state with well-formed queues and the processor status restored.\<close>

theorem semaphore_wait_refines:
  assumes rel: "sched_rel rq sq s" and sem: "sem_rel ws s"
    and c: "current_task (cpu0 s) = c" "c \<noteq> NULL" "t_state (tasks s c) = TASK_STATE_RUNNING"
  shows "if 0 < sem_count (sem0 s)
    then semaphore_wait sw sem0 sem0_update s
           = Some (s\<lparr>sem0 := (sem0 s)\<lparr>sem_count := sem_count (sem0 s) - 1\<rparr>\<rparr>)
    else \<exists>s1. semaphore_wait sw sem0 sem0_update s = schedule sw s1
           \<and> sched_rel rq sq s1 \<and> sem_rel (c # ws) s1 \<and> psr s1 = psr s \<and> cpu0 s1 = cpu0 s"
proof (cases "0 < sem_count (sem0 s)")
  case True
  then show ?thesis using c by (simp add: semaphore_wait_def Let_def)
next
  case False
  let ?s1 = "set_t_state c TASK_STATE_BLOCKED (sem0_update (\<lambda>m. m\<lparr>sem_waiters := c\<rparr>)
      (set_t_next c (sem_waiters (sem0 s)) (s\<lparr>psr := psr s OR 0xF\<rparr>)))\<lparr>psr := psr s\<rparr>"
  have uq: "unqueued rq sq c" using sched_rel_unqueued [OF rel, of c] c(3) by simp
  have "c \<notin> set ws" using sem c(3) by (auto simp: sem_rel_def)
  then have "sem_rel (c # ws) ?s1" using sem c(2) False by (auto simp: sem_rel_def)
  moreover have "sched_rel rq sq ?s1"
    unfolding psr_links
    by (rule sched_rel_set_state [OF _ uq], unfold sem0_links, rule sched_rel_set_links(1) [OF _ uq])
      (simp add: rel)
  moreover have "semaphore_wait sw sem0 sem0_update s = schedule sw ?s1"
    using False c by (simp add: semaphore_wait_def Let_def)
  moreover have "psr ?s1 = psr s" "cpu0 ?s1 = cpu0 s" by simp_all
  ultimately show ?thesis using False by (simp only: if_False simp_thms) blast
qed

text \<open>The example state with a semaphore on which task \<open>0x5000\<close> waits.\<close>

definition demo_sem :: sem_state where
  "demo_sem = kstate.extend
     (demo_state 5\<lparr>tasks := demo_tasks(0x5000 := task_zero\<lparr>t_state := TASK_STATE_BLOCKED\<rparr>)\<rparr>)
     (sem_state.fields \<lparr>sem_count = 0, sem_waiters = 0x5000\<rparr>)"

lemma demo_sem_rel: "sched_rel demo_rq [0x3000] demo_sem" "sem_rel [0x5000] demo_sem"
proof -
  have t: "tasks demo_sem = (tasks (demo_state 5))(0x5000 := task_zero\<lparr>t_state := TASK_STATE_BLOCKED\<rparr>)"
    and q: "runnable_queue demo_sem = runnable_queue (demo_state 5)" "sleep_queue demo_sem = 0x3000"
      "sem0 demo_sem = \<lparr>sem_count = 0, sem_waiters = 0x5000\<rparr>"
    by (simp_all add: demo_sem_def kstate.defs sem_state.defs demo_state_def)
  have "tdll demo_sem (runnable_queue demo_sem ! i) (demo_rq i)" if "i < 32" for i
    using that by (cases "i = 16")
      (auto simp: t q demo_simps demo_rq_def tnext_def tprev_def nth_list_update)
  then show "sched_rel demo_rq [0x3000] demo_sem"
    by (auto simp: sched_rel_def t q demo_simps demo_rq_def tnext_def tprev_def split: if_splits)
  show "sem_rel [0x5000] demo_sem"
    by (simp add: sem_rel_def t q demo_simps tnext_def)
qed


theorem semaphore_wait_refines_witness:
  "\<exists>s1. semaphore_wait (\<lambda>_ _. Some) sem0 sem0_update demo_sem = schedule (\<lambda>_ _. Some) s1
      \<and> sem_rel [0x1000, 0x5000] s1"
proof -
  have "current_task (cpu0 demo_sem) = 0x1000" "t_state (tasks demo_sem 0x1000) = TASK_STATE_RUNNING"
    "sem_count (sem0 demo_sem) = 0"
    by (simp_all add: demo_sem_def kstate.defs sem_state.defs demo_simps)
  then show ?thesis
    using semaphore_wait_refines [OF demo_sem_rel, of "0x1000" "\<lambda>_ _. Some"] by auto
qed

end
