(* ===== verification/Memory.thy ===== *)
theory Memory
  imports Sync CString
begin

text \<open>
  \<^verbatim>\<open>src/kernel/memory/memory.c\<close>: the kernel heap.  Block headers are in the byte memory, at the
  offsets of \<^verbatim>\<open>struct heap_block\<close> on the 32 bit target (magic 0, size 4, free 8, region 9,
  next 12, prev 16; 20 bytes in all), so that overlapping headers have their real effect.  The
  two regions and the lock are part of the state.  Loops over block lists are partial functions:
  a cyclic list has no result.
\<close>

section \<open>State\<close>

abbreviation (input) HEAP_MAGIC :: u32 where "HEAP_MAGIC \<equiv> 0xDEADBEEF"
abbreviation (input) HEAP_FREE_MAGIC :: u32 where "HEAP_FREE_MAGIC \<equiv> 0xFEEBFEEB"
abbreviation (input) HEAP_MIN_BLOCK :: u32 where "HEAP_MIN_BLOCK \<equiv> 16"
abbreviation (input) HEAP_ALIGN :: u32 where "HEAP_ALIGN \<equiv> 8"
abbreviation (input) MEM_REGION_INTERNAL :: nat where "MEM_REGION_INTERNAL \<equiv> 0"
abbreviation (input) MEM_REGION_PSRAM :: nat where "MEM_REGION_PSRAM \<equiv> 1"

text \<open>\<^verbatim>\<open>sizeof(struct heap_block)\<close>\<close>

abbreviation (input) HDR :: u32 where "HDR \<equiv> 20"

record mem_region =
  r_start :: u32
  r_end :: u32
  r_size :: u32
  r_used :: u32
  r_free :: u32
  r_free_list :: u32
  r_block_list :: u32
  r_initialized :: int
  r_name :: string

definition mem_region_zero :: mem_region where
  "mem_region_zero = \<lparr>r_start = 0, r_end = 0, r_size = 0, r_used = 0, r_free = 0,
     r_free_list = NULL, r_block_list = NULL, r_initialized = 0, r_name = []\<rparr>"

record mstate = kstate +
  mem :: mem
  regions :: "mem_region list"
  num_regions :: int
  psram_available :: int
  heap_lock :: mutex

text \<open>Header fields.\<close>

definition hb_magic :: "'a mstate_scheme \<Rightarrow> u32 \<Rightarrow> u32" where "hb_magic s b = ld32 (mem s) b"
definition hb_size :: "'a mstate_scheme \<Rightarrow> u32 \<Rightarrow> u32" where "hb_size s b = ld32 (mem s) (b + 4)"
definition hb_free :: "'a mstate_scheme \<Rightarrow> u32 \<Rightarrow> u8" where "hb_free s b = mem s (b + 8)"
definition hb_region :: "'a mstate_scheme \<Rightarrow> u32 \<Rightarrow> u8" where "hb_region s b = mem s (b + 9)"
definition hb_next :: "'a mstate_scheme \<Rightarrow> u32 \<Rightarrow> u32" where "hb_next s b = ld32 (mem s) (b + 12)"
definition hb_prev :: "'a mstate_scheme \<Rightarrow> u32 \<Rightarrow> u32" where "hb_prev s b = ld32 (mem s) (b + 16)"

definition set_hb_magic :: "u32 \<Rightarrow> u32 \<Rightarrow> 'a mstate_scheme \<Rightarrow> 'a mstate_scheme" where
  "set_hb_magic b v s = s\<lparr>mem := st32 (mem s) b v\<rparr>"
definition set_hb_size :: "u32 \<Rightarrow> u32 \<Rightarrow> 'a mstate_scheme \<Rightarrow> 'a mstate_scheme" where
  "set_hb_size b v s = s\<lparr>mem := st32 (mem s) (b + 4) v\<rparr>"
definition set_hb_free :: "u32 \<Rightarrow> u8 \<Rightarrow> 'a mstate_scheme \<Rightarrow> 'a mstate_scheme" where
  "set_hb_free b v s = s\<lparr>mem := (mem s)(b + 8 := v)\<rparr>"
definition set_hb_region :: "u32 \<Rightarrow> u8 \<Rightarrow> 'a mstate_scheme \<Rightarrow> 'a mstate_scheme" where
  "set_hb_region b v s = s\<lparr>mem := (mem s)(b + 9 := v)\<rparr>"
definition set_hb_next :: "u32 \<Rightarrow> u32 \<Rightarrow> 'a mstate_scheme \<Rightarrow> 'a mstate_scheme" where
  "set_hb_next b v s = s\<lparr>mem := st32 (mem s) (b + 12) v\<rparr>"
definition set_hb_prev :: "u32 \<Rightarrow> u32 \<Rightarrow> 'a mstate_scheme \<Rightarrow> 'a mstate_scheme" where
  "set_hb_prev b v s = s\<lparr>mem := st32 (mem s) (b + 16) v\<rparr>"

definition upd_region :: "nat \<Rightarrow> (mem_region \<Rightarrow> mem_region) \<Rightarrow> 'a mstate_scheme \<Rightarrow> 'a mstate_scheme" where
  "upd_region i f s = s\<lparr>regions := (regions s)[i := f (regions s ! i)]\<rparr>"


section \<open>Operations\<close>

text \<open>\<^verbatim>\<open>region_for_ptr\<close>: the loop from region \<open>i\<close> with \<open>n\<close> regions left.\<close>

fun region_for_ptr_from :: "nat \<Rightarrow> nat \<Rightarrow> u32 \<Rightarrow> 'a mstate_scheme \<Rightarrow> int" where
  "region_for_ptr_from 0 i addr s = -1"
| "region_for_ptr_from (Suc n) i addr s =
     (if r_start (regions s ! i) \<le> addr \<and> addr < r_end (regions s ! i) then int i
      else region_for_ptr_from n (Suc i) addr s)"

definition region_for_ptr :: "u32 \<Rightarrow> 'a mstate_scheme \<Rightarrow> int" where
  "region_for_ptr addr s = region_for_ptr_from (nat (num_regions s)) 0 addr s"

type_synonym 'a switch = "u32 \<Rightarrow> u32 \<Rightarrow> 'a mstate_scheme \<Rightarrow> 'a mstate_scheme option"

definition heap_lock_acquire :: "'a switch \<Rightarrow> 'a mstate_scheme \<Rightarrow> 'a mstate_scheme option" where
  "heap_lock_acquire sw s = mutex_lock sw heap_lock heap_lock_update s"

definition heap_lock_release :: "'a mstate_scheme \<Rightarrow> 'a mstate_scheme" where
  "heap_lock_release s = mutex_unlock heap_lock heap_lock_update s"

definition region_init :: "nat \<Rightarrow> string \<Rightarrow> u32 \<Rightarrow> u32 \<Rightarrow> 'a mstate_scheme \<Rightarrow> 'a mstate_scheme" where
  "region_init i name start fin s =
     upd_region i (\<lambda>r. \<lparr>r_start = start, r_end = fin, r_size = fin - start, r_used = 0, r_free = 0,
       r_free_list = NULL, r_block_list = NULL, r_initialized = 1, r_name = take 15 name\<rparr>) s"

definition region_add_block :: "nat \<Rightarrow> u32 \<Rightarrow> 'a mstate_scheme \<Rightarrow> 'a mstate_scheme" where
  "region_add_block i block s =
     (let s = set_hb_next block (r_block_list (regions s ! i)) s;
          s = (if r_block_list (regions s ! i) \<noteq> NULL
               then set_hb_prev (r_block_list (regions s ! i)) block s else s)
      in upd_region i (\<lambda>r. r\<lparr>r_block_list := block\<rparr>) s)"

partial_function (option) find_loop :: "u32 \<Rightarrow> u32 \<Rightarrow> u32 \<Rightarrow> 'a mstate_scheme \<Rightarrow> u32 option" where
  "find_loop sz best block s =
     (if block = NULL then Some best
      else find_loop sz
             (if hb_free s block \<noteq> 0 \<and> sz \<le> hb_size s block
                 \<and> (best = NULL \<or> hb_size s block < hb_size s best) then block else best)
             (hb_next s block) s)"

definition region_find_free :: "nat \<Rightarrow> u32 \<Rightarrow> 'a mstate_scheme \<Rightarrow> u32 option" where
  "region_find_free i sz s = find_loop sz NULL (r_free_list (regions s ! i)) s"

definition region_remove_free :: "nat \<Rightarrow> u32 \<Rightarrow> 'a mstate_scheme \<Rightarrow> 'a mstate_scheme" where
  "region_remove_free i block s =
     (let s = unlink_node hb_next hb_prev set_hb_next set_hb_prev block s;
          s = (if r_free_list (regions s ! i) = block
               then upd_region i (\<lambda>r. r\<lparr>r_free_list := hb_next s block\<rparr>) s else s)
      in set_hb_next block NULL (set_hb_prev block NULL s))"

definition region_add_free :: "nat \<Rightarrow> u32 \<Rightarrow> 'a mstate_scheme \<Rightarrow> 'a mstate_scheme" where
  "region_add_free i block s =
     (let s = set_hb_next block (r_free_list (regions s ! i)) s;
          s = set_hb_prev block NULL s;
          s = (if r_free_list (regions s ! i) \<noteq> NULL
               then set_hb_prev (r_free_list (regions s ! i)) block s else s)
      in upd_region i (\<lambda>r. r\<lparr>r_free_list := block\<rparr>) s)"

definition region_split_block :: "nat \<Rightarrow> u32 \<Rightarrow> u32 \<Rightarrow> 'a mstate_scheme \<Rightarrow> 'a mstate_scheme" where
  "region_split_block i block sz s =
     (if hb_size s block < sz + HDR + HEAP_MIN_BLOCK then s
      else let new_block = block + HDR + sz;
               s = set_hb_magic new_block HEAP_MAGIC s;
               s = set_hb_size new_block (hb_size s block - sz - HDR) s;
               s = set_hb_free new_block 1 s;
               s = set_hb_region new_block (hb_region s block) s;
               s = set_hb_next new_block (hb_next s block) s;
               s = set_hb_prev new_block block s;
               s = (if hb_next s block \<noteq> NULL then set_hb_prev (hb_next s block) new_block s else s);
               s = set_hb_next block new_block s;
               s = set_hb_size block sz s;
               s = region_add_block i new_block s;
               s = region_add_free i new_block s
           in upd_region i (\<lambda>r. r\<lparr>r_free := r_free r + (hb_size s new_block + HDR)\<rparr>) s)"

text \<open>The two halves of \<^verbatim>\<open>region_coalesce\<close>.  The links are read again after each store, as the
  source does; a link that has become null is dereferenced and faults.\<close>

definition coalesce_next :: "nat \<Rightarrow> u32 \<Rightarrow> 'a mstate_scheme \<Rightarrow> 'a mstate_scheme option" where
  "coalesce_next i block s =
     (if hb_next s block \<noteq> NULL \<and> hb_free s (hb_next s block) \<noteq> 0
      then let s = region_remove_free i (hb_next s block) s
           in if hb_next s block = NULL then None
              else let s = set_hb_size block (hb_size s block + (HDR + hb_size s (hb_next s block))) s;
                       s = set_hb_next block (hb_next s (hb_next s block)) s
                   in Some (if hb_next s block \<noteq> NULL then set_hb_prev (hb_next s block) block s else s)
      else Some s)"

definition coalesce_prev :: "nat \<Rightarrow> u32 \<Rightarrow> 'a mstate_scheme \<Rightarrow> (u32 \<times> 'a mstate_scheme) option" where
  "coalesce_prev i block s =
     (if hb_prev s block \<noteq> NULL \<and> hb_free s (hb_prev s block) \<noteq> 0
      then let s = region_remove_free i (hb_prev s block) s
           in if hb_prev s block = NULL then None
              else let p = hb_prev s block;
                       s = set_hb_size p (hb_size s p + (HDR + hb_size s block)) s;
                       s = set_hb_next (hb_prev s block) (hb_next s block) s;
                       s = (if hb_next s block \<noteq> NULL
                            then set_hb_prev (hb_next s block) (hb_prev s block) s else s)
                   in Some (hb_prev s block, s)
      else Some (block, s))"

definition region_coalesce :: "nat \<Rightarrow> u32 \<Rightarrow> 'a mstate_scheme \<Rightarrow> 'a mstate_scheme option" where
  "region_coalesce i block s =
     do { s \<leftarrow> coalesce_next i block s;
          (block, s) \<leftarrow> coalesce_prev i block s;
          Some (region_add_free i block s) }"

text \<open>\<^verbatim>\<open>memory_init\<close>: the heap is between the linker symbols \<open>heap_start\<close> and \<open>heap_end\<close>; \<open>psram_rc\<close>
  is the result of \<^verbatim>\<open>psram_init\<close>.\<close>

abbreviation (input) PSRAM_BASE :: u32 where "PSRAM_BASE \<equiv> 0x3F800000"
abbreviation (input) PSRAM_SIZE :: u32 where "PSRAM_SIZE \<equiv> 0x800000"

definition psram_get_size :: u32 where
  "psram_get_size = PSRAM_SIZE"

definition first_block :: "nat \<Rightarrow> u32 \<Rightarrow> 'a mstate_scheme \<Rightarrow> 'a mstate_scheme" where
  "first_block i sz s =
     (let block = r_start (regions s ! i);
          s = set_hb_magic block HEAP_MAGIC s;
          s = set_hb_size block sz s;
          s = set_hb_free block 1 s;
          s = set_hb_region block (of_nat i) s;
          s = set_hb_next block NULL s;
          s = set_hb_prev block NULL s;
          s = region_add_block i block s;
          s = region_add_free i block s
      in upd_region i (\<lambda>r. r\<lparr>r_free := hb_size s block\<rparr>) s)"

definition memory_init :: "u32 \<Rightarrow> u32 \<Rightarrow> int \<Rightarrow> 'a mstate_scheme \<Rightarrow> 'a mstate_scheme" where
  "memory_init heap_start heap_end psram_rc s =
     (let s = mutex_init heap_lock_update s;
          s = region_init MEM_REGION_INTERNAL ''internal'' heap_start heap_end s;
          s = s\<lparr>num_regions := 1\<rparr>;
          heap_size = r_end (regions s ! 0) - r_start (regions s ! 0);
          s = first_block MEM_REGION_INTERNAL (heap_size - HDR) s
      in if psram_rc = 0
         then let s = s\<lparr>psram_available := 1\<rparr>;
                  s = region_init MEM_REGION_PSRAM ''psram'' PSRAM_BASE (PSRAM_BASE + psram_get_size) s;
                  s = s\<lparr>num_regions := 2\<rparr>;
                  psram_heap_size = r_size (regions s ! 1) - HDR
              in first_block MEM_REGION_PSRAM (psram_heap_size - HDR) s
         else s)"

text \<open>The bookkeeping that ends an allocation.\<close>

definition take_block :: "nat \<Rightarrow> u32 \<Rightarrow> 'a mstate_scheme \<Rightarrow> 'a mstate_scheme" where
  "take_block i block s =
     (let s = set_hb_free block 0 s;
          s = set_hb_magic block HEAP_MAGIC s
      in upd_region i (\<lambda>r. r\<lparr>r_used := r_used r + (hb_size s block + HDR),
                             r_free := r_free r - (hb_size s block + HDR)\<rparr>) s)"

definition region_alloc :: "'a switch \<Rightarrow> nat \<Rightarrow> u32 \<Rightarrow> 'a mstate_scheme \<Rightarrow> (u32 \<times> 'a mstate_scheme) option" where
  "region_alloc sw i sz s =
     do { s \<leftarrow> heap_lock_acquire sw s;
          block \<leftarrow> region_find_free i sz s;
          if block = NULL then Some (NULL, heap_lock_release s)
          else let s = region_remove_free i block s;
                   s = region_split_block i block sz s;
                   s = take_block i block s
               in Some (block + HDR, heap_lock_release s) }"

definition round_up :: "u32 \<Rightarrow> u32" where
  "round_up sz = (sz + HEAP_ALIGN - 1) AND NOT (HEAP_ALIGN - 1)"

definition kmalloc :: "'a switch \<Rightarrow> u32 \<Rightarrow> 'a mstate_scheme \<Rightarrow> (u32 \<times> 'a mstate_scheme) option" where
  "kmalloc sw sz s =
     (if sz = 0 then Some (NULL, s) else region_alloc sw MEM_REGION_INTERNAL (round_up sz) s)"

definition kzalloc :: "'a switch \<Rightarrow> u32 \<Rightarrow> 'a mstate_scheme \<Rightarrow> (u32 \<times> 'a mstate_scheme) option" where
  "kzalloc sw sz s =
     do { (ptr, s) \<leftarrow> kmalloc sw sz s;
          Some (ptr, if ptr \<noteq> NULL then s\<lparr>mem := memset ptr 0 sz (mem s)\<rparr> else s) }"

definition kfree :: "'a switch \<Rightarrow> u32 \<Rightarrow> 'a mstate_scheme \<Rightarrow> 'a mstate_scheme option" where
  "kfree sw ptr s =
     (if ptr = NULL then Some s
      else do {
        s \<leftarrow> heap_lock_acquire sw s;
        let block = ptr - HDR;
        let idx = uint (hb_region s block);
        if num_regions s \<le> idx \<or> hb_magic s block \<noteq> HEAP_MAGIC then Some (heap_lock_release s)
        else if hb_free s block \<noteq> 0 then Some (heap_lock_release s)
        else do {
          let s = set_hb_free block 1 s;
          let s = set_hb_magic block HEAP_FREE_MAGIC s;
          let s = upd_region (nat idx)
                    (\<lambda>r. r\<lparr>r_used := r_used r - (hb_size s block + HDR),
                           r_free := r_free r + (hb_size s block + HDR)\<rparr>) s;
          s \<leftarrow> region_coalesce (nat idx) block s;
          Some (heap_lock_release s) } })"

text \<open>\<^verbatim>\<open>kmalloc_aligned\<close>: the header placed inside the payload of the block, when the payload is not
  aligned.\<close>

definition place_pre_block :: "nat \<Rightarrow> u32 \<Rightarrow> u32 \<Rightarrow> 'a mstate_scheme \<Rightarrow> 'a mstate_scheme" where
  "place_pre_block i block ofs s =
     (let pre_block = block + HDR + ofs - HDR;
          s = set_hb_magic pre_block HEAP_MAGIC s;
          s = set_hb_size pre_block ofs s;
          s = set_hb_free pre_block 0 s;
          s = set_hb_region pre_block (of_nat i) s;
          s = set_hb_next pre_block (hb_next s block) s;
          s = set_hb_prev pre_block block s;
          s = (if hb_next s block \<noteq> NULL then set_hb_prev (hb_next s block) pre_block s else s);
          s = set_hb_next block pre_block s;
          s = set_hb_size block (hb_size s block - (ofs + HDR)) s;
          s = region_add_block i pre_block s
      in upd_region i (\<lambda>r. r\<lparr>r_used := r_used r + (hb_size s pre_block + HDR),
                             r_free := r_free r - (hb_size s pre_block + HDR)\<rparr>) s)"

partial_function (option) aligned_loop ::
  "nat \<Rightarrow> u32 \<Rightarrow> u32 \<Rightarrow> u32 \<Rightarrow> 'a mstate_scheme \<Rightarrow> (u32 option \<times> 'a mstate_scheme) option" where
  "aligned_loop i sz align block s =
     (if block = NULL then Some (None, s)
      else let block_addr = block + HDR;
               aligned_addr = (block_addr + align - 1) AND NOT (align - 1);
               ofs = aligned_addr - block_addr
           in if hb_free s block \<noteq> 0 \<and> sz \<le> hb_size s block
                 \<and> sz + ofs + HDR + HEAP_MIN_BLOCK \<le> hb_size s block
              then let s = (if 0 < ofs then place_pre_block i block ofs s else s);
                       s = region_remove_free i block s;
                       s = region_split_block i block sz s;
                       s = take_block i block s
                   in Some (Some (block + HDR), s)
              else aligned_loop i sz align (hb_next s block) s)"

text \<open>The loop over the regions, with \<open>n\<close> regions left.\<close>

fun aligned_regions ::
  "nat \<Rightarrow> nat \<Rightarrow> u32 \<Rightarrow> u32 \<Rightarrow> 'a mstate_scheme \<Rightarrow> (u32 \<times> 'a mstate_scheme) option" where
  "aligned_regions 0 i sz align s = Some (NULL, s)"
| "aligned_regions (Suc n) i sz align s =
     do { (p, s) \<leftarrow> aligned_loop i sz align (r_free_list (regions s ! i)) s;
          case p of Some q \<Rightarrow> Some (q, s) | None \<Rightarrow> aligned_regions n (Suc i) sz align s }"

definition kmalloc_aligned ::
  "'a switch \<Rightarrow> u32 \<Rightarrow> u32 \<Rightarrow> 'a mstate_scheme \<Rightarrow> (u32 \<times> 'a mstate_scheme) option" where
  "kmalloc_aligned sw sz align s =
     (if sz = 0 then Some (NULL, s)
      else let align = (if align = 0 then HEAP_ALIGN else align)
           in if align AND (align - 1) \<noteq> 0 then Some (NULL, s)
              else do {
                s \<leftarrow> heap_lock_acquire sw s;
                (p, s) \<leftarrow> aligned_regions (nat (num_regions s)) 0 sz align s;
                Some (p, heap_lock_release s) })"

definition kmalloc_psram :: "'a switch \<Rightarrow> u32 \<Rightarrow> 'a mstate_scheme \<Rightarrow> (u32 \<times> 'a mstate_scheme) option" where
  "kmalloc_psram sw sz s =
     (if sz = 0 then Some (NULL, s)
      else if psram_available s = 0 then Some (NULL, s)
      else region_alloc sw MEM_REGION_PSRAM (round_up sz) s)"

definition kzalloc_psram :: "'a switch \<Rightarrow> u32 \<Rightarrow> 'a mstate_scheme \<Rightarrow> (u32 \<times> 'a mstate_scheme) option" where
  "kzalloc_psram sw sz s =
     do { (ptr, s) \<leftarrow> kmalloc_psram sw sz s;
          Some (ptr, if ptr \<noteq> NULL then s\<lparr>mem := memset ptr 0 sz (mem s)\<rparr> else s) }"

definition kfree_psram :: "'a switch \<Rightarrow> u32 \<Rightarrow> 'a mstate_scheme \<Rightarrow> 'a mstate_scheme option" where
  "kfree_psram sw ptr s = (if ptr = NULL then Some s else kfree sw ptr s)"

definition krealloc :: "'a switch \<Rightarrow> u32 \<Rightarrow> u32 \<Rightarrow> 'a mstate_scheme \<Rightarrow> (u32 \<times> 'a mstate_scheme) option" where
  "krealloc sw ptr sz s =
     (if ptr = NULL then kmalloc sw sz s
      else if sz = 0 then do { s \<leftarrow> kfree sw ptr s; Some (NULL, s) }
      else do {
        s \<leftarrow> heap_lock_acquire sw s;
        let block = ptr - HDR;
        let idx = uint (hb_region s block);
        if num_regions s \<le> idx \<or> hb_magic s block \<noteq> HEAP_MAGIC \<or> hb_free s block \<noteq> 0
        then Some (NULL, heap_lock_release s)
        else let sz = round_up sz; nxt = hb_next s block in
          if sz \<le> hb_size s block
          then Some (ptr, heap_lock_release
                 (if sz + HDR + HEAP_MIN_BLOCK \<le> hb_size s block
                  then region_split_block (nat idx) block sz s else s))
          else if nxt \<noteq> NULL \<and> hb_free s nxt \<noteq> 0 \<and> sz \<le> hb_size s block + HDR + hb_size s nxt
          then let s = region_remove_free (nat idx) nxt s;
                   s = set_hb_size block (hb_size s block + (HDR + hb_size s nxt)) s;
                   s = (if sz + HDR + HEAP_MIN_BLOCK \<le> hb_size s block
                        then region_split_block (nat idx) block sz s else s);
                   s = upd_region (nat idx) (\<lambda>r. r\<lparr>r_used := r_used r + hb_size s block,
                                                    r_free := r_free r - hb_size s block\<rparr>) s
               in Some (ptr, heap_lock_release s)
          else do {
            (new_ptr, s) \<leftarrow> kmalloc sw sz (heap_lock_release s);
            if new_ptr \<noteq> NULL
            then do { s \<leftarrow> kfree sw ptr (s\<lparr>mem := memcpy new_ptr ptr (hb_size s block) (mem s)\<rparr>);
                      Some (new_ptr, s) }
            else Some (new_ptr, s) } })"


subsection \<open>Statistics and the consistency check\<close>

text \<open>Total, used and free.\<close>

definition memory_stats :: "'a mstate_scheme \<Rightarrow> u32 \<times> u32 \<times> u32" where
  "memory_stats s =
     (let rs = take (nat (num_regions s)) (regions s)
      in (sum_list (map r_size rs), sum_list (map r_used rs), sum_list (map r_free rs)))"

partial_function (option) count_blocks :: "u32 \<Rightarrow> u32 \<Rightarrow> 'a mstate_scheme \<Rightarrow> u32 option" where
  "count_blocks block n s =
     (if block = NULL then Some n else count_blocks (hb_next s block) (n + 1) s)"

definition memory_region_stats :: "int \<Rightarrow> 'a mstate_scheme \<Rightarrow> (u32 \<times> u32 \<times> u32 \<times> u32) option" where
  "memory_region_stats region s =
     (if region < 0 \<or> num_regions s \<le> region then Some (0, 0, 0, 0)
      else let r = regions s ! nat region
           in do { n \<leftarrow> count_blocks (r_block_list r) 0 s;
                   Some (r_size r, r_used r, r_free r, n) })"

record mem_region_info =
  mi_start :: u32
  mi_end :: u32
  mi_size :: u32
  mi_used :: u32
  mi_free :: u32
  mi_name :: string

definition memory_get_regions :: "int \<Rightarrow> 'a mstate_scheme \<Rightarrow> mem_region_info list" where
  "memory_get_regions max_regions s =
     map (\<lambda>r. \<lparr>mi_start = r_start r, mi_end = r_end r, mi_size = r_size r, mi_used = r_used r,
               mi_free = r_free r, mi_name = take 15 (r_name r)\<rparr>)
       (take (nat (if max_regions < num_regions s then max_regions else num_regions s)) (regions s))"

text \<open>The checks of one block, in order; 0 when all pass.\<close>

definition check_block :: "mem_region \<Rightarrow> u32 \<Rightarrow> 'a mstate_scheme \<Rightarrow> int" where
  "check_block r block s =
     (if hb_magic s block \<noteq> HEAP_MAGIC \<and> hb_magic s block \<noteq> HEAP_FREE_MAGIC then -1
      else if hb_size s block = 0 \<and> hb_free s block \<noteq> 0 then -2
      else if block < r_start r \<or> r_end r \<le> block then -3
      else if hb_next s block \<noteq> NULL \<and> hb_prev s (hb_next s block) \<noteq> block then -4
      else if hb_prev s block \<noteq> NULL \<and> hb_next s (hb_prev s block) \<noteq> block then -5
      else 0)"

text \<open>The walk over the block list: \<open>Inl\<close> an error code, \<open>Inr\<close> the total.\<close>

partial_function (option) check_walk ::
  "mem_region \<Rightarrow> u32 \<Rightarrow> u32 \<Rightarrow> 'a mstate_scheme \<Rightarrow> (int + u32) option" where
  "check_walk r block tot s =
     (if block = NULL then Some (Inr tot)
      else if check_block r block s \<noteq> 0 then Some (Inl (check_block r block s))
      else check_walk r (hb_next s block) (tot + (hb_size s block + HDR)) s)"

fun check_regions :: "mem_region list \<Rightarrow> 'a mstate_scheme \<Rightarrow> int option" where
  "check_regions [] s = Some 0"
| "check_regions (r # rs) s =
     do { t \<leftarrow> check_walk r (r_block_list r) 0 s;
          case t of Inl e \<Rightarrow> Some e
          | Inr tot \<Rightarrow> if tot \<noteq> r_size r then Some (-6) else check_regions rs s }"

definition memory_check_heap :: "'a mstate_scheme \<Rightarrow> int option" where
  "memory_check_heap s = check_regions (take (nat (num_regions s)) (regions s)) s"

definition psram_is_available :: "'a mstate_scheme \<Rightarrow> int" where
  "psram_is_available s = psram_available s"

definition psram_get_total :: "'a mstate_scheme \<Rightarrow> u32" where
  "psram_get_total s = (if psram_available s = 0 then 0 else r_size (regions s ! 1))"

definition psram_get_free :: "'a mstate_scheme \<Rightarrow> u32" where
  "psram_get_free s = (if psram_available s = 0 then 0 else r_free (regions s ! 1))"

definition psram_get_used :: "'a mstate_scheme \<Rightarrow> u32" where
  "psram_get_used s = (if psram_available s = 0 then 0 else r_used (regions s ! 1))"

definition internal_get_total :: "'a mstate_scheme \<Rightarrow> u32" where
  "internal_get_total s = r_size (regions s ! 0)"

definition internal_get_free :: "'a mstate_scheme \<Rightarrow> u32" where
  "internal_get_free s = r_free (regions s ! 0)"

definition internal_get_used :: "'a mstate_scheme \<Rightarrow> u32" where
  "internal_get_used s = r_used (regions s ! 0)"


section \<open>The heap lock\<close>

interpretation hl: mutex_cell heap_lock heap_lock_update
  by unfold_locales simp_all

section \<open>Headers\<close>

lemma dist_shift:
  fixes d i j n' k' :: u32
  assumes "unat i + unat n' \<le> unat d" "unat d + unat j + unat k' \<le> 2 ^ 32" "0 < k'"
  shows "n' \<le> d + j - i"
proof -
  have k: "0 < unat k'" using assms(3) by (simp add: word_less_nat_alt)
  then have dj: "unat (d + j) = unat d + unat j"
    using assms(2) by (subst unat_add_lem [THEN iffD1]) auto
  then have "i \<le> d + j" using assms(1) by (simp add: word_le_nat_alt)
  then have "unat (d + j - i) = unat d + unat j - unat i" using dj by (simp add: unat_sub)
  then show ?thesis using assms(1) by (simp add: word_le_nat_alt)
qed

lemma unat_add_le: "(i :: u32) \<le> i + n \<Longrightarrow> unat (i + n) = unat i + unat n"
  by (simp add: unat_plus_simple)

lemma unat_uminus: "(d :: u32) \<noteq> 0 \<Longrightarrow> unat (- d) = 2 ^ 32 - unat d"
proof -
  assume "d \<noteq> 0"
  then have "0 < unat d" by (simp add: unat_gt_0)
  moreover have "(unat d + unat (- d)) mod 2 ^ 32 = 0"
    using unat_word_ariths(1) [of d "- d"] by simp
  ultimately show ?thesis
    using unat_u32_less [of d] unat_u32_less [of "- d"] by (auto simp: mod_if split: if_splits)
qed

lemma apart_offset:
  fixes a b :: u32
  assumes "apart n a k b" "i + n' \<le> n" "i \<le> i + n'" "j + k' \<le> k" "j \<le> j + k'" "0 < n'" "0 < k'"
  shows "apart n' (a + i) k' (b + j)"
proof -
  define d where "d = b - a"
  have d: "n \<le> d" "k \<le> - d" using assms(1) by (simp_all add: apart_def d_def)
  have e: "b + j - (a + i) = d + j - i" "a + i - (b + j) = - d + i - j"
    by (simp_all add: d_def algebra_simps)
  have i: "unat i + unat n' \<le> unat d" and j: "unat j + unat k' \<le> unat (- d)"
    using assms(2-5) d by (simp_all add: word_le_nat_alt unat_add_le)
  have "0 < unat n'" using assms(6) by (simp add: word_less_nat_alt)
  then have "d \<noteq> 0" using i by (auto simp: unat_eq_zero)
  then have m: "unat (- d) = 2 ^ 32 - unat d" by (rule unat_uminus)
  have "n' \<le> d + j - i"
    using i j m unat_u32_less [of d] assms(7) by (intro dist_shift [of _ _ _ _ k']) auto
  moreover have "k' \<le> - d + i - j"
    using i j m unat_u32_less [of d] assms(6) by (intro dist_shift [of _ _ _ _ n']) auto
  ultimately show ?thesis by (simp add: apart_def e)
qed

lemmas hb_defs = hb_magic_def hb_size_def hb_free_def hb_region_def hb_next_def hb_prev_def
lemmas set_hb_defs = set_hb_magic_def set_hb_size_def set_hb_free_def set_hb_region_def
  set_hb_next_def set_hb_prev_def


text \<open>Fields of the same header.\<close>

lemma hb_same [simp]:
  "hb_magic (set_hb_magic b v s) b = v" "hb_magic (set_hb_size b v s) b = hb_magic s b"
  "hb_magic (set_hb_free b w s) b = hb_magic s b" "hb_magic (set_hb_region b w s) b = hb_magic s b"
  "hb_magic (set_hb_next b v s) b = hb_magic s b" "hb_magic (set_hb_prev b v s) b = hb_magic s b"
  "hb_size (set_hb_magic b v s) b = hb_size s b" "hb_size (set_hb_size b v s) b = v"
  "hb_size (set_hb_free b w s) b = hb_size s b" "hb_size (set_hb_region b w s) b = hb_size s b"
  "hb_size (set_hb_next b v s) b = hb_size s b" "hb_size (set_hb_prev b v s) b = hb_size s b"
  "hb_free (set_hb_magic b v s) b = hb_free s b" "hb_free (set_hb_size b v s) b = hb_free s b"
  "hb_free (set_hb_free b w s) b = w" "hb_free (set_hb_region b w s) b = hb_free s b"
  "hb_free (set_hb_next b v s) b = hb_free s b" "hb_free (set_hb_prev b v s) b = hb_free s b"
  "hb_region (set_hb_magic b v s) b = hb_region s b" "hb_region (set_hb_size b v s) b = hb_region s b"
  "hb_region (set_hb_free b w s) b = hb_region s b" "hb_region (set_hb_region b w s) b = w"
  "hb_region (set_hb_next b v s) b = hb_region s b" "hb_region (set_hb_prev b v s) b = hb_region s b"
  "hb_next (set_hb_magic b v s) b = hb_next s b" "hb_next (set_hb_size b v s) b = hb_next s b"
  "hb_next (set_hb_free b w s) b = hb_next s b" "hb_next (set_hb_region b w s) b = hb_next s b"
  "hb_next (set_hb_next b v s) b = v" "hb_next (set_hb_prev b v s) b = hb_next s b"
  "hb_prev (set_hb_magic b v s) b = hb_prev s b" "hb_prev (set_hb_size b v s) b = hb_prev s b"
  "hb_prev (set_hb_free b w s) b = hb_prev s b" "hb_prev (set_hb_region b w s) b = hb_prev s b"
  "hb_prev (set_hb_next b v s) b = hb_prev s b" "hb_prev (set_hb_prev b v s) b = v"
  by (simp_all add: hb_defs set_hb_defs ld32_st32_same ld32_st32_apart apart_def)
    (simp_all add: ld32_def st32_def)

text \<open>Fields of headers that do not overlap.\<close>

lemma apart_bytes:
  assumes "apart 20 a 20 b"
  shows "i + 4 \<le> 20 \<Longrightarrow> i \<le> 19 \<Longrightarrow> j + 4 \<le> 20 \<Longrightarrow> j \<le> 19 \<Longrightarrow> apart 4 (a + i) 4 (b + j)"
    and "i + 4 \<le> 20 \<Longrightarrow> i \<le> 19 \<Longrightarrow> j + 1 \<le> 20 \<Longrightarrow> j \<le> 19 \<Longrightarrow> apart 4 (a + i) 1 (b + j)"
    and "i + 1 \<le> 20 \<Longrightarrow> i \<le> 19 \<Longrightarrow> j + 4 \<le> 20 \<Longrightarrow> j \<le> 19 \<Longrightarrow> apart 1 (a + i) 4 (b + j)"
    and "i + 1 \<le> 20 \<Longrightarrow> i \<le> 19 \<Longrightarrow> j + 1 \<le> 20 \<Longrightarrow> j \<le> 19 \<Longrightarrow> a + i \<noteq> b + j"
proof -
  have le: "i \<le> i + c" if "i \<le> 19" "c \<le> 4" for i c :: u32
  proof -
    have "unat i + unat c < 2 ^ 32" using that by (simp add: word_le_nat_alt)
    then show ?thesis by (simp add: word_le_nat_alt unat_add_lem [THEN iffD1])
  qed
  show "apart 4 (a + i) 4 (b + j)" if "i + 4 \<le> 20" "i \<le> 19" "j + 4 \<le> 20" "j \<le> 19"
    using that le by (intro apart_offset [OF assms]) auto
  show "apart 4 (a + i) 1 (b + j)" if "i + 4 \<le> 20" "i \<le> 19" "j + 1 \<le> 20" "j \<le> 19"
    using that le by (intro apart_offset [OF assms]) auto
  show "apart 1 (a + i) 4 (b + j)" if "i + 1 \<le> 20" "i \<le> 19" "j + 4 \<le> 20" "j \<le> 19"
    using that le by (intro apart_offset [OF assms]) auto
  show "a + i \<noteq> b + j" if "i + 1 \<le> 20" "i \<le> 19" "j + 1 \<le> 20" "j \<le> 19"
    using that by (intro apart_neq [OF assms]) (auto simp: word_le_less_eq word_less_nat_alt)
qed


lemma apart_adjacent: "apart 20 a 20 b \<Longrightarrow> b \<noteq> 1 + a \<and> a \<noteq> 1 + b"
  by (auto simp: apart_def word_le_nat_alt)

lemma hb_apart:
  assumes "apart 20 a 20 b"
  shows
  "hb_magic (set_hb_magic a v s) b = hb_magic s b" "hb_magic (set_hb_size a v s) b = hb_magic s b"
  "hb_magic (set_hb_free a w s) b = hb_magic s b" "hb_magic (set_hb_region a w s) b = hb_magic s b"
  "hb_magic (set_hb_next a v s) b = hb_magic s b" "hb_magic (set_hb_prev a v s) b = hb_magic s b"
  "hb_size (set_hb_magic a v s) b = hb_size s b" "hb_size (set_hb_size a v s) b = hb_size s b"
  "hb_size (set_hb_free a w s) b = hb_size s b" "hb_size (set_hb_region a w s) b = hb_size s b"
  "hb_size (set_hb_next a v s) b = hb_size s b" "hb_size (set_hb_prev a v s) b = hb_size s b"
  "hb_free (set_hb_magic a v s) b = hb_free s b" "hb_free (set_hb_size a v s) b = hb_free s b"
  "hb_free (set_hb_free a w s) b = hb_free s b" "hb_free (set_hb_region a w s) b = hb_free s b"
  "hb_free (set_hb_next a v s) b = hb_free s b" "hb_free (set_hb_prev a v s) b = hb_free s b"
  "hb_region (set_hb_magic a v s) b = hb_region s b" "hb_region (set_hb_size a v s) b = hb_region s b"
  "hb_region (set_hb_free a w s) b = hb_region s b" "hb_region (set_hb_region a w s) b = hb_region s b"
  "hb_region (set_hb_next a v s) b = hb_region s b" "hb_region (set_hb_prev a v s) b = hb_region s b"
  "hb_next (set_hb_magic a v s) b = hb_next s b" "hb_next (set_hb_size a v s) b = hb_next s b"
  "hb_next (set_hb_free a w s) b = hb_next s b" "hb_next (set_hb_region a w s) b = hb_next s b"
  "hb_next (set_hb_next a v s) b = hb_next s b" "hb_next (set_hb_prev a v s) b = hb_next s b"
  "hb_prev (set_hb_magic a v s) b = hb_prev s b" "hb_prev (set_hb_size a v s) b = hb_prev s b"
  "hb_prev (set_hb_free a w s) b = hb_prev s b" "hb_prev (set_hb_region a w s) b = hb_prev s b"
  "hb_prev (set_hb_next a v s) b = hb_prev s b" "hb_prev (set_hb_prev a v s) b = hb_prev s b"
  using apart_bytes [OF assms, of 0 0] apart_bytes [OF assms, of 0]
    apart_bytes [OF assms, of _ 0] apart_bytes [OF assms]
  by (simp_all add: hb_defs set_hb_defs mem_simps) (use apart_adjacent [OF assms] in blast)+

interpretation hq: linked_store hb_next hb_prev set_hb_next set_hb_prev "\<lambda>a b. apart 20 a 20 b"
  by unfold_locales (simp_all add: hb_apart apart_sym)

text \<open>Fields outside the memory.\<close>

lemma set_hb_frame [simp]:
  "regions (set_hb_magic b v s) = regions s" "regions (set_hb_size b v s) = regions s"
  "regions (set_hb_free b w s) = regions s" "regions (set_hb_region b w s) = regions s"
  "regions (set_hb_next b v s) = regions s" "regions (set_hb_prev b v s) = regions s"
  "regions (upd_region i f s) = (regions s)[i := f (regions s ! i)]"
  by (simp_all add: set_hb_defs upd_region_def)

lemma hb_upd_region [simp]:
  "hb_magic (upd_region i f s) = hb_magic s" "hb_size (upd_region i f s) = hb_size s"
  "hb_free (upd_region i f s) = hb_free s" "hb_region (upd_region i f s) = hb_region s"
  "hb_next (upd_region i f s) = hb_next s" "hb_prev (upd_region i f s) = hb_prev s"
  by (simp_all add: fun_eq_iff hb_defs upd_region_def)

text \<open>The bytes outside a header.\<close>

lemma header_outside:
  fixes a b :: u32
  assumes "20 \<le> a - b" "i \<le> 16" "j < 4"
  shows "b + i + j \<noteq> a" and "b + j \<noteq> a" and "b + 8 \<noteq> a" and "b + 9 \<noteq> a"
proof -
  have "unat i + unat j < 20" using assms(2,3) by (simp add: word_le_nat_alt word_less_nat_alt)
  then have "i + j < 20"
    using assms by (subst word_less_nat_alt) (simp add: unat_add_lem [THEN iffD1] word_less_nat_alt)
  then show "b + i + j \<noteq> a" using assms(1) by (auto simp: add.assoc)
  have "j < 20" using assms(3) by (simp add: word_less_nat_alt)
  then show "b + j \<noteq> a" using assms(1) by auto
  show "b + 8 \<noteq> a" "b + 9 \<noteq> a" using assms(1) by (auto simp: word_le_nat_alt)
qed

lemma mem_set_hb:
  assumes "20 \<le> a - b"
  shows "mem (set_hb_magic b v s) a = mem s a" "mem (set_hb_size b v s) a = mem s a"
    "mem (set_hb_free b w s) a = mem s a" "mem (set_hb_region b w s) a = mem s a"
    "mem (set_hb_next b v s) a = mem s a" "mem (set_hb_prev b v s) a = mem s a"
proof -
  note H = header_outside [OF assms]
  show "mem (set_hb_magic b v s) a = mem s a"
    unfolding set_hb_defs by (simp, rule st32_other, rule H(2) [of 0]) simp_all
  show "mem (set_hb_size b v s) a = mem s a" "mem (set_hb_next b v s) a = mem s a"
    "mem (set_hb_prev b v s) a = mem s a"
    unfolding set_hb_defs by (simp, rule st32_other, rule H(1); simp)+
  show "mem (set_hb_free b w s) a = mem s a" "mem (set_hb_region b w s) a = mem s a"
    using H(3,4) [of 0 0] by (auto simp: set_hb_defs)
qed

lemma mem_upd_region [simp]: "mem (upd_region i f s) = mem s"
  by (simp add: upd_region_def)

text \<open>What the heap operations leave alone outside memory and regions.\<close>

definition same_kernel :: "'a mstate_scheme \<Rightarrow> 'a mstate_scheme \<Rightarrow> bool" where
  "same_kernel s s' \<longleftrightarrow> s\<lparr>mem := (\<lambda>_. 0), regions := []\<rparr> = s'\<lparr>mem := (\<lambda>_. 0), regions := []\<rparr>"

lemma same_kernel_refl [simp]: "same_kernel s s"
  by (simp add: same_kernel_def)

lemma same_kernel_trans: "same_kernel s s1 \<Longrightarrow> same_kernel s1 s2 \<Longrightarrow> same_kernel s s2"
  by (simp add: same_kernel_def)

lemma same_kernelD:
  assumes "same_kernel s s'"
  shows "heap_lock s = heap_lock s'" "cpu0 s = cpu0 s'" "num_regions s = num_regions s'"
    "psram_available s = psram_available s'" "tasks s = tasks s'" "psr s = psr s'"
    "runnable_queue s = runnable_queue s'" "sleep_queue s = sleep_queue s'"
    "process_table s = process_table s'" "task_table s = task_table s'"
  using arg_cong [OF assms [unfolded same_kernel_def], of heap_lock]
    arg_cong [OF assms [unfolded same_kernel_def], of cpu0]
    arg_cong [OF assms [unfolded same_kernel_def], of num_regions]
    arg_cong [OF assms [unfolded same_kernel_def], of psram_available]
    arg_cong [OF assms [unfolded same_kernel_def], of tasks]
    arg_cong [OF assms [unfolded same_kernel_def], of psr]
    arg_cong [OF assms [unfolded same_kernel_def], of runnable_queue]
    arg_cong [OF assms [unfolded same_kernel_def], of sleep_queue]
    arg_cong [OF assms [unfolded same_kernel_def], of process_table]
    arg_cong [OF assms [unfolded same_kernel_def], of task_table]
  by simp_all

lemma same_kernel_setters [simp]:
  "same_kernel s (set_hb_magic b v s') = same_kernel s s'" "same_kernel s (set_hb_size b v s') = same_kernel s s'"
  "same_kernel s (set_hb_free b w s') = same_kernel s s'" "same_kernel s (set_hb_region b w s') = same_kernel s s'"
  "same_kernel s (set_hb_next b v s') = same_kernel s s'" "same_kernel s (set_hb_prev b v s') = same_kernel s s'"
  "same_kernel s (upd_region i f s') = same_kernel s s'"
  by (simp_all add: same_kernel_def set_hb_defs upd_region_def)

lemma same_kernel_list_ops [simp]:
  "same_kernel s (region_add_block i b s') = same_kernel s s'"
  "same_kernel s (region_add_free i b s') = same_kernel s s'"
  "same_kernel s (region_remove_free i b s') = same_kernel s s'"
  "same_kernel s (region_split_block i b n s') = same_kernel s s'"
  "same_kernel s (take_block i b s') = same_kernel s s'"
  by (simp_all add: region_add_block_def region_add_free_def region_remove_free_def unlink_node_def
      region_split_block_def take_block_def Let_def)

section \<open>The heap while nothing has been freed\<close>

text \<open>\<open>bump i f s\<close>: the free list of region \<open>i\<close> is the single block \<open>f\<close>, which reaches to the end of
  the region.\<close>

definition bump :: "nat \<Rightarrow> u32 \<Rightarrow> 'a mstate_scheme \<Rightarrow> bool" where
  "bump i f s \<longleftrightarrow>
     i < length (regions s) \<and> r_free_list (regions s ! i) = f \<and> r_block_list (regions s ! i) = f
   \<and> 16 \<le> f \<and> r_start (regions s ! i) \<le> f
   \<and> unat f + 20 + unat (hb_size s f) = unat (r_end (regions s ! i))
   \<and> hb_magic s f = HEAP_MAGIC \<and> hb_free s f = 1 \<and> hb_region s f = of_nat i
   \<and> hb_next s f = NULL \<and> hb_prev s f = NULL"

text \<open>\<open>exhausted i s\<close>: the free list is empty.\<close>

definition exhausted :: "nat \<Rightarrow> 'a mstate_scheme \<Rightarrow> bool" where
  "exhausted i s \<longleftrightarrow> i < length (regions s) \<and> r_free_list (regions s ! i) = NULL"

lemma bump_nonnull: "bump i f s \<Longrightarrow> f \<noteq> NULL"
  by (auto simp: bump_def word_le_nat_alt)

lemma find_bump:
  assumes "bump i f s"
  shows "region_find_free i n s = Some (if n \<le> hb_size s f then f else NULL)"
  using assms bump_nonnull [OF assms]
  by (simp add: region_find_free_def bump_def find_loop.simps [of n NULL f] find_loop.simps [of n _ NULL])

lemma find_exhausted: "exhausted i s \<Longrightarrow> region_find_free i n s = Some NULL"
  by (simp add: region_find_free_def exhausted_def find_loop.simps)

text \<open>The state in which the only free block has been unlinked.\<close>

lemma remove_bump:
  assumes "bump i f s"
  defines "s' \<equiv> region_remove_free i f s"
  shows "regions s' = (regions s)[i := (regions s ! i)\<lparr>r_free_list := NULL\<rparr>]"
    and "hb_magic s' f = hb_magic s f" "hb_size s' f = hb_size s f" "hb_free s' f = hb_free s f"
      "hb_region s' f = hb_region s f" "hb_next s' f = NULL" "hb_prev s' f = NULL"
    and "20 \<le> a - f \<Longrightarrow> mem s' a = mem s a"
  using assms(1)
  by (simp_all add: s'_def bump_def region_remove_free_def unlink_node_def mem_set_hb)

text \<open>The block behind the first \<open>n\<close> bytes of the payload.\<close>

lemma split_geometry:
  fixes f sz n :: u32
  assumes "unat f + 20 + unat sz < 2 ^ 32" "16 \<le> f" "n \<le> sz"
  shows "sz < n + 20 + 16 \<longleftrightarrow> unat sz < unat n + 36"
    and "unat n + 36 \<le> unat sz \<Longrightarrow> unat (f + 20 + n) = unat f + 20 + unat n"
    and "unat n + 36 \<le> unat sz \<Longrightarrow> unat (sz - n - 20) = unat sz - unat n - 20"
    and "unat n + 36 \<le> unat sz \<Longrightarrow> apart 20 f 20 (f + 20 + n)"
    and "unat n + 36 \<le> unat sz \<Longrightarrow> apart 20 (f + 20 + n) 20 f"
proof -
  have f: "16 \<le> unat f" and n: "unat n \<le> unat sz" using assms(2,3) by (simp_all add: word_le_nat_alt)
  have "unat (n + 20) = unat n + 20" using assms(1) f n by (simp add: unat_add_lem [THEN iffD1])
  then have n36: "unat (n + 20 + 16) = unat n + 36"
    using assms(1) f n by (simp add: unat_add_lem [THEN iffD1])
  show "sz < n + 20 + 16 \<longleftrightarrow> unat sz < unat n + 36" by (simp only: word_less_nat_alt n36)
  assume big: "unat n + 36 \<le> unat sz"
  have "unat (f + 20) = unat f + 20" using assms(1) by (simp add: unat_add_lem [THEN iffD1])
  then show N: "unat (f + 20 + n) = unat f + 20 + unat n"
    using assms(1) n by (simp add: unat_add_lem [THEN iffD1])
  have "unat (sz - n) = unat sz - unat n" using assms(3) by (simp add: unat_sub)
  moreover have "20 \<le> sz - n" using calculation big by (simp add: word_le_nat_alt)
  ultimately show "unat (sz - n - 20) = unat sz - unat n - 20" by (simp add: unat_sub)
  have "20 \<le> 20 + n" using assms(1) n f by (simp add: word_le_nat_alt unat_add_lem [THEN iffD1])
  moreover have "unat (20 + n) = 20 + unat n" "20 + n \<noteq> 0"
    using assms(1) n f by (auto simp: unat_add_lem [THEN iffD1] word_le_nat_alt unat_eq_0 [symmetric] simp del: unat_eq_0)
  moreover have "20 \<le> - (20 + n)"
    using calculation assms(1) n f big by (simp add: word_le_nat_alt unat_uminus del: minus_add_distrib)
  moreover have "f + 20 + n - f = 20 + n" "f - (f + 20 + n) = - (20 + n)" by simp_all
  ultimately show "apart 20 f 20 (f + 20 + n)" unfolding apart_def by metis
  then show "apart 20 (f + 20 + n) 20 f" by (simp add: apart_sym)
qed

text \<open>The heap part of \<^verbatim>\<open>region_alloc\<close>, on a block that has been found.\<close>

definition carve :: "nat \<Rightarrow> u32 \<Rightarrow> u32 \<Rightarrow> 'a mstate_scheme \<Rightarrow> 'a mstate_scheme" where
  "carve i block n s = take_block i block (region_split_block i block n (region_remove_free i block s))"

lemma same_kernel_carve [simp]: "same_kernel s (carve i b n s)"
  by (simp add: carve_def)

lemma bump_bounds:
  assumes "bump i f s"
  shows "unat f + 20 + unat (hb_size s f) < 2 ^ 32" "16 \<le> f"
  using assms unat_u32_less [of "r_end (regions s ! i)"] by (simp_all add: bump_def)

lemma carve_whole:
  assumes b: "bump i f s" and n: "n \<le> hb_size s f" "unat (hb_size s f) < unat n + 36"
  defines "s' \<equiv> carve i f n s"
  shows "exhausted i s'" and "20 \<le> a - f \<Longrightarrow> mem s' a = mem s a"
    and "hb_size s' f = hb_size s f" "hb_free s' f = 0" "hb_magic s' f = HEAP_MAGIC"
    and "r_used (regions s' ! i) = r_used (regions s ! i) + (hb_size s f + HDR)"
    and "r_free (regions s' ! i) = r_free (regions s ! i) - (hb_size s f + HDR)"
proof -
  have i: "i < length (regions s)" using b by (simp add: bump_def)
  note R = remove_bump [OF b]
  have "region_split_block i f n (region_remove_free i f s) = region_remove_free i f s"
    using split_geometry(1) [OF bump_bounds [OF b] n(1)] n(2) R(3)
    by (simp add: region_split_block_def)
  then have s': "s' = take_block i f (region_remove_free i f s)" by (simp add: s'_def carve_def)
  show "exhausted i s'" "hb_size s' f = hb_size s f" "hb_free s' f = 0" "hb_magic s' f = HEAP_MAGIC"
    "r_used (regions s' ! i) = r_used (regions s ! i) + (hb_size s f + HDR)"
    "r_free (regions s' ! i) = r_free (regions s ! i) - (hb_size s f + HDR)"
    using i by (simp_all add: s' exhausted_def take_block_def Let_def R)
  show "mem s' a = mem s a" if "20 \<le> a - f"
    using that R(8) by (simp add: s' take_block_def Let_def mem_set_hb)
qed

lemma split_fields:
  assumes sz: "\<not> hb_size s f < n + HDR + HEAP_MIN_BLOCK"
    and A: "apart 20 f 20 (f + 20 + n)" "apart 20 (f + 20 + n) 20 f"
    and f: "hb_next s f = NULL" "r_block_list (regions s ! i) = f" "f \<noteq> NULL"
      "r_free_list (regions s ! i) = NULL" "i < length (regions s)"
  defines "new \<equiv> f + 20 + n" and "s' \<equiv> region_split_block i f n s"
  shows "hb_magic s' new = HEAP_MAGIC" "hb_size s' new = hb_size s f - n - HDR" "hb_free s' new = 1"
      "hb_region s' new = hb_region s f" "hb_next s' new = NULL" "hb_prev s' new = NULL"
    and "hb_size s' f = n" "hb_free s' f = hb_free s f" "hb_region s' f = hb_region s f"
      "hb_next s' f = new" "hb_prev s' f = new" "hb_magic s' f = hb_magic s f"
    and "regions s' = (regions s)[i := (regions s ! i)\<lparr>r_block_list := new, r_free_list := new,
            r_free := r_free (regions s ! i) + (hb_size s f - n)\<rparr>]"
    and "20 \<le> a - f \<Longrightarrow> 20 \<le> a - new \<Longrightarrow> mem s' a = mem s a"
proof -
  define s1 where "s1 = set_hb_prev new f (set_hb_next new (hb_next s f) (set_hb_region new (hb_region s f)
    (set_hb_free new 1 (set_hb_size new (hb_size s f - n - HDR) (set_hb_magic new HEAP_MAGIC s)))))"
  define s2 where "s2 = set_hb_size f n (set_hb_next f new s1)"
  note A' = hb_apart [OF A(1), folded new_def] hb_apart [OF A(2), folded new_def]
  have s1: "hb_magic s1 new = HEAP_MAGIC" "hb_size s1 new = hb_size s f - n - HDR" "hb_free s1 new = 1"
    "hb_region s1 new = hb_region s f" "hb_magic s1 f = hb_magic s f" "hb_size s1 f = hb_size s f"
    "hb_free s1 f = hb_free s f" "hb_region s1 f = hb_region s f" "hb_next s1 f = NULL" "regions s1 = regions s"
    "20 \<le> a - new \<Longrightarrow> mem s1 a = mem s a"
    by (simp_all add: s1_def A' f mem_set_hb)
  have s2: "hb_magic s2 new = HEAP_MAGIC" "hb_size s2 new = hb_size s f - n - HDR" "hb_free s2 new = 1"
    "hb_region s2 new = hb_region s f" "hb_magic s2 f = hb_magic s f" "hb_size s2 f = n"
    "hb_free s2 f = hb_free s f" "hb_region s2 f = hb_region s f" "hb_next s2 f = new" "regions s2 = regions s"
    "20 \<le> a - f \<Longrightarrow> 20 \<le> a - new \<Longrightarrow> mem s2 a = mem s a"
    by (simp_all add: s2_def A' s1 mem_set_hb)
  define s3 where "s3 = region_add_free i new (region_add_block i new s2)"
  have s3: "hb_magic s3 new = HEAP_MAGIC" "hb_size s3 new = hb_size s f - n - HDR" "hb_free s3 new = 1"
    "hb_region s3 new = hb_region s f" "hb_magic s3 f = hb_magic s f" "hb_size s3 f = n"
    "hb_free s3 f = hb_free s f" "hb_region s3 f = hb_region s f" "hb_next s3 f = new" "hb_prev s3 f = new"
    "hb_next s3 new = NULL" "hb_prev s3 new = NULL"
    "regions s3 = (regions s)[i := (regions s ! i)\<lparr>r_block_list := new, r_free_list := new\<rparr>]"
    "20 \<le> a - f \<Longrightarrow> 20 \<le> a - new \<Longrightarrow> mem s3 a = mem s a"
    using f by (simp_all add: s3_def region_add_free_def region_add_block_def Let_def A' s2 mem_set_hb)
  have s': "s' = upd_region i (\<lambda>r. r\<lparr>r_free := r_free r + (hb_size s3 new + HDR)\<rparr>) s3"
    unfolding s'_def region_split_block_def if_not_P [OF sz] new_def [symmetric] Let_def
    by (simp add: s3_def s2_def s1_def A' f)
  show "hb_magic s' new = HEAP_MAGIC" "hb_size s' new = hb_size s f - n - HDR" "hb_free s' new = 1"
      "hb_region s' new = hb_region s f" "hb_next s' new = NULL" "hb_prev s' new = NULL"
      "hb_size s' f = n" "hb_free s' f = hb_free s f" "hb_region s' f = hb_region s f"
      "hb_next s' f = new" "hb_prev s' f = new" "hb_magic s' f = hb_magic s f"
      "regions s' = (regions s)[i := (regions s ! i)\<lparr>r_block_list := new, r_free_list := new,
            r_free := r_free (regions s ! i) + (hb_size s f - n)\<rparr>]"
      "20 \<le> a - f \<Longrightarrow> 20 \<le> a - new \<Longrightarrow> mem s' a = mem s a"
    using f(5) by (simp_all add: s' s3)
qed

lemma carve_split:
  assumes b: "bump i f s" and n: "unat n + 36 \<le> unat (hb_size s f)"
  defines "new \<equiv> f + 20 + n" and "s' \<equiv> carve i f n s"
  shows "bump i new s'" and "hb_size s' new = hb_size s f - n - HDR"
    and "hb_size s' f = n" "hb_free s' f = 0" "hb_magic s' f = HEAP_MAGIC" "hb_region s' f = of_nat i"
      "hb_next s' f = new" "hb_prev s' f = new"
    and "r_start (regions s' ! i) = r_start (regions s ! i)" "r_end (regions s' ! i) = r_end (regions s ! i)"
    and "length (regions s') = length (regions s)"
    and "20 \<le> a - f \<Longrightarrow> 20 \<le> a - new \<Longrightarrow> mem s' a = mem s a"
    and "r_used (regions s' ! i) = r_used (regions s ! i) + (n + HDR)"
    and "r_free (regions s' ! i) = r_free (regions s ! i) + (hb_size s f - n) - (n + HDR)"
    and "r_size (regions s' ! i) = r_size (regions s ! i)"
proof -
  let ?r = "region_remove_free i f s"
  have i: "i < length (regions s)" and f: "16 \<le> f" "r_start (regions s ! i) \<le> f"
    "unat f + 20 + unat (hb_size s f) = unat (r_end (regions s ! i))" "r_block_list (regions s ! i) = f"
    "hb_region s f = of_nat i" using b by (simp_all add: bump_def)
  have n': "n \<le> hb_size s f" using n by (simp add: word_le_nat_alt)
  note G = split_geometry [OF bump_bounds [OF b] n']
  note R = remove_bump [OF b]
  have "\<not> hb_size ?r f < n + HDR + HEAP_MIN_BLOCK" using G(1) n R(3) by simp
  note S = split_fields [OF this G(4,5) [OF n] R(6), of i, folded new_def]
  have r: "r_block_list (regions ?r ! i) = f" "r_free_list (regions ?r ! i) = NULL"
    "i < length (regions ?r)" using R(1) i f by simp_all
  note S = S [OF r(1) bump_nonnull [OF b] r(2,3)]
  note A = hb_apart [OF G(4) [OF n], folded new_def]
  have s': "s' = take_block i f (region_split_block i f n ?r)" by (simp add: s'_def carve_def)
  have new: "unat new = unat f + 20 + unat n" using G(2) n by (simp add: new_def)
  show sz: "hb_size s' new = hb_size s f - n - HDR" "hb_size s' f = n" "hb_free s' f = 0"
    "hb_magic s' f = HEAP_MAGIC" "hb_region s' f = of_nat i" "hb_next s' f = new" "hb_prev s' f = new"
    "r_start (regions s' ! i) = r_start (regions s ! i)" "r_end (regions s' ! i) = r_end (regions s ! i)"
    "length (regions s') = length (regions s)"
    "r_used (regions s' ! i) = r_used (regions s ! i) + (n + HDR)"
    "r_free (regions s' ! i) = r_free (regions s ! i) + (hb_size s f - n) - (n + HDR)"
    "r_size (regions s' ! i) = r_size (regions s ! i)"
    using i f(5) by (simp_all add: s' take_block_def Let_def S A R)
  have "16 \<le> new" "r_start (regions s ! i) \<le> new" using f(1,2) new by (simp_all add: word_le_nat_alt)
  moreover have "unat new + 20 + unat (hb_size s f - n - HDR) = unat (r_end (regions s ! i))"
    using f(3) new G(3) n by simp
  moreover have "hb_magic s' new = HEAP_MAGIC" "hb_free s' new = 1" "hb_region s' new = of_nat i"
      "hb_next s' new = NULL" "hb_prev s' new = NULL" "r_free_list (regions s' ! i) = new"
      "r_block_list (regions s' ! i) = new"
    using i f(5) by (simp_all add: s' take_block_def Let_def S A R)
  ultimately show "bump i new s'" using sz i by (simp add: bump_def)
  show "mem s' a = mem s a" if "20 \<le> a - f" "20 \<le> a - new"
    using that S(14) [of a] R(8) [of a] by (simp add: s' take_block_def Let_def mem_set_hb)
qed

text \<open>The lock is free, or there is no task yet.\<close>

definition lock_idle :: "'a mstate_scheme \<Rightarrow> bool" where
  "lock_idle s \<longleftrightarrow> current_task (cpu0 s) = NULL \<or> heap_lock s = mutex_zero"

text \<open>The heap operations and the lock are independent.\<close>

definition with_lock :: "mutex \<Rightarrow> 'a mstate_scheme \<Rightarrow> 'a mstate_scheme" where
  "with_lock m s = s\<lparr>heap_lock := m\<rparr>"

lemma hb_with_lock [simp]:
  "hb_magic (with_lock m s) = hb_magic s" "hb_size (with_lock m s) = hb_size s"
  "hb_free (with_lock m s) = hb_free s" "hb_region (with_lock m s) = hb_region s"
  "hb_next (with_lock m s) = hb_next s" "hb_prev (with_lock m s) = hb_prev s"
  "regions (with_lock m s) = regions s" "mem (with_lock m s) = mem s" "cpu0 (with_lock m s) = cpu0 s"
  "heap_lock (with_lock m s) = m" "num_regions (with_lock m s) = num_regions s"
  by (simp_all add: with_lock_def fun_eq_iff hb_defs)

lemma set_hb_with_lock [simp]:
  "set_hb_magic b v (with_lock m s) = with_lock m (set_hb_magic b v s)"
  "set_hb_size b v (with_lock m s) = with_lock m (set_hb_size b v s)"
  "set_hb_free b w (with_lock m s) = with_lock m (set_hb_free b w s)"
  "set_hb_region b w (with_lock m s) = with_lock m (set_hb_region b w s)"
  "set_hb_next b v (with_lock m s) = with_lock m (set_hb_next b v s)"
  "set_hb_prev b v (with_lock m s) = with_lock m (set_hb_prev b v s)"
  "upd_region i f (with_lock m s) = with_lock m (upd_region i f s)"
  by (simp_all add: with_lock_def set_hb_defs upd_region_def)

lemma if_with_lock: "(if c then with_lock m s else with_lock m s') = with_lock m (if c then s else s')"
  by simp

lemma list_ops_with_lock [simp]:
  "region_add_block i b (with_lock m s) = with_lock m (region_add_block i b s)"
  "region_add_free i b (with_lock m s) = with_lock m (region_add_free i b s)"
  "region_remove_free i b (with_lock m s) = with_lock m (region_remove_free i b s)"
  by (simp_all add: region_add_block_def region_add_free_def region_remove_free_def unlink_node_def Let_def)

lemma split_with_lock [simp]:
  "region_split_block i b n (with_lock m s) = with_lock m (region_split_block i b n s)"
  by (simp add: region_split_block_def Let_def)

lemma take_with_lock [simp]: "take_block i b (with_lock m s) = with_lock m (take_block i b s)"
  by (simp add: take_block_def Let_def)

lemma carve_with_lock [simp]: "carve i b n (with_lock m s) = with_lock m (carve i b n s)"
  by (simp add: carve_def)

lemma bump_with_lock [simp]:
  "bump i f (with_lock m s) = bump i f s" "exhausted i (with_lock m s) = exhausted i s"
  by (simp_all add: bump_def exhausted_def)

lemma with_lock_same: "heap_lock s = m \<Longrightarrow> with_lock m s = s"
  by (auto simp: with_lock_def)

lemma with_lock_twice [simp]: "with_lock m (with_lock m' s) = with_lock m s"
  by (simp add: with_lock_def)

lemma acquire_idle:
  assumes "lock_idle s"
  obtains m where "heap_lock_acquire sw s = Some (with_lock m s)"
    "\<And>s'. same_kernel s s' \<Longrightarrow> heap_lock_release (with_lock m s') = s'"
proof (cases "current_task (cpu0 s) = NULL")
  case True
  show ?thesis
  proof (rule that)
    show "heap_lock_acquire sw s = Some (with_lock (heap_lock s) s)"
      using True by (simp add: heap_lock_acquire_def hl.lock_no_task with_lock_same)
    fix s' assume "same_kernel s s'"
    then have "current_task (cpu0 s') = NULL" "heap_lock s = heap_lock s'"
      using True same_kernelD by metis+
    then show "heap_lock_release (with_lock (heap_lock s) s') = s'"
      by (simp add: heap_lock_release_def hl.unlock_no_task with_lock_same)
  qed
next
  case False
  then have z: "heap_lock s = mutex_zero" using assms by (simp add: lock_idle_def)
  let ?c = "current_task (cpu0 s)"
  show ?thesis
  proof (rule that)
    show "heap_lock_acquire sw s = Some (with_lock (mutex_held ?c) s)"
      using hl.lock_zero [OF z refl False] by (simp add: heap_lock_acquire_def with_lock_def)
    fix s' assume k: "same_kernel s s'"
    have "heap_lock_release (with_lock (mutex_held ?c) s') = with_lock mutex_zero s'"
      using hl.unlock_held [of "with_lock (mutex_held ?c) s'" ?c] False same_kernelD(2) [OF k]
      by (simp add: heap_lock_release_def with_lock_def)
    then show "heap_lock_release (with_lock (mutex_held ?c) s') = s'"
      using same_kernelD(1) [OF k] z by (simp add: with_lock_same)
  qed
qed

lemma region_alloc_idle:
  assumes "lock_idle s" and "\<And>m. region_find_free i n (with_lock m s) = Some b"
  shows "region_alloc sw i n s = Some (if b = NULL then (NULL, s) else (b + HDR, carve i b n s))"
proof -
  obtain m where m: "heap_lock_acquire sw s = Some (with_lock m s)"
    "\<And>s'. same_kernel s s' \<Longrightarrow> heap_lock_release (with_lock m s') = s'"
    using acquire_idle [OF assms(1)] by blast
  have "region_alloc sw i n s =
    (if b = NULL then Some (NULL, heap_lock_release (with_lock m s))
     else Some (b + HDR, heap_lock_release (carve i b n (with_lock m s))))"
    using m(1) assms(2) [of m] by (simp add: region_alloc_def carve_def Let_def)
  then show ?thesis using m(2) [of s] m(2) [of "carve i b n s"] by simp
qed

lemma alloc_bump:
  assumes "bump i f s" "lock_idle s"
  shows "region_alloc sw i n s =
    Some (if n \<le> hb_size s f then (f + HDR, carve i f n s) else (NULL, s))"
  using region_alloc_idle [OF assms(2), of i n "if n \<le> hb_size s f then f else NULL" sw]
    find_bump [of i f "with_lock _ s" n] assms(1) bump_nonnull [OF assms(1)] by auto

lemma alloc_exhausted:
  "exhausted i s \<Longrightarrow> lock_idle s \<Longrightarrow> region_alloc sw i n s = Some (NULL, s)"
  using region_alloc_idle [of s i n NULL sw] find_exhausted [of i "with_lock _ s" n] by simp

lemma lock_idle_same: "same_kernel s s' \<Longrightarrow> lock_idle s \<Longrightarrow> lock_idle s'"
  using same_kernelD(1,2) by (fastforce simp: lock_idle_def)

section \<open>Sequences of allocations\<close>

lemma kmalloc_bump:
  assumes b: "bump 0 f s" and idle: "lock_idle s" and n: "n \<noteq> 0"
  defines "r \<equiv> round_up n"
  shows "kmalloc sw n s = Some (if r \<le> hb_size s f then (f + 20, carve 0 f r s) else (NULL, s))"
  using alloc_bump [OF b idle, of sw r] n by (simp add: kmalloc_def r_def)

lemma below_block:
  fixes a f :: u32
  assumes "unat a < unat f" "unat f + 20 \<le> 2 ^ 32"
  shows "20 \<le> a - f"
proof -
  have "f - a \<noteq> 0" using assms by auto
  then have "unat (- (f - a)) = 2 ^ 32 - unat (f - a)" by (rule unat_uminus)
  moreover have "unat (f - a) = unat f - unat a" using assms by (simp add: unat_sub word_le_nat_alt)
  ultimately show ?thesis using assms by (simp add: word_le_nat_alt)
qed

text \<open>The state after an allocation, whichever way the block was taken.\<close>

lemma carve_next:
  assumes b: "bump 0 f s" and r: "r \<le> hb_size s f"
  shows "bump 0 (f + 20 + r) (carve 0 f r s) \<and> unat (f + 20 + r) = unat f + 20 + unat r
      \<and> r_end (regions (carve 0 f r s) ! 0) = r_end (regions s ! 0)
    \<or> exhausted 0 (carve 0 f r s)"
proof (cases "unat r + 36 \<le> unat (hb_size s f)")
  case True
  then show ?thesis
    using carve_split(1,10) [OF b True] split_geometry(2) [OF bump_bounds [OF b] r True] by simp
next
  case False
  then show ?thesis using carve_whole(1) [OF b r] by simp
qed

lemma carve_below:
  assumes b: "bump 0 f s" and r: "r \<le> hb_size s f" and a: "unat a < unat f"
  shows "mem (carve 0 f r s) a = mem s a"
proof -
  have f: "unat f + 20 \<le> 2 ^ 32" using bump_bounds(1) [OF b] by simp
  show ?thesis
  proof (cases "unat r + 36 \<le> unat (hb_size s f)")
    case True
    note N = split_geometry(2) [OF bump_bounds [OF b] r True]
    have "20 \<le> a - (f + 20 + r)"
      using a N bump_bounds(1) [OF b] True by (intro below_block) auto
    then show ?thesis using carve_split(12) [OF b True] below_block [OF a f] by simp
  next
    case False
    then show ?thesis using carve_whole(2) [OF b r] below_block [OF a f] by simp
  qed
qed

fun kmallocs :: "'a switch \<Rightarrow> u32 list \<Rightarrow> 'a mstate_scheme \<Rightarrow> (u32 list \<times> 'a mstate_scheme) option" where
  "kmallocs sw [] s = Some ([], s)"
| "kmallocs sw (n # ns) s =
     do { (p, s) \<leftarrow> kmalloc sw n s; (ps, s) \<leftarrow> kmallocs sw ns s; Some (p # ps, s) }"

lemma kmallocs_exhausted:
  "exhausted 0 s \<Longrightarrow> lock_idle s \<Longrightarrow> kmallocs sw ns s = Some (replicate (length ns) NULL, s)"
  by (induction ns) (simp_all add: kmalloc_def alloc_exhausted)

text \<open>Where the blocks are: each is behind its predecessors and ends before the end of the region.\<close>

fun laid_out :: "nat \<Rightarrow> nat \<Rightarrow> u32 list \<Rightarrow> u32 list \<Rightarrow> bool" where
  "laid_out lo hi [] [] \<longleftrightarrow> True"
| "laid_out lo hi (n # ns) (p # ps) \<longleftrightarrow>
     (if p = NULL then laid_out lo hi ns ps
      else lo + 20 \<le> unat p \<and> unat p + unat (round_up n) \<le> hi
         \<and> laid_out (unat p + unat (round_up n)) hi ns ps)"
| "laid_out lo hi _ _ \<longleftrightarrow> False"

lemma laid_out_NULL: "laid_out lo hi ns (replicate (length ns) NULL)"
  by (induction ns) auto

lemma kmallocs_laid_out:
  "bump 0 f s \<Longrightarrow> lock_idle s \<Longrightarrow>
   \<exists>ps s'. kmallocs sw ns s = Some (ps, s') \<and> laid_out (unat f) (unat (r_end (regions s ! 0))) ns ps
     \<and> (\<forall>a. unat a < unat f \<longrightarrow> mem s' a = mem s a)"
proof (induction ns arbitrary: f s)
  case (Cons n ns)
  let ?r = "round_up n"
  show ?case
  proof (cases "n \<noteq> 0 \<and> ?r \<le> hb_size s f")
    case False
    then have "kmalloc sw n s = Some (NULL, s)"
      using kmalloc_bump [OF Cons.prems] by (cases "n = 0") (simp_all add: kmalloc_def)
    with Cons.IH [OF Cons.prems] show ?thesis by auto
  next
    case True
    let ?s = "carve 0 f ?r s"
    have k: "kmalloc sw n s = Some (f + 20, ?s)" using kmalloc_bump [OF Cons.prems] True by simp
    have idle: "lock_idle ?s" using Cons.prems(2) by (rule lock_idle_same [OF same_kernel_carve])
    have f20: "unat (f + 20) = unat f + 20"
      using bump_bounds(1) [OF Cons.prems(1)] by (simp add: unat_add_lem [THEN iffD1])
    then have nn: "f + 20 \<noteq> NULL" by (metis add_is_0 unat_0 zero_neq_numeral)
    have hi: "unat (f + 20) + unat ?r \<le> unat (r_end (regions s ! 0))"
      using Cons.prems(1) True f20 by (simp add: bump_def word_le_nat_alt)
    note below = carve_below [OF Cons.prems(1), of ?r]
    from carve_next [OF Cons.prems(1), of ?r] True consider
        (split) "bump 0 (f + 20 + ?r) ?s" "unat (f + 20 + ?r) = unat f + 20 + unat ?r"
          "r_end (regions ?s ! 0) = r_end (regions s ! 0)"
      | (full) "exhausted 0 ?s" by blast
    then show ?thesis
    proof cases
      case split
      from Cons.IH [OF split(1) idle] obtain ps s' where IH: "kmallocs sw ns ?s = Some (ps, s')"
        "laid_out (unat (f + 20 + ?r)) (unat (r_end (regions s ! 0))) ns ps"
        "\<And>a. unat a < unat (f + 20 + ?r) \<Longrightarrow> mem s' a = mem ?s a" using split(3) by auto
      have "laid_out (unat f) (unat (r_end (regions s ! 0))) (n # ns) ((f + 20) # ps)"
        using IH(2) nn hi f20 split(2) by simp
      moreover have "mem s' a = mem s a" if "unat a < unat f" for a
        using IH(3) [of a] below that True split(2) by simp
      ultimately show ?thesis using k IH(1) by auto
    next
      case full
      have "laid_out (unat f) (unat (r_end (regions s ! 0))) (n # ns)
          ((f + 20) # replicate (length ns) NULL)"
        using nn hi f20 laid_out_NULL by simp
      then show ?thesis using k kmallocs_exhausted [OF full idle, of sw ns] below True by auto
    qed
  qed
qed simp

lemma laid_out_nth:
  "laid_out lo hi ns ps \<Longrightarrow> k < length ns \<Longrightarrow> ps ! k \<noteq> NULL \<Longrightarrow>
     lo + 20 \<le> unat (ps ! k) \<and> unat (ps ! k) + unat (round_up (ns ! k)) \<le> hi"
proof (induction lo hi ns ps arbitrary: k rule: laid_out.induct)
  case (2 lo hi n ns p ps)
  show ?case
  proof (cases k)
    case 0
    then show ?thesis using 2 by simp
  next
    case (Suc j)
    then show ?thesis using 2 by (cases "p = NULL") fastforce+
  qed
qed auto

lemma laid_out_length: "laid_out lo hi ns ps \<Longrightarrow> length ps = length ns"
  by (induction lo hi ns ps rule: laid_out.induct) (auto split: if_splits)

lemma laid_out_disjoint:
  "laid_out lo hi ns ps \<Longrightarrow> j < k \<Longrightarrow> k < length ns \<Longrightarrow> ps ! j \<noteq> NULL \<Longrightarrow> ps ! k \<noteq> NULL \<Longrightarrow>
     unat (ps ! j) + unat (round_up (ns ! j)) + 20 \<le> unat (ps ! k)"
proof (induction lo hi ns ps arbitrary: j k rule: laid_out.induct)
  case (2 lo hi n ns p ps)
  obtain k' where k: "k = Suc k'" using 2 by (cases k) auto
  show ?case
  proof (cases j)
    case 0
    then show ?thesis using 2 k laid_out_nth [of "unat p + unat (round_up n)" hi ns ps k'] by simp
  next
    case (Suc j')
    then show ?thesis using 2 k by (cases "p = NULL") auto
  qed
qed auto

section \<open>Initialisation\<close>

lemma first_block_fields:
  fixes sz :: u32
  assumes i: "i < length (regions s)" and b: "r_start (regions s ! i) = b"
    and l: "r_free_list (regions s ! i) = NULL" "r_block_list (regions s ! i) = NULL"
  defines "s' \<equiv> first_block i sz s"
  shows "hb_magic s' b = HEAP_MAGIC" "hb_size s' b = sz" "hb_free s' b = 1" "hb_region s' b = of_nat i"
      "hb_next s' b = NULL" "hb_prev s' b = NULL"
    and "regions s' = (regions s)[i := (regions s ! i)\<lparr>r_block_list := b, r_free_list := b, r_free := sz\<rparr>]"
    and "20 \<le> a - b \<Longrightarrow> mem s' a = mem s a" and "same_kernel s s'"
  using i l by (simp_all add: s'_def first_block_def region_add_block_def region_add_free_def Let_def b
      mem_set_hb)

lemma hb_other_header:
  assumes "\<And>j. j < 20 \<Longrightarrow> mem s' (b + j) = mem s (b + j)"
  shows "hb_magic s' b = hb_magic s b" "hb_size s' b = hb_size s b" "hb_free s' b = hb_free s b"
    "hb_region s' b = hb_region s b" "hb_next s' b = hb_next s b" "hb_prev s' b = hb_prev s b"
proof -
  have "ld32 (mem s') (b + i) = ld32 (mem s) (b + i)" if "i \<le> 16" for i
  proof (rule ld32_cong)
    fix j :: u32 assume "j < 4"
    then have "unat (i + j) = unat i + unat j" "unat i + unat j < 20"
      using that by (simp_all add: word_le_nat_alt word_less_nat_alt unat_add_lem [THEN iffD1])
    then have "i + j < 20" by (simp add: word_less_nat_alt)
    then show "mem s' (b + i + j) = mem s (b + i + j)" using assms by (simp add: add.assoc)
  qed
  from this [of 0] this [of 4] this [of 12] this [of 16] assms [of 8] assms [of 9]
  show "hb_magic s' b = hb_magic s b" "hb_size s' b = hb_size s b" "hb_free s' b = hb_free s b"
    "hb_region s' b = hb_region s b" "hb_next s' b = hb_next s b" "hb_prev s' b = hb_prev s b"
    by (simp_all add: hb_defs)
qed

text \<open>Setting up the second region leaves a header elsewhere and the first region alone.\<close>

definition psram_setup :: "'a mstate_scheme \<Rightarrow> 'a mstate_scheme" where
  "psram_setup s = first_block 1 (r_size (regions ((region_init 1 ''psram'' PSRAM_BASE
       (PSRAM_BASE + psram_get_size) (s\<lparr>psram_available := 1\<rparr>))\<lparr>num_regions := 2\<rparr>) ! 1) - HDR - HDR)
     ((region_init 1 ''psram'' PSRAM_BASE (PSRAM_BASE + psram_get_size) (s\<lparr>psram_available := 1\<rparr>))
        \<lparr>num_regions := 2\<rparr>)"

lemma psram_setup_keeps:
  assumes len: "length (regions s) = 2" and ap: "apart 20 b 20 PSRAM_BASE"
  defines "s' \<equiv> psram_setup s"
  shows "hb_magic s' b = hb_magic s b" "hb_size s' b = hb_size s b" "hb_free s' b = hb_free s b"
    "hb_region s' b = hb_region s b" "hb_next s' b = hb_next s b" "hb_prev s' b = hb_prev s b"
    and "regions s' ! 0 = regions s ! 0" "length (regions s') = 2" "cpu0 s' = cpu0 s"
    "heap_lock s' = heap_lock s" "num_regions s' = 2"
proof -
  let ?s = "(region_init 1 ''psram'' PSRAM_BASE (PSRAM_BASE + psram_get_size) (s\<lparr>psram_available := 1\<rparr>))
        \<lparr>num_regions := 2\<rparr>"
  have s: "1 < length (regions ?s)" "r_start (regions ?s ! 1) = PSRAM_BASE"
    "r_free_list (regions ?s ! 1) = NULL" "r_block_list (regions ?s ! 1) = NULL"
    "regions ?s ! 0 = regions s ! 0" "length (regions ?s) = 2" "mem ?s = mem s" "cpu0 ?s = cpu0 s"
    "heap_lock ?s = heap_lock s" "num_regions ?s = 2"
    using len by (simp_all add: region_init_def upd_region_def)
  note B = first_block_fields [OF s(1-4)]
  have "mem s' (b + j) = mem s (b + j)" if "j < 20" for j
  proof -
    have "unat j + 1 \<le> 20" using that by (simp add: word_less_nat_alt)
    then have "unat (j + 1) = unat j + 1" by (simp add: unat_add_lem [THEN iffD1])
    then have "j + 1 \<le> 20" "j \<le> j + 1" using \<open>unat j + 1 \<le> 20\<close> by (simp_all add: word_le_nat_alt)
    then have "apart 1 (b + j) 20 (PSRAM_BASE + 0)" by (intro apart_offset [OF ap]) simp_all
    then have "20 \<le> b + j - PSRAM_BASE" by (simp add: apart_def)
    then show ?thesis using B(8) [of "b + j"] s(7) by (simp add: s'_def psram_setup_def)
  qed
  from hb_other_header [of s' b s, OF this]
  show "hb_magic s' b = hb_magic s b" "hb_size s' b = hb_size s b" "hb_free s' b = hb_free s b"
    "hb_region s' b = hb_region s b" "hb_next s' b = hb_next s b" "hb_prev s' b = hb_prev s b"
    by simp_all
  show "regions s' ! 0 = regions s ! 0" "length (regions s') = 2"
    using B(7) s by (simp_all add: s'_def psram_setup_def)
  show "cpu0 s' = cpu0 s" "heap_lock s' = heap_lock s" "num_regions s' = 2"
    using same_kernelD(1-3) [OF B(9)] s by (simp_all add: s'_def psram_setup_def)
qed

text \<open>The first region alone.\<close>

definition internal_setup :: "u32 \<Rightarrow> u32 \<Rightarrow> 'a mstate_scheme \<Rightarrow> 'a mstate_scheme" where
  "internal_setup hs he s = (let s0 = (region_init 0 ''internal'' hs he (mutex_init heap_lock_update s))\<lparr>num_regions := 1\<rparr>
     in first_block 0 (r_end (regions s0 ! 0) - r_start (regions s0 ! 0) - HDR) s0)"

lemma memory_init_parts:
  "memory_init hs he rc s = (if rc = 0 then psram_setup (internal_setup hs he s) else internal_setup hs he s)"
  by (simp add: memory_init_def psram_setup_def internal_setup_def Let_def)

lemma internal_setup_bump:
  assumes len: "length (regions s) = 2" and hs: "16 \<le> hs" "unat hs + 20 \<le> unat he"
  defines "s' \<equiv> internal_setup hs he s"
  shows "bump 0 hs s'" and "r_end (regions s' ! 0) = he" "r_start (regions s' ! 0) = hs"
    and "r_free (regions s' ! 0) = he - hs - HDR" "r_size (regions s' ! 0) = he - hs"
    and "hb_size s' hs = he - hs - HDR" and "r_used (regions s' ! 0) = 0"
    and "cpu0 s' = cpu0 s" "heap_lock s' = (heap_lock s)\<lparr>m_locked := 0, m_owner := NULL, m_count := 0\<rparr>"
    and "num_regions s' = 1" "length (regions s') = 2"
proof -
  define s0 where "s0 = (region_init 0 ''internal'' hs he (mutex_init heap_lock_update s))\<lparr>num_regions := 1\<rparr>"
  have s0: "0 < length (regions s0)" "length (regions s0) = 2" "r_start (regions s0 ! 0) = hs" "r_end (regions s0 ! 0) = he"
    "r_size (regions s0 ! 0) = he - hs" "r_free_list (regions s0 ! 0) = NULL" "r_block_list (regions s0 ! 0) = NULL"
    "cpu0 s0 = cpu0 s" "num_regions s0 = 1" "r_used (regions s0 ! 0) = 0"
    "heap_lock s0 = (heap_lock s)\<lparr>m_locked := 0, m_owner := NULL, m_count := 0\<rparr>"
    using len by (simp_all add: s0_def region_init_def mutex_init_def upd_region_def)
  have s': "s' = first_block 0 (he - hs - HDR) s0"
    by (simp add: s'_def internal_setup_def s0_def [symmetric] s0 Let_def)
  note B = first_block_fields [OF s0(1,3,6,7), of "he - hs - HDR", folded s']
  have "hs \<le> he" using hs(2) by (simp add: word_le_nat_alt)
  then have "unat (he - hs) = unat he - unat hs" by (simp add: unat_sub)
  moreover have "20 \<le> he - hs" using calculation hs(2) by (simp add: word_le_nat_alt)
  ultimately have "unat hs + 20 + unat (he - hs - HDR) = unat he" using hs(2) by (simp add: unat_sub)
  then show "bump 0 hs s'" using B s0 hs(1) by (simp add: bump_def)
  show "r_end (regions s' ! 0) = he" "r_start (regions s' ! 0) = hs" "r_used (regions s' ! 0) = 0"
    "r_free (regions s' ! 0) = he - hs - HDR" "r_size (regions s' ! 0) = he - hs"
    "hb_size s' hs = he - hs - HDR" "length (regions s') = 2"
    using B(2,7) s0 by simp_all
  show "cpu0 s' = cpu0 s" "heap_lock s' = (heap_lock s)\<lparr>m_locked := 0, m_owner := NULL, m_count := 0\<rparr>"
    "num_regions s' = 1"
    using same_kernelD(1-3) [OF B(9)] s0 by simp_all
qed

text \<open>The heap that \<^verbatim>\<open>memory_init\<close> sets up: one free block from \<open>hs\<close> to \<open>he\<close>.\<close>

lemma memory_init_bump:
  assumes len: "length (regions s) = 2" and hs: "16 \<le> hs" "unat hs + 20 \<le> unat he"
    and ps: "rc = 0 \<longrightarrow> apart 20 hs 20 PSRAM_BASE"
  defines "s' \<equiv> memory_init hs he rc s"
  shows "bump 0 hs s'" and "r_end (regions s' ! 0) = he" "r_start (regions s' ! 0) = hs"
    and "r_free (regions s' ! 0) = he - hs - HDR" "r_size (regions s' ! 0) = he - hs"
    and "hb_size s' hs = he - hs - HDR" and "r_used (regions s' ! 0) = 0"
    and "lock_idle s'" and "num_regions s' = (if rc = 0 then 2 else 1)"
proof -
  note I = internal_setup_bump [OF len hs]
  note P = psram_setup_keeps [OF I(11) ps [rule_format]]
  have "(heap_lock s)\<lparr>m_locked := 0, m_owner := NULL, m_count := 0\<rparr> = mutex_zero"
    by (simp add: mutex_zero_def)
  then show "bump 0 hs s'" "r_end (regions s' ! 0) = he" "r_start (regions s' ! 0) = hs"
    "r_free (regions s' ! 0) = he - hs - HDR" "r_size (regions s' ! 0) = he - hs"
    "hb_size s' hs = he - hs - HDR" "r_used (regions s' ! 0) = 0"
    "lock_idle s'" "num_regions s' = (if rc = 0 then 2 else 1)"
    using I P by (auto simp: s'_def memory_init_parts bump_def lock_idle_def)
qed

section \<open>What the allocator guarantees\<close>

text \<open>C4: allocation is safe as long as nothing is freed.  After \<^verbatim>\<open>memory_init\<close>, every sequence of
  \<^verbatim>\<open>kmalloc\<close> calls terminates; each block it returns lies, header included, between the start and
  the end of the heap, holds the requested size rounded up to 8, and no two blocks overlap, the
  header of the later one included.\<close>

theorem kmalloc_blocks_disjoint:
  assumes "length (regions s) = 2" and "16 \<le> hs" and "unat hs + 20 \<le> unat he"
    and "rc = 0 \<longrightarrow> apart 20 hs 20 PSRAM_BASE"
  shows "\<exists>ps s'. kmallocs sw ns (memory_init hs he rc s) = Some (ps, s') \<and> length ps = length ns
     \<and> (\<forall>k<length ns. ps ! k \<noteq> NULL \<longrightarrow>
          unat hs + 20 \<le> unat (ps ! k) \<and> unat (ps ! k) + unat (round_up (ns ! k)) \<le> unat he)
     \<and> (\<forall>j k. j < k \<and> k < length ns \<and> ps ! j \<noteq> NULL \<and> ps ! k \<noteq> NULL \<longrightarrow>
          unat (ps ! j) + unat (round_up (ns ! j)) + 20 \<le> unat (ps ! k))"
proof -
  note I = memory_init_bump [OF assms]
  obtain ps s' where "kmallocs sw ns (memory_init hs he rc s) = Some (ps, s')"
    and l: "laid_out (unat hs) (unat he) ns ps"
    using kmallocs_laid_out [OF I(1,8), where sw = sw and ns = ns] I(2) by auto
  then show ?thesis
    using laid_out_nth [OF l] laid_out_disjoint [OF l] laid_out_length [OF l] by auto
qed

text \<open>\<^verbatim>\<open>kfree\<close> with the lock idle.\<close>

lemma coalesce_with_lock:
  "region_coalesce i b (with_lock m s) = map_option (with_lock m) (region_coalesce i b s)"
proof -
  have 1: "coalesce_next i b (with_lock m s) = map_option (with_lock m) (coalesce_next i b s)" for s
    by (simp add: coalesce_next_def Let_def)
  have 2: "coalesce_prev i b (with_lock m s) = map_option (\<lambda>(b, s). (b, with_lock m s)) (coalesce_prev i b s)" for s
    by (simp add: coalesce_prev_def Let_def)
  show ?thesis
    by (cases "coalesce_next i b s")
      (auto simp: region_coalesce_def 1 2 map_option_case split: option.splits bind_splits)
qed

definition release_block :: "nat \<Rightarrow> u32 \<Rightarrow> 'a mstate_scheme \<Rightarrow> 'a mstate_scheme" where
  "release_block i block s =
     (let s = set_hb_free block 1 s; s = set_hb_magic block HEAP_FREE_MAGIC s
      in upd_region i (\<lambda>r. r\<lparr>r_used := r_used r - (hb_size s block + HDR),
                             r_free := r_free r + (hb_size s block + HDR)\<rparr>) s)"

lemma same_kernel_coalesce: "region_coalesce i b s = Some s' \<Longrightarrow> same_kernel s s'"
proof -
  have 1: "same_kernel s s'" if "coalesce_next i b s = Some s'" for s s'
    using that by (auto simp: coalesce_next_def Let_def split: if_splits)
  have 2: "same_kernel s (snd r)" if "coalesce_prev i b s = Some r" for s r
    using that by (auto simp: coalesce_prev_def Let_def split: if_splits)
  show "region_coalesce i b s = Some s' \<Longrightarrow> same_kernel s s'"
    using 1 2 by (fastforce simp: region_coalesce_def split: bind_splits intro: same_kernel_trans)
qed

lemma kfree_idle:
  assumes "lock_idle s" "p \<noteq> NULL" "hb_magic s (p - HDR) = HEAP_MAGIC" "hb_free s (p - HDR) = 0"
    "uint (hb_region s (p - HDR)) < num_regions s"
  shows "kfree sw p s = region_coalesce (unat (hb_region s (p - HDR))) (p - HDR)
           (release_block (unat (hb_region s (p - HDR))) (p - HDR) s)"
proof -
  obtain m where m: "heap_lock_acquire sw s = Some (with_lock m s)"
    "\<And>s'. same_kernel s s' \<Longrightarrow> heap_lock_release (with_lock m s') = s'"
    using acquire_idle [OF assms(1)] by blast
  let ?b = "p - HDR" and ?i = "unat (hb_region s (p - HDR))"
  have r: "release_block ?i ?b (with_lock m s) = with_lock m (release_block ?i ?b s)"
    by (simp add: release_block_def Let_def)
  have "kfree sw p s = do { s \<leftarrow> region_coalesce ?i ?b (release_block ?i ?b (with_lock m s));
                           Some (heap_lock_release s) }"
    using assms(2-5) m(1) by (simp add: kfree_def release_block_def Let_def)
  also have "\<dots> = region_coalesce ?i ?b (release_block ?i ?b s)"
  proof (cases "region_coalesce ?i ?b (release_block ?i ?b s)")
    case (Some s')
    have "same_kernel s (release_block ?i ?b s)" by (simp add: release_block_def Let_def)
    then have "same_kernel s s'" using same_kernel_coalesce [OF Some] same_kernel_trans by blast
    then show ?thesis using Some m(2) by (simp add: r coalesce_with_lock)
  qed (simp add: r coalesce_with_lock)
  finally show ?thesis .
qed

text \<open>The free after the first allocation, step by step: \<open>f\<close> is the allocated block and \<open>g\<close> the free
  block behind it, which \<open>f\<close> has both as its next and as its previous block.\<close>

lemma coalesce_both:
  assumes ap: "apart 20 f 20 g" and nn: "f \<noteq> NULL" "g \<noteq> NULL" and i: "i < length (regions s)"
    and f: "hb_next s f = g" "hb_prev s f = g"
    and g: "hb_next s g = NULL" "hb_prev s g = NULL" "hb_free s g = 1" "r_free_list (regions s ! i) = g"
  shows "\<exists>s'. region_coalesce i f s = Some s' \<and> r_free_list (regions s' ! i) = g \<and> hb_free s' g = 1
     \<and> hb_size s' g = hb_size s g + (HDR + (hb_size s f + (HDR + hb_size s g)))
     \<and> r_end (regions s' ! i) = r_end (regions s ! i)"
proof -
  note A = hb_apart [OF ap] hb_apart [OF ap [unfolded apart_sym [of 20 f]]]
  define s1 where "s1 = region_remove_free i g s"
  have s1: "hb_next s1 f = g" "hb_prev s1 f = g" "hb_size s1 f = hb_size s f" "hb_size s1 g = hb_size s g"
    "hb_next s1 g = NULL" "hb_prev s1 g = NULL" "hb_free s1 g = 1" "r_free_list (regions s1 ! i) = NULL"
    "length (regions s1) = length (regions s)" "r_end (regions s1 ! i) = r_end (regions s ! i)"
    using g f i by (simp_all add: s1_def region_remove_free_def unlink_node_def Let_def A)
  define s2 where "s2 = set_hb_next f NULL (set_hb_size f (hb_size s f + (HDR + hb_size s g)) s1)"
  have n: "coalesce_next i f s = Some s2"
    using f g nn by (simp add: coalesce_next_def s1_def [symmetric] Let_def s1 A s2_def)
  have s2: "hb_next s2 f = NULL" "hb_prev s2 f = g" "hb_size s2 f = hb_size s f + (HDR + hb_size s g)"
    "hb_size s2 g = hb_size s g" "hb_next s2 g = NULL" "hb_prev s2 g = NULL" "hb_free s2 g = 1"
    "regions s2 = regions s1"
    by (simp_all add: s2_def s1 A)
  define s3 where "s3 = region_remove_free i g s2"
  have s3: "hb_next s3 f = NULL" "hb_prev s3 f = g" "hb_size s3 f = hb_size s2 f" "hb_size s3 g = hb_size s g"
    "hb_next s3 g = NULL" "hb_prev s3 g = NULL" "hb_free s3 g = 1" "regions s3 = regions s1"
    using nn by (simp_all add: s3_def region_remove_free_def unlink_node_def Let_def A s2 s1)
  define s4 where "s4 = set_hb_next g NULL (set_hb_size g (hb_size s g + (HDR + hb_size s2 f)) s3)"
  have p: "coalesce_prev i f s2 = Some (g, s4)"
    using nn by (simp add: coalesce_prev_def s3_def [symmetric] Let_def s2(2,7) s3 A s4_def)
  have s4: "hb_size s4 g = hb_size s g + (HDR + hb_size s2 f)" "hb_free s4 g = 1" "regions s4 = regions s1"
    by (simp_all add: s4_def s3)
  have "region_coalesce i f s = Some (region_add_free i g s4)"
    by (simp add: region_coalesce_def n p)
  moreover have "r_free_list (regions (region_add_free i g s4) ! i) = g"
    "hb_free (region_add_free i g s4) g = 1" "hb_size (region_add_free i g s4) g = hb_size s4 g"
    "r_end (regions (region_add_free i g s4) ! i) = r_end (regions s ! i)"
    using i by (simp_all add: region_add_free_def Let_def s4 s1)
  ultimately show ?thesis by (simp add: s4(1) s2(3))
qed

text \<open>C38: freeing the first block corrupts the free list.  One \<^verbatim>\<open>kmalloc\<close> followed by the \<^verbatim>\<open>kfree\<close> of
  its block leaves a free block that reaches past the end of the region by the size of the
  original block and a header: the block has been merged with its neighbour twice.\<close>

theorem kfree_overruns_region:
  assumes b: "bump 0 f s" and idle: "lock_idle s" and nr: "0 < num_regions s" and n: "n \<noteq> 0"
    and sz: "unat (round_up n) + 36 \<le> unat (hb_size s f)"
    and room: "unat (r_end (regions s ! 0)) + unat (hb_size s f) + 20 < 2 ^ 32"
  shows "\<exists>p s1 s2 g. kmalloc sw n s = Some (p, s1) \<and> kfree sw p s1 = Some s2
     \<and> r_free_list (regions s2 ! 0) = g \<and> hb_free s2 g = 1
     \<and> r_end (regions s2 ! 0) = r_end (regions s ! 0)
     \<and> unat g + 20 + unat (hb_size s2 g) = unat (r_end (regions s ! 0)) + unat (hb_size s f) + 20"
proof -
  let ?r = "round_up n" and ?s = "carve 0 f (round_up n) s" and ?g = "f + 20 + round_up n"
  have r: "?r \<le> hb_size s f" using sz by (simp add: word_le_nat_alt)
  note G = split_geometry [OF bump_bounds [OF b] r] and C = carve_split [OF b sz]
  have k: "kmalloc sw n s = Some (f + 20, ?s)" using kmalloc_bump [OF b idle n] r by simp
  have idle': "lock_idle ?s" using idle by (rule lock_idle_same [OF same_kernel_carve])
  have f20: "f + 20 \<noteq> NULL"
    using bump_bounds(1) [OF b] by (auto simp: unat_add_lem [THEN iffD1] simp flip: unat_eq_zero)
  have i0: "0 < length (regions ?s)" using C(1) by (simp add: bump_def)
  let ?t = "release_block 0 f ?s"
  have free: "kfree sw (f + 20) ?s = region_coalesce 0 f ?t"
    using kfree_idle [OF idle' f20, of sw] C(4-6) nr same_kernelD(3) [OF same_kernel_carve [of s 0 f ?r]]
    by simp
  note A = hb_apart [OF G(4) [OF sz]]
  have t: "hb_next ?t f = ?g" "hb_prev ?t f = ?g" "hb_next ?t ?g = NULL" "hb_prev ?t ?g = NULL"
    "hb_free ?t ?g = 1" "r_free_list (regions ?t ! 0) = ?g" "hb_size ?t f = ?r"
    "hb_size ?t ?g = hb_size s f - ?r - HDR" "0 < length (regions ?t)"
    "r_end (regions ?t ! 0) = r_end (regions s ! 0)"
    using C(1-11) i0 by (simp_all add: release_block_def Let_def A bump_def)
  have gn: "?g \<noteq> NULL" using bump_nonnull [OF C(1)] .
  obtain s2 where s2: "region_coalesce 0 f ?t = Some s2" "r_free_list (regions s2 ! 0) = ?g" "hb_free s2 ?g = 1"
    "hb_size s2 ?g = hb_size ?t ?g + (HDR + (hb_size ?t f + (HDR + hb_size ?t ?g)))"
    "r_end (regions s2 ! 0) = r_end (regions ?t ! 0)"
    using coalesce_both [OF G(4) [OF sz] bump_nonnull [OF b] gn t(9,1,2,3,4,5,6)] by auto
  have "hb_size s2 ?g = hb_size s f + hb_size s f - ?r" using s2(4) t(7,8) by simp
  moreover have "unat (hb_size s f + hb_size s f) = unat (hb_size s f) + unat (hb_size s f)"
    using room b by (subst unat_add_lem [THEN iffD1]) (auto simp: bump_def)
  moreover have "?r \<le> hb_size s f + hb_size s f" using calculation(2) sz by (simp add: word_le_nat_alt)
  ultimately have "unat (hb_size s2 ?g) = 2 * unat (hb_size s f) - unat ?r" by (simp add: unat_sub)
  then have "unat ?g + 20 + unat (hb_size s2 ?g) = unat (r_end (regions s ! 0)) + unat (hb_size s f) + 20"
    using G(2) sz b by (simp add: bump_def)
  then show ?thesis using k free s2 t(10) by auto
qed

lemma check_bump:
  assumes b: "bump i f s" and "hb_size s f \<noteq> 0"
  shows "check_walk (regions s ! i) f t s = Some (Inr (t + (hb_size s f + HDR)))"
proof -
  have "f < r_end (regions s ! i)" using b by (simp add: bump_def word_less_nat_alt)
  then have "check_block (regions s ! i) f s = 0"
    using b assms(2) by (auto simp: bump_def check_block_def)
  then show ?thesis
    using b bump_nonnull [OF b]
    by (simp add: check_walk.simps [of _ f] check_walk.simps [of _ NULL] bump_def)
qed

lemma check_first_region:
  assumes "num_regions s = 1" "bump 0 f s" "hb_size s f \<noteq> 0"
  shows "memory_check_heap s = Some (if hb_size s f + HDR = r_size (regions s ! 0) then 0 else -6)"
proof -
  have "take (Suc 0) (regions s) = [regions s ! 0]"
    using assms(2) by (cases "regions s") (auto simp: bump_def)
  then show ?thesis
    using check_bump [OF assms(2,3), of 0] assms(1,2) by (simp add: memory_check_heap_def bump_def)
qed

text \<open>the statistics count a split block twice.  After the first \<^verbatim>\<open>kmalloc\<close> that splits the initial
  block, used plus free memory exceeds the total by the size of the remaining free block.\<close>

theorem heap_statistics_overcount:
  assumes "length (regions s) = 2" and "16 \<le> hs" and "unat hs + 20 \<le> unat he"
    and "rc = 0 \<longrightarrow> apart 20 hs 20 PSRAM_BASE" and "n \<noteq> 0"
    and "unat (round_up n) + 56 \<le> unat (he - hs)"
  shows "\<exists>p s'. kmalloc sw n (memory_init hs he rc s) = Some (p, s')
     \<and> internal_get_used s' + internal_get_free s'
         = internal_get_total s' + hb_size s' (r_free_list (regions s' ! 0))"
proof -
  let ?s = "memory_init hs he rc s" and ?r = "round_up n"
  note I = memory_init_bump [OF assms(1-4)]
  have "20 \<le> he - hs" using assms(6) by (simp add: word_le_nat_alt)
  then have sz: "unat ?r + 36 \<le> unat (hb_size ?s hs)" using assms(6) I(6) by (simp add: unat_sub)
  then have r: "?r \<le> hb_size ?s hs" by (simp add: word_le_nat_alt)
  note C = carve_split [OF I(1) sz]
  have "kmalloc sw n ?s = Some (hs + 20, carve 0 hs ?r ?s)" using kmalloc_bump [OF I(1,8) assms(5)] r by simp
  moreover have "r_free_list (regions (carve 0 hs ?r ?s) ! 0) = hs + 20 + ?r"
    using C(1) by (simp add: bump_def)
  moreover have "r_used (regions (carve 0 hs ?r ?s) ! 0) + r_free (regions (carve 0 hs ?r ?s) ! 0)
      = r_size (regions (carve 0 hs ?r ?s) ! 0) + hb_size (carve 0 hs ?r ?s) (hs + 20 + ?r)"
    unfolding C(2,13,14,15) I(4-7) by simp
  ultimately show ?thesis
    by (auto simp: internal_get_used_def internal_get_free_def internal_get_total_def)
qed

text \<open>\<^verbatim>\<open>memory_check_heap\<close> does not recognise a sound heap: without external RAM it reports 0 right
  after \<^verbatim>\<open>memory_init\<close>, and -6 after the first \<^verbatim>\<open>kmalloc\<close> that splits the initial block, because
  the block list has lost the allocated block.\<close>

theorem check_heap_fails_after_kmalloc:
  assumes "length (regions s) = 2" and "16 \<le> hs" and "unat hs + 20 < unat he" and "rc \<noteq> 0"
    and "n \<noteq> 0" and "unat (round_up n) + 56 \<le> unat (he - hs)"
  shows "memory_check_heap (memory_init hs he rc s) = Some 0
     \<and> (\<exists>p s'. kmalloc sw n (memory_init hs he rc s) = Some (p, s') \<and> p \<noteq> NULL
          \<and> memory_check_heap s' = Some (-6))"
proof
  let ?s = "memory_init hs he rc s" and ?r = "round_up n"
  have "unat hs + 20 \<le> unat he" using assms(3) by simp
  note I = memory_init_bump [OF assms(1,2) this, of rc]
  have I: "bump 0 hs ?s" "r_end (regions ?s ! 0) = he" "r_start (regions ?s ! 0) = hs"
    "r_size (regions ?s ! 0) = he - hs" "hb_size ?s hs = he - hs - HDR" "lock_idle ?s" "num_regions ?s = 1"
    using I assms(4) by simp_all
  have sz0: "unat (he - hs) = unat he - unat hs" using assms(3) by (simp add: unat_sub word_le_nat_alt)
  then have "unat (he - hs - HDR) = unat he - unat hs - 20"
    using assms(3) by (simp add: unat_sub word_le_nat_alt)
  then have "hb_size ?s hs \<noteq> 0" using I(5) assms(3) by auto
  then show "memory_check_heap ?s = Some 0" using check_first_region [OF I(7,1)] I(4,5) by simp
  have sz: "unat ?r + 36 \<le> unat (hb_size ?s hs)"
    using assms(6) I(5) sz0 \<open>unat (he - hs - HDR) = _\<close> by simp
  then have r: "?r \<le> hb_size ?s hs" by (simp add: word_le_nat_alt)
  note C = carve_split [OF I(1) sz] and G = split_geometry(3) [OF bump_bounds [OF I(1)] r sz]
  let ?t = "carve 0 hs ?r ?s"
  have k: "kmalloc sw n ?s = Some (hs + 20, ?t)" using kmalloc_bump [OF I(1,6) assms(5)] r by simp
  have nn: "hs + 20 \<noteq> NULL"
    using bump_bounds(1) [OF I(1)] by (auto simp: unat_add_lem [THEN iffD1] simp flip: unat_eq_zero)
  have "num_regions ?t = 1" using same_kernelD(3) [OF same_kernel_carve [of ?s 0 hs ?r]] I(7) by simp
  moreover have "0 < unat (hb_size ?t (hs + 20 + ?r))" using C(2) G sz by (simp only:)
  then have "hb_size ?t (hs + 20 + ?r) \<noteq> 0" by auto
  ultimately have "memory_check_heap ?t = Some (if hb_size ?t (hs + 20 + ?r) + HDR = r_size (regions ?t ! 0) then 0 else -6)"
    using check_first_region C(1) by blast
  moreover have "hb_size ?t (hs + 20 + ?r) + HDR = he - hs - HDR - ?r" "r_size (regions ?t ! 0) = he - hs"
    using C(2,15) I(4,5) by simp_all
  moreover have "he - hs - HDR - ?r \<noteq> he - hs"
  proof
    assume "he - hs - HDR - ?r = he - hs"
    then have "HDR + ?r = 0" by (simp add: algebra_simps)
    moreover have "unat (HDR + ?r) = 20 + unat ?r"
      using sz unat_u32_less [of "hb_size ?s hs"] by (simp add: unat_add_lem [THEN iffD1])
    ultimately show False by simp
  qed
  ultimately show "\<exists>p s'. kmalloc sw n ?s = Some (p, s') \<and> p \<noteq> NULL \<and> memory_check_heap s' = Some (-6)"
    using k nn by auto
qed

lemma round_up_wrap: "0xFFFFFFF8 < n \<Longrightarrow> round_up n = 0"
proof -
  assume n: "0xFFFFFFF8 < n"
  define k where "k = n - 0xFFFFFFF9"
  have "0xFFFFFFF9 \<le> n" using n inc_le [OF n] by simp
  then have "unat k = unat n - 0xFFFFFFF9" by (simp add: k_def unat_sub)
  then have "unat k < 7" using unat_u32_less [of n] by simp
  then have "unat k \<in> {0, 1, 2, 3, 4, 5, 6}" by auto
  then have "k \<in> {0, 1, 2, 3, 4, 5, 6}"
    by (auto simp flip: unat_eq_0 simp: word_unat_eq_iff)
  moreover have "n + HEAP_ALIGN - 1 = k" by (simp add: k_def)
  then have "round_up n = k AND NOT (HEAP_ALIGN - 1)" by (simp only: round_up_def)
  ultimately show ?thesis by auto
qed

text \<open>the rounding of the size wraps around: a request for more than \<open>0xFFFFFFF8\<close> bytes succeeds
  and returns a block of size 0.\<close>

theorem kmalloc_huge_succeeds:
  assumes "bump 0 f s" and "lock_idle s" and "36 \<le> unat (hb_size s f)" and "0xFFFFFFF8 < n"
  shows "\<exists>s'. kmalloc sw n s = Some (f + 20, s') \<and> f + 20 \<noteq> NULL \<and> hb_size s' f = 0"
proof -
  have "n \<noteq> 0" using assms(4) by auto
  then have "kmalloc sw n s = Some (f + 20, carve 0 f 0 s)"
    using kmalloc_bump [OF assms(1,2), of n sw] round_up_wrap [OF assms(4)] by simp
  moreover have "f + 20 \<noteq> NULL"
    using bump_bounds(1) [OF assms(1)] by (auto simp: unat_add_lem [THEN iffD1] simp flip: unat_eq_zero)
  ultimately show ?thesis using carve_split(3) [OF assms(1), of 0] assms(3) by simp
qed

text \<open>the heap lock excludes: while another task holds it and keeps it across every switch,
  \<^verbatim>\<open>heap_lock_acquire\<close> does not return.\<close>

theorem heap_lock_excludes:
  assumes "current_task (cpu0 s) \<noteq> NULL" and "m_owner (heap_lock s) \<noteq> current_task (cpu0 s)"
    and "m_locked (heap_lock s) \<noteq> 0"
    and "\<And>t t'. task_yield sw t = Some t' \<Longrightarrow> m_locked (heap_lock t) \<noteq> 0 \<Longrightarrow> m_locked (heap_lock t') \<noteq> 0"
  shows "heap_lock_acquire sw s = None"
  unfolding heap_lock_acquire_def by (rule hl.lock_excludes) (fact assms)+

text \<open>whoever returns from \<^verbatim>\<open>heap_lock_acquire\<close> owns the lock, and the matching release by the same
  task in a state with the lock untouched frees it.\<close>

theorem heap_lock_owned:
  assumes "heap_lock_acquire sw s = Some s'" and "current_task (cpu0 s) = c" and "c \<noteq> NULL"
    and "0 \<le> m_count (heap_lock s)"
  shows "m_owner (heap_lock s') = c \<and> m_locked (heap_lock s') \<noteq> 0 \<and> 1 \<le> m_count (heap_lock s')"
  using hl.lock_owner [of sw s s' c] assms by (simp add: heap_lock_acquire_def)


section \<open>Concrete heaps\<close>

definition mstate_boot :: mstate where
  "mstate_boot = kstate.extend kstate_boot
     (mstate.fields (\<lambda>_. 0) [mem_region_zero, mem_region_zero] 0 0 mutex_zero)"

lemma mstate_boot_simps [simp]:
  "length (regions mstate_boot) = 2" "current_task (cpu0 mstate_boot) = NULL" "mem mstate_boot = (\<lambda>_. 0)"
  "heap_lock mstate_boot = mutex_zero"
  by (simp_all add: mstate_boot_def kstate.defs mstate.defs kstate_boot_def cpu_state_zero_def)

text \<open>A heap of 64 KiB at \<open>0x3FC90000\<close>, without external RAM.\<close>

definition demo_heap :: mstate where
  "demo_heap = memory_init 0x3FC90000 0x3FCA0000 (-1) mstate_boot"

lemma demo_heap_bump:
  "bump 0 0x3FC90000 demo_heap" "r_end (regions demo_heap ! 0) = 0x3FCA0000"
  "hb_size demo_heap 0x3FC90000 = 0xFFEC" "lock_idle demo_heap" "num_regions demo_heap = 1"
  using memory_init_bump [of mstate_boot "0x3FC90000" "0x3FCA0000" "-1"] by (simp_all add: demo_heap_def)

lemma round_up_example: "round_up 100 = 104"
  by (simp add: round_up_def)

theorem kmalloc_blocks_disjoint_witness:
  "\<exists>p q s'. kmallocs (\<lambda>_ _. Some) [100, 100] (memory_init 0x3FC90000 0x3FCA0000 (-1) mstate_boot)
        = Some ([p, q], s') \<and> (p \<noteq> NULL \<and> q \<noteq> NULL \<longrightarrow> unat p + 124 \<le> unat q)"
proof -
  obtain ps s' where "kmallocs (\<lambda>_ _. Some) [100, 100] (memory_init 0x3FC90000 0x3FCA0000 (-1) mstate_boot) = Some (ps, s')"
    and l: "length ps = 2"
    and d: "\<forall>j k. j < k \<and> k < 2 \<and> ps ! j \<noteq> NULL \<and> ps ! k \<noteq> NULL \<longrightarrow>
          unat (ps ! j) + unat (round_up ([100, 100] ! j)) + 20 \<le> unat (ps ! k)"
    using kmalloc_blocks_disjoint [of mstate_boot "0x3FC90000" "0x3FCA0000" "-1" "\<lambda>_ _. Some" "[100, 100]"] by auto
  moreover obtain p q where "ps = [p, q]" using l by (auto simp: length_Suc_conv numeral_2_eq_2)
  moreover have "p \<noteq> NULL \<and> q \<noteq> NULL \<longrightarrow> unat p + 124 \<le> unat q"
    using d [rule_format, of 0 1] \<open>ps = [p, q]\<close> by (auto simp: round_up_example)
  ultimately show ?thesis by auto
qed

theorem kfree_overruns_region_witness:
  "\<exists>p s1 s2 g. kmalloc (\<lambda>_ _. Some) 100 demo_heap = Some (p, s1) \<and> kfree (\<lambda>_ _. Some) p s1 = Some s2
     \<and> r_free_list (regions s2 ! 0) = g \<and> unat g + 20 + unat (hb_size s2 g) = 0x3FCB0000"
  using kfree_overruns_region [OF demo_heap_bump(1,4), of 100 "\<lambda>_ _. Some"] demo_heap_bump
  by (auto simp: round_up_example)

theorem heap_statistics_overcount_witness:
  "\<exists>p s'. kmalloc (\<lambda>_ _. Some) 100 demo_heap = Some (p, s')
     \<and> internal_get_used s' + internal_get_free s'
         = internal_get_total s' + hb_size s' (r_free_list (regions s' ! 0))"
  using heap_statistics_overcount [of mstate_boot "0x3FC90000" "0x3FCA0000" "-1" 100 "\<lambda>_ _. Some"]
  by (simp add: round_up_example demo_heap_def)

theorem check_heap_fails_after_kmalloc_witness:
  "memory_check_heap demo_heap = Some 0
   \<and> (\<exists>p s'. kmalloc (\<lambda>_ _. Some) 100 demo_heap = Some (p, s') \<and> memory_check_heap s' = Some (-6))"
  using check_heap_fails_after_kmalloc [of mstate_boot "0x3FC90000" "0x3FCA0000" "-1" 100 "\<lambda>_ _. Some"]
  by (auto simp: round_up_example demo_heap_def)

theorem kmalloc_huge_succeeds_witness:
  "\<exists>s'. kmalloc (\<lambda>_ _. Some) 0xFFFFFFFF demo_heap = Some (0x3FC90014, s') \<and> hb_size s' 0x3FC90000 = 0"
  using kmalloc_huge_succeeds [OF demo_heap_bump(1,4), of "0xFFFFFFFF" "\<lambda>_ _. Some"] demo_heap_bump(3) by simp

lemma heap_lock_pick: "heap_lock (snd (scheduler_pick_next s)) = heap_lock s"
proof -
  have deq: "heap_lock (task_dequeue p s) = heap_lock s" for p and s :: "'a mstate_scheme"
    by (simp add: task_dequeue_def task_set_defs Let_def)
  have "heap_lock (snd (pick_from n s)) = heap_lock s" for n by (induction n) (simp_all add: deq)
  then show ?thesis by (simp add: scheduler_pick_next_def)
qed

theorem heap_lock_excludes_witness:
  "heap_lock_acquire (\<lambda>_ _ _. None)
     (demo_heap\<lparr>cpu0 := cpu_state_zero\<lparr>current_task := 0x1000\<rparr>, heap_lock := mutex_held 0x2000,
        runnable_queue := (replicate 32 NULL)[16 := 0x2000]\<rparr>) = None"
proof (rule heap_lock_excludes)
  fix t t' :: mstate
  assume "task_yield (\<lambda>_ _ _. None) t = Some t'" "m_locked (heap_lock t) \<noteq> 0"
  then show "m_locked (heap_lock t') \<noteq> 0"
    using heap_lock_pick [of t]
    by (auto simp: task_yield_def schedule_def Let_def split: prod.splits if_splits)
qed (simp_all add: mutex_held_def)

theorem heap_lock_owned_witness:
  "\<exists>s'. heap_lock_acquire (\<lambda>_ _. Some) (demo_heap\<lparr>cpu0 := cpu_state_zero\<lparr>current_task := 0x1000\<rparr>, heap_lock := mutex_zero\<rparr>)
      = Some s' \<and> m_owner (heap_lock s') = 0x1000"
proof -
  let ?s = "demo_heap\<lparr>cpu0 := cpu_state_zero\<lparr>current_task := 0x1000\<rparr>, heap_lock := mutex_zero\<rparr>"
  obtain s' where s': "heap_lock_acquire (\<lambda>_ _. Some) ?s = Some s'"
    using hl.lock_zero [of ?s "0x1000"] by (simp add: heap_lock_acquire_def)
  then show ?thesis using heap_lock_owned [OF s', of "0x1000"] by (simp add: mutex_zero_def)
qed

end
