(* ===== verification/Device.thy ===== *)
theory Device
  imports Memory
begin

text \<open>
  Memory-mapped devices: the UART (\<^verbatim>\<open>drivers/uart\<close>, \<^verbatim>\<open>drivers/console\<close>), the external RAM
  (\<^verbatim>\<open>drivers/psram\<close>), the SPI flash (\<^verbatim>\<open>drivers/flash\<close>) and the drivers that are stubs.

  The hardware is a parameter of the state: \<open>io_dev h a\<close> is what a read of the register \<open>a\<close> returns
  after the history \<open>h\<close> of register accesses, so any deterministic device can stand behind it.  Every
  access is appended to \<open>io_log\<close>.  The polling loops are partial functions: \<open>None\<close> is a device that
  never becomes ready.
\<close>

unbundle bit_operations_syntax

datatype io_event = Rd u32 u32 | Wr u32 u32

record dstate = mstate +
  io_dev :: "io_event list \<Rightarrow> u32 \<Rightarrow> u32"
  io_log :: "io_event list"

definition reg_read :: "u32 \<Rightarrow> 'a dstate_scheme \<Rightarrow> u32 \<times> 'a dstate_scheme" where
  "reg_read a s = (let v = io_dev s (io_log s) a in (v, s\<lparr>io_log := io_log s @ [Rd a v]\<rparr>))"

definition reg_write :: "u32 \<Rightarrow> u32 \<Rightarrow> 'a dstate_scheme \<Rightarrow> 'a dstate_scheme" where
  "reg_write a v s = s\<lparr>io_log := io_log s @ [Wr a v]\<rparr>"

text \<open>The loops \<^verbatim>\<open>while (reg_read(r) & mask)\<close>.\<close>

partial_function (option) wait_clear :: "u32 \<Rightarrow> u32 \<Rightarrow> 'a dstate_scheme \<Rightarrow> 'a dstate_scheme option" where
  "wait_clear r msk s =
     (let (v, s') = reg_read r s in if v AND msk \<noteq> 0 then wait_clear r msk s' else Some s')"


section \<open>UART and console\<close>

abbreviation (input) DR_REG_UART_BASE :: u32 where "DR_REG_UART_BASE \<equiv> 0x60000000"
abbreviation (input) UART_FIFO_REG :: u32 where "UART_FIFO_REG \<equiv> 0x60000000"
abbreviation (input) UART_INT_ENA_REG :: u32 where "UART_INT_ENA_REG \<equiv> 0x6000000C"
abbreviation (input) UART_INT_CLR_REG :: u32 where "UART_INT_CLR_REG \<equiv> 0x60000010"
abbreviation (input) UART_CLKDIV_REG :: u32 where "UART_CLKDIV_REG \<equiv> 0x60000014"
abbreviation (input) UART_STATUS_REG :: u32 where "UART_STATUS_REG \<equiv> 0x6000001C"
abbreviation (input) UART_CONF0_REG :: u32 where "UART_CONF0_REG \<equiv> 0x60000020"
abbreviation (input) UART_CONF1_REG :: u32 where "UART_CONF1_REG \<equiv> 0x60000024"

text \<open>String literals of the source as bytes.\<close>

definition bytes :: "string \<Rightarrow> u8 list" where
  "bytes = map of_char"

definition uart_init :: "'a dstate_scheme \<Rightarrow> 'a dstate_scheme" where
  "uart_init s =
     (let clkdiv = 80000000 div 115200;
          s = reg_write UART_CLKDIV_REG clkdiv s;
          s = reg_write UART_CONF0_REG 0 s;
          s = reg_write UART_CONF1_REG 0 s;
          s = reg_write UART_INT_ENA_REG 0 s
      in reg_write UART_INT_CLR_REG 0xFFFFFFFF s)"

definition uart_putc :: "u8 \<Rightarrow> 'a dstate_scheme \<Rightarrow> 'a dstate_scheme option" where
  "uart_putc c s = do { s \<leftarrow> wait_clear UART_STATUS_REG 2 s; Some (reg_write UART_FIFO_REG (ucast c) s) }"

fun uart_puts :: "u8 list \<Rightarrow> 'a dstate_scheme \<Rightarrow> 'a dstate_scheme option" where
  "uart_puts [] s = Some s"
| "uart_puts (c # cs) s = do {
     s \<leftarrow> (if c = 10 then uart_putc 13 s else Some s);
     s \<leftarrow> uart_putc c s;
     uart_puts cs s }"

definition hex_digit :: "u32 \<Rightarrow> u8" where
  "hex_digit d = bytes ''0123456789abcdef'' ! unat d"

fun puthex_loop :: "nat list \<Rightarrow> u32 \<Rightarrow> 'a dstate_scheme \<Rightarrow> 'a dstate_scheme option" where
  "puthex_loop [] val s = Some s"
| "puthex_loop (i # is) val s = do {
     s \<leftarrow> uart_putc (hex_digit (drop_bit i val AND 0xF)) s;
     puthex_loop is val s }"

definition uart_puthex :: "u32 \<Rightarrow> 'a dstate_scheme \<Rightarrow> 'a dstate_scheme option" where
  "uart_puthex val s = puthex_loop [28, 24, 20, 16, 12, 8, 4, 0] val s"

text \<open>The first loop of \<^verbatim>\<open>uart_putdec\<close> fills \<^verbatim>\<open>buf\<close> with the digits, least significant first; a value
  has at most ten, so \<^verbatim>\<open>buf[12]\<close> is large enough.\<close>

function dec_digits :: "u32 \<Rightarrow> u8 list" where
  "dec_digits val = (if val = 0 then [] else (48 + ucast (val mod 10)) # dec_digits (val div 10))"
  by pat_completeness auto

termination dec_digits
  by (relation "measure unat") (auto simp: unat_div unat_gt_0 intro!: div_less_dividend)

declare dec_digits.simps [simp del]

fun put_all :: "u8 list \<Rightarrow> 'a dstate_scheme \<Rightarrow> 'a dstate_scheme option" where
  "put_all [] s = Some s"
| "put_all (c # cs) s = do { s \<leftarrow> uart_putc c s; put_all cs s }"

definition uart_putdec :: "u32 \<Rightarrow> 'a dstate_scheme \<Rightarrow> 'a dstate_scheme option" where
  "uart_putdec val s = (if val = 0 then uart_putc 48 s else put_all (rev (dec_digits val)) s)"

definition uart_getc :: "'a dstate_scheme \<Rightarrow> int \<times> 'a dstate_scheme" where
  "uart_getc s =
     (let (st, s) = reg_read UART_STATUS_REG s
      in if st AND 1 \<noteq> 0
         then (let (v, s) = reg_read UART_FIFO_REG s in (uint (v AND 0xFF), s))
         else (-1, s))"

definition console_putc :: "u8 \<Rightarrow> 'a dstate_scheme \<Rightarrow> 'a dstate_scheme option" where
  "console_putc c s = uart_putc c s"

definition console_puts :: "u8 list \<Rightarrow> 'a dstate_scheme \<Rightarrow> 'a dstate_scheme option" where
  "console_puts cs s = uart_puts cs s"

definition console_getc :: "'a dstate_scheme \<Rightarrow> int \<times> 'a dstate_scheme" where
  "console_getc s = uart_getc s"


section \<open>SPI transfers\<close>

text \<open>The loop that stores the bytes of a data word: \<^verbatim>\<open>*dst++ = (data >> (i * 8)) & 0xFF\<close>.\<close>

fun unpack :: "nat \<Rightarrow> nat \<Rightarrow> u32 \<Rightarrow> u32 \<Rightarrow> mem \<Rightarrow> mem" where
  "unpack i 0 data dst m = m"
| "unpack i (Suc n) data dst m = unpack (Suc i) n data (dst + 1) (m(dst := ucast (drop_bit (8 * i) data AND 0xFF)))"

text \<open>The loop that gathers up to four bytes into a word.\<close>

fun pack :: "nat \<Rightarrow> nat \<Rightarrow> u32 \<Rightarrow> mem \<Rightarrow> u32 \<Rightarrow> u32" where
  "pack j 0 src m word = word"
| "pack j (Suc n) src m word = pack (Suc j) n src m (word OR push_bit (8 * j) (ucast (m (src + of_nat j))))"

text \<open>The loop over the words of a chunk; it writes the data registers from \<open>w0\<close> on.\<close>

function load_words :: "u32 \<Rightarrow> nat \<Rightarrow> nat \<Rightarrow> u32 \<Rightarrow> 'a dstate_scheme \<Rightarrow> 'a dstate_scheme" where
  "load_words w0 i chunk src s =
     (if i < chunk
      then let copy = (if chunk - i \<ge> 4 then 4 else chunk - i);
               word = pack 0 copy (src + of_nat i) (mem s) 0
           in load_words w0 (i + 4) chunk src (reg_write (w0 + of_nat i) word s)
      else s)"
  by pat_completeness auto

termination load_words
  by (relation "measure (\<lambda>(w0, i, chunk, src, s). chunk - i)") auto

declare load_words.simps [simp del]

definition spi_cmd :: "u32 \<Rightarrow> u32" where
  "spi_cmd c = (c AND 0xFF) OR 0x80000000 OR 0x00040000 OR 0x00002000"


section \<open>External RAM\<close>

abbreviation (input) SPI1_CMD_REG :: u32 where "SPI1_CMD_REG \<equiv> 0x60003000"
abbreviation (input) SPI1_ADDR_REG :: u32 where "SPI1_ADDR_REG \<equiv> 0x60003004"
abbreviation (input) SPI1_CTRL_REG :: u32 where "SPI1_CTRL_REG \<equiv> 0x60003008"
abbreviation (input) SPI1_CTRL1_REG :: u32 where "SPI1_CTRL1_REG \<equiv> 0x6000300C"
abbreviation (input) SPI1_MISC_REG :: u32 where "SPI1_MISC_REG \<equiv> 0x60003028"
abbreviation (input) SPI1_CACHE_SCTRL_REG :: u32 where "SPI1_CACHE_SCTRL_REG \<equiv> 0x60003030"
abbreviation (input) SPI1_W0_REG :: u32 where "SPI1_W0_REG \<equiv> 0x60003058"
abbreviation (input) DR_REG_PCR_BASE :: u32 where "DR_REG_PCR_BASE \<equiv> 0x60096000"
abbreviation (input) DR_REG_SYSCON_BASE :: u32 where "DR_REG_SYSCON_BASE \<equiv> 0x600C0000"

definition spi1_wait_idle :: "'a dstate_scheme \<Rightarrow> 'a dstate_scheme option" where
  "spi1_wait_idle s = wait_clear SPI1_CMD_REG 0x40000 s"

definition psram_read_id :: "'a dstate_scheme \<Rightarrow> (u8 \<times> 'a dstate_scheme) option" where
  "psram_read_id s = do {
     let s = reg_write SPI1_ADDR_REG 0 s;
     let s = reg_write SPI1_CMD_REG (spi_cmd 0x9F) s;
     s \<leftarrow> spi1_wait_idle s;
     let (v, s) = reg_read SPI1_W0_REG s;
     Some (ucast (v AND 0xFF), s) }"

definition psram_write_cmd :: "u8 \<Rightarrow> u32 \<Rightarrow> u32 \<Rightarrow> 'a dstate_scheme \<Rightarrow> 'a dstate_scheme option" where
  "psram_write_cmd cmd addr data s = do {
     let s = reg_write SPI1_ADDR_REG (addr AND 0xFFFFFF) s;
     let s = reg_write SPI1_W0_REG data s;
     let s = reg_write SPI1_CMD_REG (spi_cmd (ucast cmd)) s;
     spi1_wait_idle s }"

definition psram_init :: "'a dstate_scheme \<Rightarrow> (int \<times> 'a dstate_scheme) option" where
  "psram_init s = do {
     let s = reg_write (DR_REG_PCR_BASE + 0x130) 1 s;
     let s = reg_write (DR_REG_PCR_BASE + 0x134) 1 s;
     let s = reg_write SPI1_CTRL_REG 0 s;
     let s = reg_write SPI1_CTRL1_REG 0 s;
     let s = reg_write SPI1_MISC_REG 0 s;
     let s = reg_write SPI1_CACHE_SCTRL_REG 0 s;
     (id, s) \<leftarrow> psram_read_id s;
     if id \<noteq> 0x5D \<and> id \<noteq> 0x26 \<and> id \<noteq> 0x27 then Some (-1, s)
     else do {
       s \<leftarrow> psram_write_cmd 0x66 0 0 s;
       s \<leftarrow> psram_write_cmd 0x99 0 0 s;
       let s = reg_write SPI1_CACHE_SCTRL_REG (0x80000000 OR 0x40000000 OR 0x20000000 OR (0x800000 - 1)) s;
       let s = reg_write SPI1_MISC_REG (0x2000 OR 0x4000) s;
       let (v, s) = reg_read DR_REG_SYSCON_BASE s;
       let s = reg_write DR_REG_SYSCON_BASE (v OR 0x4000000) s;
       Some (0, s) } }"

partial_function (option) psram_read_loop ::
  "u32 \<Rightarrow> u32 \<Rightarrow> u32 \<Rightarrow> 'a dstate_scheme \<Rightarrow> 'a dstate_scheme option" where
  "psram_read_loop psram_addr dst remaining s =
     (if remaining > 0
      then do {
        let s = reg_write SPI1_ADDR_REG (psram_addr AND 0xFFFFFF) s;
        let s = reg_write SPI1_CMD_REG (spi_cmd 0x0B) s;
        s \<leftarrow> spi1_wait_idle s;
        let (data, s) = reg_read SPI1_W0_REG s;
        let copy_len = (if remaining < 4 then remaining else 4);
        let s = s\<lparr>mem := unpack 0 (unat copy_len) data dst (mem s)\<rparr>;
        psram_read_loop (psram_addr + copy_len) (dst + copy_len) (remaining - copy_len) s }
      else Some s)"

definition psram_read :: "u32 \<Rightarrow> u32 \<Rightarrow> u32 \<Rightarrow> 'a dstate_scheme \<Rightarrow> (int \<times> 'a dstate_scheme) option" where
  "psram_read addr buf len s =
     (if addr \<ge> PSRAM_SIZE then Some (-1, s)
      else if len = 0 then Some (0, s)
      else do { s \<leftarrow> psram_read_loop (PSRAM_BASE + addr) buf len s; Some (0, s) })"

partial_function (option) psram_write_loop ::
  "u32 \<Rightarrow> u32 \<Rightarrow> u32 \<Rightarrow> 'a dstate_scheme \<Rightarrow> 'a dstate_scheme option" where
  "psram_write_loop psram_addr src remaining s =
     (if remaining > 0
      then do {
        let page_offset = psram_addr mod 256;
        let chunk = 256 - page_offset;
        let chunk = (if chunk > remaining then remaining else chunk);
        let s = reg_write SPI1_ADDR_REG (psram_addr AND 0xFFFFFF) s;
        let s = reg_write SPI1_W0_REG 0 s;
        let s = load_words SPI1_W0_REG 0 (unat chunk) src s;
        let s = reg_write SPI1_CMD_REG (spi_cmd 0x02) s;
        s \<leftarrow> spi1_wait_idle s;
        psram_write_loop (psram_addr + chunk) (src + chunk) (remaining - chunk) s }
      else Some s)"

definition psram_write :: "u32 \<Rightarrow> u32 \<Rightarrow> u32 \<Rightarrow> 'a dstate_scheme \<Rightarrow> (int \<times> 'a dstate_scheme) option" where
  "psram_write addr buf len s =
     (if addr \<ge> PSRAM_SIZE then Some (-1, s)
      else if len = 0 then Some (0, s)
      else do { s \<leftarrow> psram_write_loop (PSRAM_BASE + addr) buf len s; Some (0, s) })"


section \<open>SPI flash\<close>

abbreviation (input) FLASH_SECTOR_SIZE :: u32 where "FLASH_SECTOR_SIZE \<equiv> 4096"
abbreviation (input) FLASH_PAGE_SIZE :: u32 where "FLASH_PAGE_SIZE \<equiv> 256"
abbreviation (input) FLASH_SIZE :: u32 where "FLASH_SIZE \<equiv> 0x1000000"
abbreviation (input) SPI0_CMD_REG :: u32 where "SPI0_CMD_REG \<equiv> 0x60002000"
abbreviation (input) SPI0_ADDR_REG :: u32 where "SPI0_ADDR_REG \<equiv> 0x60002004"
abbreviation (input) SPI0_CTRL1_REG :: u32 where "SPI0_CTRL1_REG \<equiv> 0x6000200C"
abbreviation (input) SPI0_W0_REG :: u32 where "SPI0_W0_REG \<equiv> 0x60002058"

definition spi_wait_idle :: "'a dstate_scheme \<Rightarrow> 'a dstate_scheme option" where
  "spi_wait_idle s = wait_clear SPI0_CMD_REG 0x40000 s"

definition spi_write_enable :: "'a dstate_scheme \<Rightarrow> 'a dstate_scheme option" where
  "spi_write_enable s = spi_wait_idle (reg_write SPI0_CMD_REG ((0x06 AND 0xFF) OR 0x80000000 OR 0x00040000) s)"

definition spi_read_status :: "'a dstate_scheme \<Rightarrow> (u8 \<times> 'a dstate_scheme) option" where
  "spi_read_status s = do {
     s \<leftarrow> spi_wait_idle (reg_write SPI0_CMD_REG (spi_cmd 0x05) s);
     let (v, s) = reg_read SPI0_W0_REG s;
     Some (ucast (v AND 0xFF), s) }"

partial_function (option) spi_wait_write_done :: "'a dstate_scheme \<Rightarrow> 'a dstate_scheme option" where
  "spi_wait_write_done s = do {
     (st, s) \<leftarrow> spi_read_status s;
     if st AND 1 \<noteq> 0 then spi_wait_write_done s else Some s }"

definition flash_init :: "'a dstate_scheme \<Rightarrow> 'a dstate_scheme" where
  "flash_init s = reg_write SPI0_CTRL1_REG 0 s"

partial_function (option) flash_read_loop ::
  "u32 \<Rightarrow> u32 \<Rightarrow> u32 \<Rightarrow> 'a dstate_scheme \<Rightarrow> 'a dstate_scheme option" where
  "flash_read_loop addr dst remaining s =
     (if remaining > 0
      then do {
        let s = reg_write SPI0_ADDR_REG (addr AND 0xFFFFFF) s;
        let s = reg_write SPI0_CMD_REG (spi_cmd 0x0B) s;
        s \<leftarrow> spi_wait_idle s;
        let (data, s) = reg_read SPI0_W0_REG s;
        let copy_len = (if remaining < 4 then remaining else 4);
        let s = s\<lparr>mem := unpack 0 (unat copy_len) data dst (mem s)\<rparr>;
        flash_read_loop (addr + copy_len) (dst + copy_len) (remaining - copy_len) s }
      else Some s)"

definition flash_read :: "u32 \<Rightarrow> u32 \<Rightarrow> u32 \<Rightarrow> 'a dstate_scheme \<Rightarrow> (int \<times> 'a dstate_scheme) option" where
  "flash_read addr buf len s =
     (if addr \<ge> FLASH_SIZE then Some (-1, s)
      else if len = 0 then Some (0, s)
      else do { s \<leftarrow> flash_read_loop addr buf len s; Some (0, s) })"

partial_function (option) flash_write_loop ::
  "u32 \<Rightarrow> u32 \<Rightarrow> u32 \<Rightarrow> 'a dstate_scheme \<Rightarrow> 'a dstate_scheme option" where
  "flash_write_loop addr src remaining s =
     (if remaining > 0
      then do {
        let page_offset = addr mod FLASH_PAGE_SIZE;
        let chunk = FLASH_PAGE_SIZE - page_offset;
        let chunk = (if chunk > remaining then remaining else chunk);
        s \<leftarrow> spi_write_enable s;
        let s = reg_write SPI0_ADDR_REG (addr AND 0xFFFFFF) s;
        let s = reg_write SPI0_W0_REG 0 s;
        let s = load_words SPI0_W0_REG 0 (unat chunk) src s;
        let s = reg_write SPI0_CMD_REG (spi_cmd 0x02) s;
        s \<leftarrow> spi_wait_idle s;
        s \<leftarrow> spi_wait_write_done s;
        flash_write_loop (addr + chunk) (src + chunk) (remaining - chunk) s }
      else Some s)"

definition flash_write :: "u32 \<Rightarrow> u32 \<Rightarrow> u32 \<Rightarrow> 'a dstate_scheme \<Rightarrow> (int \<times> 'a dstate_scheme) option" where
  "flash_write addr buf len s =
     (if addr \<ge> FLASH_SIZE then Some (-1, s)
      else if len = 0 then Some (0, s)
      else do { s \<leftarrow> flash_write_loop addr buf len s; Some (0, s) })"

partial_function (option) flash_erase_loop ::
  "u32 \<Rightarrow> u32 \<Rightarrow> 'a dstate_scheme \<Rightarrow> (int \<times> 'a dstate_scheme) option" where
  "flash_erase_loop cur remaining s =
     (if remaining > 0
      then if cur mod FLASH_SECTOR_SIZE = 0 \<and> remaining \<ge> FLASH_SECTOR_SIZE
           then do {
             s \<leftarrow> spi_write_enable s;
             let s = reg_write SPI0_ADDR_REG (cur AND 0xFFFFFF) s;
             let s = reg_write SPI0_CMD_REG (spi_cmd 0x20) s;
             s \<leftarrow> spi_wait_idle s;
             s \<leftarrow> spi_wait_write_done s;
             flash_erase_loop (cur + FLASH_SECTOR_SIZE) (remaining - FLASH_SECTOR_SIZE) s }
           else Some (-1, s)
      else Some (0, s))"

definition flash_erase :: "u32 \<Rightarrow> u32 \<Rightarrow> 'a dstate_scheme \<Rightarrow> (int \<times> 'a dstate_scheme) option" where
  "flash_erase addr len s = (if addr \<ge> FLASH_SIZE then Some (-1, s) else flash_erase_loop addr len s)"

definition flash_get_size :: u32 where
  "flash_get_size = 16 * 1024 * 1024"


section \<open>Drivers without an implementation\<close>

text \<open>\<^verbatim>\<open>drivers/dma\<close> and \<^verbatim>\<open>fs/storage\<close> have bodies that ignore their arguments; the values they return
  are what their callers see.\<close>

definition dma_alloc :: "u32 \<Rightarrow> u32" where "dma_alloc sz = NULL"
definition dma_transfer :: "u32 \<Rightarrow> u32 \<Rightarrow> u32 \<Rightarrow> int" where "dma_transfer src dst len = 0"
definition gpio_get_level :: "int \<Rightarrow> int" where "gpio_get_level gpio = 0"
definition storage_init :: int where "storage_init = 0"
definition storage_read :: "u32 \<Rightarrow> u32 \<Rightarrow> u32 \<Rightarrow> int" where "storage_read block buf count = 0"
definition storage_write :: "u32 \<Rightarrow> u32 \<Rightarrow> u32 \<Rightarrow> int" where "storage_write block buf count = 0"
definition storage_get_size :: u32 where "storage_get_size = 0"

lemma ucast_u8_u32 [simp]: "ucast (ucast (c :: u8) :: u32) = c"
  by (rule bit_word_eqI) (auto simp: bit_simps)

section \<open>Register accesses\<close>

lemma reg_simps [simp]:
  "mem (reg_write a v s) = mem s" "io_dev (reg_write a v s) = io_dev s"
  "io_log (reg_write a v s) = io_log s @ [Wr a v]"
  by (simp_all add: reg_write_def)

text \<open>\<open>logged es s\<close>: the state after the register accesses \<open>es\<close>.\<close>

definition logged :: "io_event list \<Rightarrow> 'a dstate_scheme \<Rightarrow> 'a dstate_scheme" where
  "logged es s = s\<lparr>io_log := io_log s @ es\<rparr>"

lemma logged_simps [simp]:
  "mem (logged es s) = mem s" "io_dev (logged es s) = io_dev s" "io_log (logged es s) = io_log s @ es"
  "logged es (logged es' s) = logged (es' @ es) s" "logged [] s = s"
  "(logged es s)\<lparr>mem := m\<rparr> = logged es (s\<lparr>mem := m\<rparr>)"
  by (simp_all add: logged_def)

lemma reg_write_logged: "reg_write a v s = logged [Wr a v] s"
  by (simp add: reg_write_def logged_def)

lemma reg_read_logged: "reg_read a s = (io_dev s (io_log s) a, logged [Rd a (io_dev s (io_log s) a)] s)"
  by (simp add: reg_read_def logged_def Let_def)

lemmas reg_logged = reg_write_logged reg_read_logged

text \<open>A device that never raises the bits the driver waits for.\<close>

definition ready :: "u32 \<Rightarrow> u32 \<Rightarrow> 'a dstate_scheme \<Rightarrow> bool" where
  "ready r msk s \<longleftrightarrow> (\<forall>h. io_dev s h r AND msk = 0)"

lemma ready_cong [simp]:
  "ready r k (logged es s) = ready r k s" "ready r k (s\<lparr>mem := m\<rparr>) = ready r k s"
  by (simp_all add: ready_def)

lemma wait_clear_ready:
  assumes "ready r k s"
  shows "wait_clear r k s = Some (logged [Rd r (io_dev s (io_log s) r)] s)"
  using assms by (subst wait_clear.simps) (simp add: ready_def reg_logged)

text \<open>More generally a wait ends as soon as the bits are down at some later access.\<close>

lemma wait_clear_eventually:
  assumes "\<forall>i<n. io_dev s (io_log s @ ws i) r AND k \<noteq> 0" and "io_dev s (io_log s @ ws n) r AND k = 0"
    and "ws 0 = []" and "\<forall>i. ws (Suc i) = ws i @ [Rd r (io_dev s (io_log s @ ws i) r)]"
  shows "wait_clear r k s = Some (logged (ws (Suc n)) s)"
proof -
  have "wait_clear r k (logged (ws i) s) = Some (logged (ws (Suc n)) s)" if "i \<le> n" for i
    using that
  proof (induction "n - i" arbitrary: i)
    case 0
    then have "i = n" by simp
    then show ?case using assms(2,4) by (subst wait_clear.simps) (simp add: reg_logged)
  next
    case (Suc d)
    then have "i < n" "d = n - Suc i" by simp_all
    then show ?case using Suc.hyps(1) [of "Suc i"] assms(1,4)
      by (subst wait_clear.simps) (simp add: reg_logged)
  qed
  from this [of 0] show ?thesis using assms(3) by simp
qed


section \<open>What the UART sends\<close>

abbreviation (input) uart_ready :: "'a dstate_scheme \<Rightarrow> bool" where
  "uart_ready s \<equiv> ready UART_STATUS_REG 2 s"

text \<open>The bytes written to the transmit FIFO.\<close>

fun sent :: "io_event list \<Rightarrow> u8 list" where
  "sent [] = []"
| "sent (Wr a v # es) = (if a = UART_FIFO_REG then ucast v # sent es else sent es)"
| "sent (Rd a v # es) = sent es"

lemma sent_append [simp]: "sent (es @ es') = sent es @ sent es'"
  by (induction es rule: sent.induct) auto

definition uart_out :: "'a dstate_scheme \<Rightarrow> u8 list" where
  "uart_out s = sent (io_log s)"

text \<open>\<open>sends bs s s'\<close>: from \<open>s\<close> to \<open>s'\<close> the UART sends \<open>bs\<close> and nothing but the log changes.\<close>

definition sends :: "u8 list \<Rightarrow> 'a dstate_scheme \<Rightarrow> 'a dstate_scheme \<Rightarrow> bool" where
  "sends bs s s' \<longleftrightarrow> (\<exists>es. s' = logged es s \<and> sent es = bs)"

lemma sends_trans: "sends bs s s1 \<Longrightarrow> sends bs' s1 s2 \<Longrightarrow> sends (bs @ bs') s s2"
  by (auto simp: sends_def)

lemma sends_nil [simp]: "sends [] s s"
  unfolding sends_def by (rule exI [of _ "[]"]) simp

lemma sends_ready: "sends bs s s' \<Longrightarrow> ready r k s' = ready r k s"
  by (auto simp: sends_def)

lemma sends_out: "sends bs s s' \<Longrightarrow> uart_out s' = uart_out s @ bs \<and> mem s' = mem s"
  by (auto simp: sends_def uart_out_def)

lemma uart_putc_sends:
  assumes "uart_ready s" shows "\<exists>s'. uart_putc c s = Some s' \<and> sends [c] s s'"
  using wait_clear_ready [OF assms]
  by (simp add: uart_putc_def reg_logged sends_def) (rule exI, rule conjI, rule refl, simp)

lemma put_all_sends:
  assumes "uart_ready s" shows "\<exists>s'. put_all bs s = Some s' \<and> sends bs s s'"
  using assms
proof (induction bs arbitrary: s)
  case (Cons b bs)
  obtain s1 where s1: "uart_putc b s = Some s1" "sends [b] s s1"
    using uart_putc_sends [OF Cons.prems] by blast
  then obtain s2 where "put_all bs s1 = Some s2" "sends bs s1 s2"
    using Cons.IH [of s1] Cons.prems sends_ready [OF s1(2)] by blast
  then show ?case using s1 sends_trans [OF s1(2)] by fastforce
qed simp

fun crlf :: "u8 list \<Rightarrow> u8 list" where
  "crlf [] = []"
| "crlf (c # cs) = (if c = 10 then 13 # 10 # crlf cs else c # crlf cs)"

lemma uart_puts_sends:
  assumes "uart_ready s" shows "\<exists>s'. uart_puts bs s = Some s' \<and> sends (crlf bs) s s'"
  using assms
proof (induction bs arbitrary: s)
  case (Cons b bs)
  obtain s0 where s0: "(if b = 10 then uart_putc 13 s else Some s) = Some s0" "sends (if b = 10 then [13] else []) s s0"
    using uart_putc_sends [OF Cons.prems] by (cases "b = 10") auto
  note r0 = sends_ready [OF s0(2)]
  obtain s1 where s1: "uart_putc b s0 = Some s1" "sends [b] s0 s1"
    using uart_putc_sends [of s0] Cons.prems r0 by blast
  note r1 = sends_ready [OF s1(2)]
  obtain s2 where s2: "uart_puts bs s1 = Some s2" "sends (crlf bs) s1 s2"
    using Cons.IH [of s1] Cons.prems r0 r1 by blast
  have "sends (crlf (b # bs)) s s2"
    using sends_trans [OF sends_trans [OF s0(2) s1(2)] s2(2)] by (simp split: if_splits)
  then show ?case using s0(1) s1(1) s2(1) by auto
qed simp

text \<open>Decimal digits: value and shape.\<close>

fun dec_value :: "u8 list \<Rightarrow> nat" where
  "dec_value [] = 0"
| "dec_value (d # ds) = unat (d - 48) + 10 * dec_value ds"

lemma dec_digits_spec:
  "dec_value (dec_digits v) = unat v" "\<forall>d\<in>set (dec_digits v). 48 \<le> d \<and> d \<le> 57"
proof (induction v rule: dec_digits.induct)
  case (1 val)
  have m: "unat (ucast (val mod 10) :: u8) = unat val mod 10"
    by (simp add: unsigned_ucast_eq unat_mod take_bit_nat_eq_self)
  have d: "unat (48 + ucast (val mod 10) :: u8) = 48 + unat val mod 10"
    by (subst unat_add_lem [THEN iffD1]) (simp_all add: m)
  {
    case 1 show ?case using "1.IH"(1) m
      by (subst dec_digits.simps) (simp add: unat_div)
  next
    case 2
    have "unat val mod 10 \<le> 9" by simp
    then show ?case using "1.IH"(2) d
      by (subst dec_digits.simps) (auto simp: word_le_nat_alt)
  }
qed

text \<open>on a UART that accepts bytes, \<^verbatim>\<open>uart_putdec\<close> returns and sends decimal digits, most significant
  first, whose value is the argument; all other state is unchanged.\<close>

theorem uart_putdec_sends:
  assumes "uart_ready s"
  shows "\<exists>s' bs. uart_putdec v s = Some s' \<and> uart_out s' = uart_out s @ bs \<and> mem s' = mem s
     \<and> bs \<noteq> [] \<and> (\<forall>b\<in>set bs. 48 \<le> b \<and> b \<le> 57) \<and> dec_value (rev bs) = unat v"
proof (cases "v = 0")
  case True
  then show ?thesis using uart_putc_sends [OF assms, of 48] sends_out by (force simp: uart_putdec_def)
next
  case False
  obtain s' where "put_all (rev (dec_digits v)) s = Some s'" "sends (rev (dec_digits v)) s s'"
    using put_all_sends [OF assms] by blast
  moreover have "dec_digits v \<noteq> []" using False by (subst dec_digits.simps) simp
  ultimately show ?thesis
    using False sends_out dec_digits_spec [of v]
    by (intro exI [of _ s'] exI [of _ "rev (dec_digits v)"]) (auto simp: uart_putdec_def)
qed

text \<open>The eight hexadecimal digits.\<close>

lemma puthex_loop_put_all: "puthex_loop is v = put_all (map (\<lambda>i. hex_digit (drop_bit i v AND 0xF)) is)"
  by (induction "is") (rule ext, simp)+

lemma uart_puthex_sends:
  assumes "uart_ready s"
  shows "\<exists>s'. uart_puthex v s = Some s'
     \<and> sends (map (\<lambda>i. hex_digit (drop_bit i v AND 0xF)) [28, 24, 20, 16, 12, 8, 4, 0]) s s'"
  unfolding uart_puthex_def puthex_loop_put_all by (rule put_all_sends [OF assms])



section \<open>Reading the flash\<close>

text \<open>A flash chip with the contents \<open>chip\<close>: it is never busy and the data register holds the four bytes
  at the address of the last transfer.\<close>

definition flash_chip :: "mem \<Rightarrow> 'a dstate_scheme \<Rightarrow> bool" where
  "flash_chip chip s \<longleftrightarrow> ready SPI0_CMD_REG 0x40000 s
     \<and> (\<forall>h a. io_dev s (h @ [Wr SPI0_ADDR_REG a, Wr SPI0_CMD_REG (spi_cmd 0x0B),
           Rd SPI0_CMD_REG (io_dev s (h @ [Wr SPI0_ADDR_REG a, Wr SPI0_CMD_REG (spi_cmd 0x0B)]) SPI0_CMD_REG)])
           SPI0_W0_REG = ld32 chip a)"

lemma flash_chip_cong [simp]:
  "flash_chip c (logged es s) = flash_chip c s" "flash_chip c (s\<lparr>mem := m\<rparr>) = flash_chip c s"
  by (simp_all add: flash_chip_def)

lemma ucast_and_255: "ucast (w AND 0xFF :: u32) = (ucast w :: u8)"
  by (rule bit_word_eqI) (auto simp: bit_simps bit_numeral_rec less_Suc_eq numeral_eq_Suc)

lemma ld32_byte:
  "(ucast (ld32 m a) :: u8) = m a" "(ucast (drop_bit 8 (ld32 m a)) :: u8) = m (a + 1)"
  "(ucast (drop_bit 16 (ld32 m a)) :: u8) = m (a + 2)" "(ucast (drop_bit 24 (ld32 m a)) :: u8) = m (a + 3)"
  unfolding ld32_def by (rule bit_word_eqI, auto simp: bit_simps dest: bit_imp_le_length)+

lemma ld32_nth_byte:
  assumes "i < 4" shows "(ucast (drop_bit (8 * i) (ld32 m a)) :: u8) = m (a + of_nat i)"
proof -
  consider "i = 0" | "i = 1" | "i = 2" | "i = 3" using assms by linarith
  then show ?thesis by cases (simp_all add: ld32_byte)
qed

lemma unpack_ld32:
  assumes "i + n \<le> 4"
  shows "unpack i n (ld32 c a) dst m = mem_write m dst (map (\<lambda>j. c (a + of_nat j)) [i..<i + n])"
  using assms
proof (induction n arbitrary: i dst m)
  case (Suc n)
  then show ?case using ld32_nth_byte [of i c a]
    by (simp add: ucast_and_255 upt_conv_Cons fun_upd_def del: upt_Suc)
qed simp


lemma upt_shift_map: "map (\<lambda>j. f (j + k)) [0..<n] = map f [k..<k + n]"
  by (rule nth_equalityI) (simp_all add: add.commute)

lemma and_24_bits: "unat (a :: u32) < 0x1000000 \<Longrightarrow> a AND 0xFFFFFF = a"
proof -
  assume a: "unat a < 0x1000000"
  have "(0xFFFFFF :: u32) = mask 24" by (simp add: mask_eq_exp_minus_1)
  then have "a AND 0xFFFFFF = take_bit 24 a" by (simp add: take_bit_eq_mask)
  moreover have "unat (take_bit 24 a) = unat a" using a by (simp add: unsigned_take_bit_eq take_bit_nat_eq_self)
  ultimately show ?thesis by (simp add: word_unat_eq_iff)
qed

lemma flash_read_loop_chip:
  assumes "flash_chip chip s" and "unat addr + unat n \<le> 0x1000000"
  shows "\<exists>es. flash_read_loop addr dst n s
     = Some (logged es (s\<lparr>mem := mem_write (mem s) dst (mem_read chip addr (unat n))\<rparr>))"
  using assms
proof (induction "unat n" arbitrary: n addr dst s rule: less_induct)
  case less
  show ?case
  proof (cases "n = 0")
    case True
    then show ?thesis
      by (subst flash_read_loop.simps) (auto simp: mem_read_def intro: exI [of _ "[]"])
  next
    case False
    let ?k = "if n < 4 then n else 4"
    have np: "0 < unat n" using False by (simp add: unat_gt_0)
    have k: "?k \<le> n" "0 < unat ?k" "unat ?k \<le> 4" using False
      by (auto simp: unat_gt_0 word_less_nat_alt word_le_nat_alt not_less)
    then have nk: "unat (n - ?k) = unat n - unat ?k" "unat ?k \<le> unat n" by (simp_all add: unat_sub word_le_nat_alt)
    have a: "addr AND 0xFFFFFF = addr" using less.prems(2) np by (intro and_24_bits) linarith
    have ak: "unat (addr + ?k) = unat addr + unat ?k"
      using less.prems(2) nk(2) by (subst unat_add_lem [THEN iffD1]) auto
    let ?es = "[Wr SPI0_ADDR_REG addr, Wr SPI0_CMD_REG (spi_cmd 0x0B)]"
    let ?c = "io_dev s (io_log s @ ?es) SPI0_CMD_REG"
    let ?m = "mem_write (mem s) dst (mem_read chip addr (unat ?k))"
    have rd: "io_dev s (io_log s @ ?es @ [Rd SPI0_CMD_REG ?c]) SPI0_W0_REG = ld32 chip addr"
      using less.prems(1) by (simp add: flash_chip_def)
    have up: "unpack 0 (unat ?k) (ld32 chip addr) dst (mem s) = ?m"
      using unpack_ld32 [of 0 "unat ?k" chip addr dst "mem s"] k(3) by (simp add: mem_read_def)
    have w: "wait_clear SPI0_CMD_REG 0x40000 (logged ?es s) = Some (logged (?es @ [Rd SPI0_CMD_REG ?c]) s)"
      using less.prems(1) wait_clear_ready [of SPI0_CMD_REG "0x40000" "logged ?es s"] by (simp add: flash_chip_def)
    have step: "flash_read_loop addr dst n s = flash_read_loop (addr + ?k) (dst + ?k) (n - ?k)
        (logged (?es @ [Rd SPI0_CMD_REG ?c, Rd SPI0_W0_REG (ld32 chip addr)]) (s\<lparr>mem := ?m\<rparr>))"
      using False rd w up unfolding flash_read_loop.simps [of addr dst n s]
      by (simp add: word_gt_0 a reg_logged spi_wait_idle_def Let_def)
    have "\<exists>es. flash_read_loop (addr + ?k) (dst + ?k) (n - ?k)
        (logged (?es @ [Rd SPI0_CMD_REG ?c, Rd SPI0_W0_REG (ld32 chip addr)]) (s\<lparr>mem := ?m\<rparr>))
      = Some (logged es ((logged (?es @ [Rd SPI0_CMD_REG ?c, Rd SPI0_W0_REG (ld32 chip addr)]) (s\<lparr>mem := ?m\<rparr>))
          \<lparr>mem := mem_write ?m (dst + ?k) (mem_read chip (addr + ?k) (unat (n - ?k)))\<rparr>))"
      using less.hyps [of "n - ?k" "logged (?es @ [Rd SPI0_CMD_REG ?c, Rd SPI0_W0_REG (ld32 chip addr)]) (s\<lparr>mem := ?m\<rparr>)"
          "addr + ?k" "dst + ?k"] nk k less.prems ak by simp
    moreover have "mem_write ?m (dst + ?k) (mem_read chip (addr + ?k) (unat (n - ?k)))
        = mem_write (mem s) dst (mem_read chip addr (unat n))"
      using mem_read_append [of chip addr "unat ?k" "unat n - unat ?k"] nk
      by (simp add: mem_write_append mem_simps)
    ultimately show ?thesis unfolding step by auto
  qed
qed


text \<open>C25: on a chip with contents \<open>chip\<close>, \<^verbatim>\<open>flash_read\<close> of a range inside the flash returns 0 with the
  range of the chip stored at the buffer and nothing else in memory changed.\<close>

theorem flash_read_correct:
  assumes "flash_chip chip s" and "unat addr + unat len \<le> 0x1000000" and "0 < unat len"
  shows "\<exists>s'. flash_read addr buf len s = Some (0, s')
     \<and> mem_read (mem s') buf (unat len) = mem_read chip addr (unat len)
     \<and> (\<forall>a. (\<forall>i<unat len. a \<noteq> buf + of_nat i) \<longrightarrow> mem s' a = mem s a)"
proof -
  obtain es where "flash_read_loop addr buf len s
     = Some (logged es (s\<lparr>mem := mem_write (mem s) buf (mem_read chip addr (unat len))\<rparr>))"
    using flash_read_loop_chip [OF assms(1,2)] by blast
  moreover have "\<not> FLASH_SIZE \<le> addr" "len \<noteq> 0" using assms(2,3) by (auto simp: word_le_nat_alt)
  moreover have "mem_read (mem_write (mem s) buf (mem_read chip addr (unat len))) buf (unat len)
      = mem_read chip addr (unat len)"
    using mem_read_write [of "mem_read chip addr (unat len)" "mem s" buf] assms(2) by (simp add: mem_simps)
  moreover have "mem_write (mem s) buf (mem_read chip addr (unat len)) a = mem s a"
    if "\<forall>i<unat len. a \<noteq> buf + of_nat i" for a
    using that by (intro mem_write_other) (auto simp: mem_simps)
  ultimately show ?thesis by (auto simp: flash_read_def)
qed


section \<open>Writing the flash\<close>

text \<open>The register writes of one chunk.\<close>

fun word_writes :: "u32 \<Rightarrow> nat \<Rightarrow> nat \<Rightarrow> u32 \<Rightarrow> mem \<Rightarrow> nat \<Rightarrow> io_event list" where
  "word_writes w0 i chunk src m 0 = []"
| "word_writes w0 i chunk src m (Suc k) = (if i < chunk
     then Wr (w0 + of_nat i) (pack 0 (min 4 (chunk - i)) (src + of_nat i) m 0) # word_writes w0 (i + 4) chunk src m k
     else [])"

lemma load_words_log:
  "chunk - i \<le> 4 * k \<Longrightarrow> load_words w0 i chunk src s = logged (word_writes w0 i chunk src (mem s) k) s"
proof (induction k arbitrary: i s)
  case 0 then show ?case by (subst load_words.simps) simp
next
  case (Suc k)
  show ?case
  proof (cases "i < chunk")
    case True
    moreover have "chunk - (i + 4) \<le> 4 * k" using Suc.prems by simp
    ultimately show ?thesis using Suc.IH [of "i + 4" "reg_write (w0 + of_nat i) w s" for w]
      by (subst load_words.simps) (simp add: Let_def reg_write_logged min_def)
  qed (subst load_words.simps, simp)
qed

lemma word_writes_register:
  assumes "i + 4 * j < chunk" "j < k"
  shows "\<exists>v. Wr (w0 + of_nat (i + 4 * j)) v \<in> set (word_writes w0 i chunk src m k)"
  using assms
proof (induction k arbitrary: i j)
  case (Suc k)
  show ?case
  proof (cases j)
    case 0 then show ?thesis using Suc.prems by auto
  next
    case (Suc j')
    then have "i + 4 * j = i + 4 + 4 * j'" by simp
    moreover obtain v where "Wr (w0 + of_nat (i + 4 + 4 * j')) v \<in> set (word_writes w0 (i + 4) chunk src m k)"
      using Suc.prems Suc.IH [of "i + 4" j'] Suc by auto
    ultimately show ?thesis using Suc.prems by (auto simp: ac_simps)
  qed
qed simp

definition flash_idle :: "'a dstate_scheme \<Rightarrow> bool" where
  "flash_idle s \<longleftrightarrow> ready SPI0_CMD_REG 0x40000 s \<and> ready SPI0_W0_REG 1 s"

lemma flash_idle_cong [simp]: "flash_idle (logged es s) = flash_idle s"
  by (simp add: flash_idle_def)

lemma spi_wait_idle_logged: "flash_idle s \<Longrightarrow> \<exists>es. spi_wait_idle s = Some (logged es s)"
  by (auto simp: spi_wait_idle_def flash_idle_def wait_clear_ready)

lemma spi_write_enable_logged: "flash_idle s \<Longrightarrow> \<exists>es. spi_write_enable s = Some (logged es s)"
  using spi_wait_idle_logged [of "logged es s" for es] by (fastforce simp: spi_write_enable_def reg_logged)

lemma and_1_of_255: "v AND 1 = (0 :: u32) \<Longrightarrow> (ucast (v AND 0xFF) :: u8) AND 1 = 0"
proof -
  assume v: "v AND 1 = 0"
  have "(ucast v :: u8) AND 1 = ucast (v AND 1)" by (rule bit_word_eqI) (auto simp: bit_simps bit_1_iff)
  then show ?thesis using v by (simp add: ucast_and_255)
qed

lemma spi_wait_write_done_logged: "flash_idle s \<Longrightarrow> \<exists>es. spi_wait_write_done s = Some (logged es s)"
proof -
  assume i: "flash_idle s"
  obtain es where es: "spi_wait_idle (logged [Wr SPI0_CMD_REG (spi_cmd 5)] s) = Some (logged es s)"
    using spi_wait_idle_logged [of "logged [Wr SPI0_CMD_REG (spi_cmd 5)] s"] i by auto
  let ?v = "io_dev s (io_log s @ es) SPI0_W0_REG"
  have "?v AND 1 = 0" using i by (simp add: flash_idle_def ready_def)
  then show ?thesis using es and_1_of_255 [of ?v]
    by (subst spi_wait_write_done.simps) (auto simp: spi_read_status_def reg_logged Let_def)
qed


lemma imp_ex_mono: "(P \<Longrightarrow> Q \<Longrightarrow> \<exists>v. f v \<in> A) \<Longrightarrow> A \<subseteq> B \<Longrightarrow> P \<and> Q \<longrightarrow> (\<exists>v. f v \<in> B)"
  by blast

lemma flash_write_loop_logged:
  assumes "flash_idle s"
  shows "\<exists>es. flash_write_loop addr src n s = Some (logged es s)
     \<and> (addr mod 256 = 0 \<and> 256 \<le> n \<longrightarrow> (\<exists>v. Wr (SPI0_W0_REG + 252) v \<in> set es))"
  using assms
proof (induction "unat n" arbitrary: n addr src s rule: less_induct)
  case less
  show ?case
  proof (cases "n = 0")
    case True
    then show ?thesis by (subst flash_write_loop.simps) (auto intro: exI [of _ "[]"])
  next
    case False
    let ?room = "256 - addr mod 256"
    let ?len = "if ?room > n then n else ?room"
    have md: "unat (addr mod 256) < 256" by (simp add: unat_mod)
    then have "unat ?room = 256 - unat (addr mod 256)" by (subst unat_sub) (simp_all add: word_le_nat_alt)
    then have c: "0 < unat ?len" "unat ?len \<le> unat n" using False md
      by (auto simp: unat_gt_0 word_less_nat_alt not_less)
    then have nc: "unat (n - ?len) < unat n" by (subst unat_sub) (simp_all add: word_le_nat_alt)
    obtain e1 where e1: "spi_write_enable s = Some (logged e1 s)"
      using spi_write_enable_logged [OF less.prems] by blast
    let ?w = "word_writes SPI0_W0_REG 0 (unat ?len) src (mem s) (unat ?len)"
    let ?e2 = "e1 @ [Wr SPI0_ADDR_REG (addr AND 0xFFFFFF), Wr SPI0_W0_REG 0] @ ?w @ [Wr SPI0_CMD_REG (spi_cmd 2)]"
    obtain e3 where e3: "spi_wait_idle (logged ?e2 s) = Some (logged (?e2 @ e3) s)"
      using spi_wait_idle_logged [of "logged ?e2 s"] less.prems by auto
    obtain e4 where e4: "spi_wait_write_done (logged (?e2 @ e3) s) = Some (logged (?e2 @ e3 @ e4) s)"
      using spi_wait_write_done_logged [of "logged (?e2 @ e3) s"] less.prems by auto
    obtain e5 where e5: "flash_write_loop (addr + ?len) (src + ?len) (n - ?len) (logged (?e2 @ e3 @ e4) s)
        = Some (logged ((?e2 @ e3 @ e4) @ e5) s)"
      using less.hyps [OF nc, of "logged (?e2 @ e3 @ e4) s"] less.prems by auto
    have l: "load_words SPI0_W0_REG 0 (unat ?len) src (logged (e1 @ [Wr SPI0_ADDR_REG (addr AND 0xFFFFFF), Wr SPI0_W0_REG 0]) s)
        = logged (e1 @ [Wr SPI0_ADDR_REG (addr AND 0xFFFFFF), Wr SPI0_W0_REG 0] @ ?w) s"
      by (subst load_words_log [of _ _ "unat ?len"]) simp_all
    have run: "flash_write_loop addr src n s = Some (logged ((?e2 @ e3 @ e4) @ e5) s)"
      using False e1 e3 e4 e5 l unfolding flash_write_loop.simps [of addr src n s]
      by (simp add: word_gt_0 Let_def reg_logged)
    have "\<exists>v. Wr (SPI0_W0_REG + 252) v \<in> set ?w" if "addr mod 256 = 0" "256 \<le> n"
    proof -
      have "?len = 256" using that by (auto simp: not_less)
      then show ?thesis using word_writes_register [of 0 63 256 256 SPI0_W0_REG src "mem s"] by simp
    qed
    moreover have "set ?w \<subseteq> set ((?e2 @ e3 @ e4) @ e5)" by (simp del: word_writes.simps) blast
    ultimately have "addr mod 256 = 0 \<and> 256 \<le> n \<longrightarrow> (\<exists>v. Wr (SPI0_W0_REG + 252) v \<in> set ((?e2 @ e3 @ e4) @ e5))"
      by (rule imp_ex_mono)
    with run show ?thesis by (intro exI conjI)
  qed
qed

text \<open>programming a whole page with \<^verbatim>\<open>flash_write\<close> ends on a responsive chip, but stores the page into
  64 consecutive registers from \<open>W0\<close> on although the controller only has \<open>W0\<close> to \<open>W15\<close>: among its
  register writes is one 252 bytes after \<open>W0\<close>, and \<open>W15\<close> is 60 bytes after it.\<close>

theorem flash_write_overruns_data_registers:
  assumes "flash_idle s" and "addr mod 256 = 0" and "256 \<le> len" and "addr < FLASH_SIZE"
  shows "\<exists>s' v. flash_write addr buf len s = Some (0, s')
     \<and> Wr (SPI0_W0_REG + 252) v \<in> set (drop (length (io_log s)) (io_log s'))"
proof -
  obtain es where es: "flash_write_loop addr buf len s = Some (logged es s)"
    "\<exists>v. Wr (SPI0_W0_REG + 252) v \<in> set es"
    using flash_write_loop_logged [OF assms(1), of addr buf len] assms(2,3) by blast
  moreover have "len \<noteq> 0" using assms(3) by auto
  ultimately show ?thesis using assms(4) by (auto simp: flash_write_def not_le)
qed

text \<open>A concrete device: a chip whose byte at address \<open>a\<close> is the low byte of \<open>a\<close>, never busy.\<close>

definition demo_chip :: mem where
  "demo_chip a = ucast a"

fun last_addr :: "io_event list \<Rightarrow> u32" where
  "last_addr [] = 0"
| "last_addr (Wr a v # es) = (if a = SPI0_ADDR_REG then v else last_addr es)"
| "last_addr (Rd a v # es) = last_addr es"

definition demo_dev :: "io_event list \<Rightarrow> u32 \<Rightarrow> u32" where
  "demo_dev h a = (if a = SPI0_W0_REG \<and> Wr SPI0_CMD_REG (spi_cmd 0x0B) \<in> set (take 2 (rev h))
     then ld32 demo_chip (last_addr (rev h)) else 0)"

definition demo_board :: dstate where
  "demo_board = mstate.extend mstate_boot (dstate.fields demo_dev [])"

lemma demo_board_simps [simp]: "io_dev demo_board = demo_dev" "io_log demo_board = []" "mem demo_board = (\<lambda>_. 0)"
  by (simp_all add: demo_board_def mstate_boot_def mstate.defs dstate.defs kstate.defs)

theorem uart_putdec_sends_witness:
  "\<exists>s' bs. uart_putdec 1234 demo_board = Some s' \<and> uart_out s' = bs \<and> dec_value (rev bs) = 1234"
  using uart_putdec_sends [of demo_board 1234] by (auto simp: ready_def demo_dev_def uart_out_def)

lemma demo_chip_flash: "flash_chip demo_chip demo_board"
  by (simp add: flash_chip_def ready_def demo_dev_def)

lemma demo_chip_read: "mem_read demo_chip 0x100 6 = [0, 1, 2, 3, 4, 5]"
  by (simp add: mem_read_def demo_chip_def upt_conv_Cons)

theorem flash_read_correct_witness:
  "\<exists>s'. flash_read 0x100 0x2000 6 demo_board = Some (0, s')
     \<and> mem_read (mem s') 0x2000 6 = [0, 1, 2, 3, 4, 5]"
  using flash_read_correct [OF demo_chip_flash, of "0x100" 6 "0x2000"] by (auto simp: demo_chip_read)

theorem flash_write_overruns_data_registers_witness:
  "\<exists>s' v. flash_write 0 0x2000 256 (demo_board\<lparr>io_dev := \<lambda>_ _. 0\<rparr>) = Some (0, s')
     \<and> Wr 0x60002154 v \<in> set (io_log s')"
proof -
  have "flash_idle (demo_board\<lparr>io_dev := \<lambda>_ _. 0\<rparr>)" by (simp add: flash_idle_def ready_def)
  from flash_write_overruns_data_registers [OF this, of 0 256 "0x2000"] show ?thesis by auto
qed

end
