(* ===== verification/Format.thy ===== *)
theory Format
  imports CString Device
begin

text \<open>
  The functions of \<^verbatim>\<open>src/libc/stdlib/stdlib.c\<close> that convert numbers, the pseudo-random generator, the
  environment search, and the formatted output of \<^verbatim>\<open>src/libc/stdio/stdio.c\<close>.  An \<^verbatim>\<open>int\<close> or \<^verbatim>\<open>long\<close> is a HOL
  integer; a computation that leaves the 32-bit range has no result, as the C execution has none.  A
  \<^verbatim>\<open>va_list\<close> is the list of the 32-bit words that were passed; taking one more than there are has no result.
  The theorems relate the output of \<^verbatim>\<open>vsnprintf\<close> to a specification on byte lists, with the buffer bound, and
  \<^verbatim>\<open>atoi\<close> to the numbers it prints.
\<close>

section \<open>Numbers\<close>

definition in_int :: "int \<Rightarrow> bool" where
  "in_int v \<longleftrightarrow> - (2 ^ 31) \<le> v \<and> v < 2 ^ 31"

partial_function (option) skip_blanks :: "u32 \<Rightarrow> mem \<Rightarrow> u32 option" where
  "skip_blanks str m = (if m str = 32 \<or> m str = 9 then skip_blanks (str + 1) m else Some str)"

definition read_sign :: "u32 \<Rightarrow> mem \<Rightarrow> bool \<times> u32" where
  "read_sign str m = (if m str = 45 then (True, str + 1) else if m str = 43 then (False, str + 1) else (False, str))"

partial_function (option) atoi_loop :: "u32 \<Rightarrow> int \<Rightarrow> mem \<Rightarrow> int option" where
  "atoi_loop str val m =
     (if 48 \<le> m str \<and> m str \<le> 57
      then if in_int (val * 10 + uint (m str - 48)) then atoi_loop (str + 1) (val * 10 + uint (m str - 48)) m else None
      else Some val)"

definition atoi :: "u32 \<Rightarrow> mem \<Rightarrow> int option" where
  "atoi str m = do {
     str \<leftarrow> skip_blanks str m;
     let (neg, str) = read_sign str m;
     val \<leftarrow> atoi_loop str 0 m;
     Some (if neg then - val else val) }"

text \<open>\<^verbatim>\<open>long\<close> has the width of \<^verbatim>\<open>int\<close>.\<close>

definition atol :: "u32 \<Rightarrow> mem \<Rightarrow> int option" where
  "atol str m = do {
     str \<leftarrow> skip_blanks str m;
     let (neg, str) = read_sign str m;
     val \<leftarrow> atoi_loop str 0 m;
     Some (if neg then - val else val) }"

text \<open>The digit a byte stands for, whatever the base.\<close>

definition digit_of :: "u8 \<Rightarrow> int option" where
  "digit_of c =
     (if 48 \<le> c \<and> c \<le> 57 then Some (uint (c - 48))
      else if 97 \<le> c \<and> c \<le> 122 then Some (uint (c - 97) + 10)
      else if 65 \<le> c \<and> c \<le> 90 then Some (uint (c - 65) + 10)
      else None)"

partial_function (option) strtol_loop :: "u32 \<Rightarrow> int \<Rightarrow> int \<Rightarrow> mem \<Rightarrow> (int \<times> u32) option" where
  "strtol_loop str base val m =
     (if m str = 0 then Some (val, str)
      else case digit_of (m str) of None \<Rightarrow> Some (val, str)
      | Some digit \<Rightarrow>
          if digit \<ge> base then Some (val, str)
          else if in_int (val * base) \<and> in_int (val * base + digit) then strtol_loop (str + 1) base (val * base + digit) m
          else None)"

definition strtol :: "u32 \<Rightarrow> u32 \<Rightarrow> int \<Rightarrow> mem \<Rightarrow> (int \<times> mem) option" where
  "strtol str endptr base m = do {
     str \<leftarrow> skip_blanks str m;
     let (neg, str) = read_sign str m;
     let (base, str) =
       (if base = 0
        then if m str = 48
             then if m (str + 1) = 120 \<or> m (str + 1) = 88 then (16, str + 2) else (8, str)
             else (10, str)
        else (base, str));
     (val, str) \<leftarrow> strtol_loop str base 0 m;
     Some (if neg then - val else val, if endptr \<noteq> NULL then st32 m endptr str else m) }"

definition strtoul :: "u32 \<Rightarrow> u32 \<Rightarrow> int \<Rightarrow> mem \<Rightarrow> (u32 \<times> mem) option" where
  "strtoul str endptr base m = map_option (\<lambda>(v, m). (word_of_int v, m)) (strtol str endptr base m)"

text \<open>\<^verbatim>\<open>rand\<close> returns its value and the new \<^verbatim>\<open>rand_seed\<close>.\<close>

definition rand :: "u32 \<Rightarrow> int \<times> u32" where
  "rand rand_seed =
     (let rand_seed = rand_seed * 1103515245 + 12345 in (uint (drop_bit 16 rand_seed AND 0x7FFF), rand_seed))"

definition srand :: "u32 \<Rightarrow> u32" where
  "srand seed = seed"

definition abs_int :: "int \<Rightarrow> int option" where
  "abs_int x = (if x < 0 then if in_int (- x) then Some (- x) else None else Some x)"

definition labs :: "int \<Rightarrow> int option" where
  "labs x = (if x < 0 then if in_int (- x) then Some (- x) else None else Some x)"

text \<open>The loop of \<^verbatim>\<open>getenv\<close> over the null-terminated array of pointers.\<close>

partial_function (option) getenv_loop :: "u32 \<Rightarrow> u32 \<Rightarrow> u32 \<Rightarrow> mem \<Rightarrow> u32 option" where
  "getenv_loop env name len m =
     (let e = ld32 m env
      in if e = NULL then Some NULL
         else if strncmp e name len m = 0 \<and> m (e + len) = 61 then Some (e + len + 1)
         else getenv_loop (env + 4) name len m)"

definition getenv :: "u32 \<Rightarrow> u32 \<Rightarrow> mem \<Rightarrow> u32 option" where
  "getenv environ name m =
     (if environ = NULL then Some NULL else do { len \<leftarrow> strlen name m; getenv_loop environ name len m })"


section \<open>Formatted output\<close>

text \<open>The digits that the inner loops of \<^verbatim>\<open>vsnprintf\<close> collect in \<^verbatim>\<open>num\<close>, least significant first.\<close>

fun dec_num :: "nat \<Rightarrow> u8 list" where
  "dec_num val = (48 + of_nat (val mod 10)) # (if val div 10 = 0 then [] else dec_num (val div 10))"

function hex_num :: "u32 \<Rightarrow> u8 list" where
  "hex_num val =
     (let d = val AND 0xF in if d < 10 then 48 + ucast d else 97 + ucast d - 10)
     # (if drop_bit 4 val = 0 then [] else hex_num (drop_bit 4 val))"
  by pat_completeness auto

termination hex_num
proof (relation "measure unat")
  fix val :: u32
  assume "drop_bit 4 val \<noteq> 0"
  moreover have "unat (drop_bit 4 val) = unat val div 16" by (simp add: drop_bit_eq_div unat_div)
  ultimately show "(drop_bit 4 val, val) \<in> measure unat" by (cases "val = 0") (auto simp: unat_gt_0)
qed simp

declare dec_num.simps [simp del] hex_num.simps [simp del]

text \<open>The copying loops: \<^verbatim>\<open>while (n-- && p < end) *p++ = num[n]\<close> on the reversed digits, and the loop over a
  string argument.\<close>

fun put_chars :: "u8 list \<Rightarrow> u32 \<Rightarrow> u32 \<Rightarrow> mem \<Rightarrow> u32 \<times> mem" where
  "put_chars [] p e m = (p, m)"
| "put_chars (c # cs) p e m = (if p < e then put_chars cs (p + 1) e (m(p := c)) else (p, m))"

partial_function (option) put_string :: "u32 \<Rightarrow> u32 \<Rightarrow> u32 \<Rightarrow> mem \<Rightarrow> (u32 \<times> mem) option" where
  "put_string s p e m = (if m s \<noteq> 0 \<and> p < e then put_string (s + 1) (p + 1) e (m(p := m s)) else Some (p, m))"

text \<open>What follows a percent sign: the rest of the arguments, the position and the memory.\<close>

definition put_directive :: "u8 \<Rightarrow> u32 list \<Rightarrow> u32 \<Rightarrow> u32 \<Rightarrow> mem \<Rightarrow> (u32 list \<times> u32 \<times> mem) option" where
  "put_directive c ap p e m =
     (if c = 115
      then case ap of [] \<Rightarrow> None
           | a # ap \<Rightarrow> map_option (Pair ap) (if a = NULL then Some (put_chars (bytes ''(null)'') p e m) else put_string a p e m)
      else if c = 100 \<or> c = 105
      then case ap of [] \<Rightarrow> None
           | a # ap \<Rightarrow>
               let val = sint a; neg = val < 0; val = (if neg then - val else val);
                   (p, m) = (if neg \<and> p < e then (p + 1, m(p := 45)) else (p, m))
               in if in_int val then Some (ap, put_chars (rev (dec_num (nat val))) p e m) else None
      else if c = 120
      then case ap of [] \<Rightarrow> None | a # ap \<Rightarrow> Some (ap, put_chars (rev (hex_num a)) p e m)
      else if c = 99
      then if p < e then (case ap of [] \<Rightarrow> None | a # ap \<Rightarrow> Some (ap, p + 1, m(p := ucast a))) else Some (ap, p, m)
      else if c = 37 then Some (ap, if p < e then (p + 1, m(p := 37)) else (p, m))
      else Some (ap, if p < e then (p + 1, m(p := c)) else (p, m)))"

partial_function (option) vsnprintf_loop :: "u32 \<Rightarrow> u32 list \<Rightarrow> u32 \<Rightarrow> u32 \<Rightarrow> mem \<Rightarrow> (u32 \<times> mem) option" where
  "vsnprintf_loop f ap p e m =
     (if m f \<noteq> 0 \<and> p < e
      then if m f = 37
           then (case put_directive (m (f + 1)) ap p e m of None \<Rightarrow> None | Some (ap, p, m) \<Rightarrow> vsnprintf_loop (f + 2) ap p e m)
           else vsnprintf_loop (f + 1) ap (p + 1) e (m(p := m f))
      else Some (p, m))"

definition vsnprintf :: "u32 \<Rightarrow> u32 \<Rightarrow> u32 \<Rightarrow> u32 list \<Rightarrow> mem \<Rightarrow> (int \<times> mem) option" where
  "vsnprintf str sz format ap m = do {
     (p, m) \<leftarrow> vsnprintf_loop format ap str (str + sz - 1) m;
     Some (sint (p - str), m(p := 0)) }"

definition snprintf :: "u32 \<Rightarrow> u32 \<Rightarrow> u32 \<Rightarrow> u32 list \<Rightarrow> mem \<Rightarrow> (int \<times> mem) option" where
  "snprintf str sz format args m = vsnprintf str sz format args m"

section \<open>What is printed\<close>

text \<open>The specification of formatted output on byte lists; \<open>str a\<close> is the string at the address \<open>a\<close>.\<close>

definition dec_text :: "int \<Rightarrow> u8 list" where
  "dec_text v = (if v < 0 then 45 # rev (dec_num (nat (- v))) else rev (dec_num (nat v)))"

definition directive_text :: "(u32 \<Rightarrow> u8 list) \<Rightarrow> u8 \<Rightarrow> u32 list \<Rightarrow> (u32 list \<times> u8 list) option" where
  "directive_text str c ap =
     (if c = 115 then case ap of [] \<Rightarrow> None | a # ap \<Rightarrow> Some (ap, if a = NULL then bytes ''(null)'' else str a)
      else if c = 100 \<or> c = 105
      then case ap of [] \<Rightarrow> None | a # ap \<Rightarrow> if sint a = - (2 ^ 31) then None else Some (ap, dec_text (sint a))
      else if c = 120 then case ap of [] \<Rightarrow> None | a # ap \<Rightarrow> Some (ap, rev (hex_num a))
      else if c = 99 then case ap of [] \<Rightarrow> None | a # ap \<Rightarrow> Some (ap, [ucast a])
      else Some (ap, [c]))"

fun format_text :: "(u32 \<Rightarrow> u8 list) \<Rightarrow> u8 list \<Rightarrow> u32 list \<Rightarrow> u8 list option" where
  "format_text str [] ap = Some []"
| "format_text str [c] ap = (if c = 37 then None else Some [c])"
| "format_text str (c # d # fs) ap =
     (if c = 37 then do { (ap, tx) \<leftarrow> directive_text str d ap; out \<leftarrow> format_text str fs ap; Some (tx @ out) }
      else map_option ((#) c) (format_text str (d # fs) ap))"

text \<open>The string arguments a format uses.\<close>

fun string_args :: "u8 list \<Rightarrow> u32 list \<Rightarrow> u32 list" where
  "string_args (c # d # fs) ap =
     (if c = 37 then if d = 115 then take 1 ap @ string_args fs (drop 1 ap)
                     else string_args fs (if d \<in> {100, 105, 120, 99} then drop 1 ap else ap)
      else string_args (d # fs) ap)"
| "string_args fs ap = []"

text \<open>A terminated string outside the positions from \<open>p\<close> up to \<open>e\<close>.\<close>

definition cstr_off :: "mem \<Rightarrow> u32 \<Rightarrow> u32 \<Rightarrow> u32 \<Rightarrow> u8 list \<Rightarrow> bool" where
  "cstr_off m p e a xs \<longleftrightarrow> cstr m a xs \<and> (\<forall>i\<le>length xs. a + of_nat i < p \<or> e \<le> a + of_nat i)"

lemma cstr_off_simps:
  "cstr_off m p e a [] \<longleftrightarrow> m a = 0 \<and> (a < p \<or> e \<le> a)"
  "cstr_off m p e a (x # xs) \<longleftrightarrow> m a = x \<and> x \<noteq> 0 \<and> (a < p \<or> e \<le> a) \<and> cstr_off m p e (a + 1) xs"
  by (auto simp: cstr_off_def less_Suc_eq_le [symmetric] All_less_Suc2 add.assoc simp del: less_Suc_eq_le)

lemmas cstr_off_Cons = cstr_off_simps(2) [THEN iffD1]

lemma cstr_off_mono:
  assumes "cstr_off m p e a xs" "p \<le> p'" "\<And>x. x < p \<or> e \<le> x \<Longrightarrow> m' x = m x"
  shows "cstr_off m' p' e a xs"
proof -
  have o: "\<forall>i\<le>length xs. a + of_nat i < p \<or> e \<le> a + of_nat i" using assms(1) by (simp add: cstr_off_def)
  then have "cstr m' a xs = cstr m a xs" using assms(3) by (intro cstr_cong) blast
  moreover have "\<forall>i\<le>length xs. a + of_nat i < p' \<or> e \<le> a + of_nat i" using o assms(2) by (meson order.strict_trans2)
  ultimately show ?thesis using assms(1) by (simp add: cstr_off_def)
qed

lemma inc_le:
  fixes p e :: u32
  assumes "p < e"
  shows "p < p + 1" "p + 1 \<le> e"
proof -
  have lt: "unat p < unat e" using assms by (simp add: word_less_nat_alt)
  then have "unat p + 1 < 2 ^ 32" using unat_u32_less [of e] by simp
  then have "unat (p + 1) = unat p + 1" using unat_add_no_wrap [of p 1] by simp
  then show "p < p + 1" "p + 1 \<le> e" using lt by (simp_all add: word_less_nat_alt word_le_nat_alt)
qed

lemma put_chars_range:
  "put_chars cs p e m = (p', m') \<Longrightarrow> p \<le> e \<Longrightarrow> p \<le> p' \<and> p' \<le> e \<and> (\<forall>x. x < p \<or> e \<le> x \<longrightarrow> m' x = m x)"
proof (induction cs arbitrary: p m)
  case (Cons c cs)
  show ?case
  proof (cases "p < e")
    case True
    then have "p + 1 \<le> p' \<and> p' \<le> e \<and> (\<forall>x. x < p + 1 \<or> e \<le> x \<longrightarrow> m' x = (m(p := c)) x)"
      using Cons.prems(1) True by (intro Cons.IH inc_le) (simp_all only: put_chars.simps if_True)
    then have r: "p + 1 \<le> p'" "p' \<le> e" "\<And>x. x < p + 1 \<or> e \<le> x \<Longrightarrow> m' x = (m(p := c)) x" by blast+
    have "m' x = m x" if "x < p \<or> e \<le> x" for x
    proof -
      have "x < p + 1 \<or> e \<le> x" "x \<noteq> p" using that True order.strict_trans [OF _ inc_le(1) [OF True]] by auto
      then show ?thesis using r(3) [of x] fun_upd_other [of x p m c] by (simp only: simp_thms)
    qed
    moreover have "p \<le> p'" using inc_le(1) [OF True] r(1) by (meson order.strict_trans2 less_imp_le)
    ultimately show ?thesis using r(2) by blast
  qed (use Cons.prems in auto)
qed simp

lemma put_chars_append:
  "put_chars (xs @ ys) p e m = (case put_chars xs p e m of (p, m) \<Rightarrow> put_chars ys p e m)"
proof (induction xs arbitrary: p m)
  case (Cons x xs)
  show ?case
  proof (cases "p < e")
    case False
    then show ?thesis by (cases ys) auto
  qed (simp add: Cons.IH fun_upd_def)
qed simp

lemma put_chars_write:
  "p \<le> e \<Longrightarrow> put_chars cs p e m = (let k = min (length cs) (unat (e - p)) in (p + of_nat k, mem_write m p (take k cs)))"
proof (induction cs arbitrary: p m)
  case (Cons c cs)
  show ?case
  proof (cases "p < e")
    case True
    then have "unat (e - p) \<noteq> 0" by (simp add: unat_eq_zero)
    moreover have "unat (e - (p + 1)) = unat (e - p) - 1" using unat_minus_one [of "e - p"] True by (simp add: diff_diff_eq)
    ultimately obtain d where d: "unat (e - p) = Suc d" "unat (e - (p + 1)) = d" by (cases "unat (e - p)") auto
    show ?thesis using Cons.IH [of "p + 1"] inc_le [OF True] True by (simp add: d Let_def add.assoc)
  qed (use Cons.prems in auto)
qed simp

lemma put_string_chars:
  "cstr_off m p e a xs \<Longrightarrow> p \<le> e \<Longrightarrow> put_string a p e m = Some (put_chars xs p e m)"
proof (induction xs arbitrary: a p m)
  case Nil
  then show ?case by (subst put_string.simps) (simp add: cstr_off_def)
next
  case (Cons x xs)
  note h = cstr_off_Cons [OF Cons.prems(1)]
  show ?case
  proof (cases "p < e")
    case True
    have "cstr_off (m(p := x)) (p + 1) e (a + 1) xs"
      by (rule cstr_off_mono [of m p]) (use h inc_le(1) [OF True] True in \<open>auto intro: less_imp_le\<close>)
    then have "put_string (a + 1) (p + 1) e (m(p := x)) = Some (put_chars xs (p + 1) e (m(p := x)))"
      using Cons.IH inc_le(2) [OF True] by blast
    then show ?thesis using h True by (subst put_string.simps) simp
  next
    case False
    then show ?thesis by (subst put_string.simps) simp
  qed
qed

lemma put_directive_text:
  assumes "directive_text str c ap = Some (ap', tx)" "p < e"
    and s: "c = 115 \<Longrightarrow> ap \<noteq> [] \<Longrightarrow> hd ap \<noteq> NULL \<Longrightarrow> cstr_off m p e (hd ap) (str (hd ap))"
  shows "put_directive c ap p e m = Some (ap', put_chars tx p e m)"
proof -
  have i: "in_int (sint a) " "sint a \<noteq> - (2 ^ 31) \<Longrightarrow> in_int (- sint a)" for a :: u32
    using sint_ge [of a] sint_lt [of a] by (auto simp: in_int_def)
  consider "c = 115" | "c = 100 \<or> c = 105" | "c = 120" | "c = 99" | "c \<notin> {115, 100, 105, 120, 99}" by blast
  then show ?thesis
  proof cases
    case 1
    then obtain a where a: "ap = a # ap'" "tx = (if a = NULL then bytes ''(null)'' else str a)"
      using assms(1) by (auto simp: directive_text_def split: list.splits)
    have "a \<noteq> NULL \<Longrightarrow> put_string a p e m = Some (put_chars tx p e m)"
      using put_string_chars s [OF 1] assms(2) by (simp add: a)
    then show ?thesis using 1 by (simp add: put_directive_def a del: map_option_eq_Some)
  next
    case 2
    then obtain a where a: "ap = a # ap'" "tx = dec_text (sint a)" "sint a \<noteq> - (2 ^ 31)"
      using assms(1) by (auto simp: directive_text_def split: list.splits if_splits)
    have "in_int (if sint a < 0 then - sint a else sint a)" using i a(3) by simp
    moreover have "c \<noteq> 115" using 2 by auto
    ultimately show ?thesis using 2 assms(2) by (simp add: put_directive_def dec_text_def Let_def a(1,2))
  qed (use assms(1,2) in \<open>auto simp: directive_text_def put_directive_def split: list.splits\<close>)
qed

text \<open>The main loop writes the specified text, as far as it fits.\<close>

lemma vsnprintf_loop_text:
  "format_text str fs ap = Some out \<Longrightarrow> cstr_off m p e f fs \<Longrightarrow> p \<le> e \<Longrightarrow>
   (\<And>a. a \<in> set (string_args fs ap) \<Longrightarrow> a \<noteq> NULL \<Longrightarrow> cstr_off m p e a (str a)) \<Longrightarrow>
   vsnprintf_loop f ap p e m = Some (put_chars out p e m)"
proof (induction str fs ap arbitrary: out m p f rule: format_text.induct)
  case (1 str ap)
  then show ?case by (subst vsnprintf_loop.simps) (simp add: cstr_off_def)
next
  case (2 str c ap)
  note h = cstr_off_Cons [OF "2.prems"(2)]
  have c: "c \<noteq> 37" "out = [c]" using "2.prems"(1) by (auto split: if_splits)
  have z: "vsnprintf_loop (f + 1) ap p' e m' = Some (p', m')" if "m' (f + 1) = 0" for p' m'
    using that by (subst vsnprintf_loop.simps) simp
  show ?case
  proof (cases "p < e")
    case True
    have "cstr_off (m(p := c)) (p + 1) e (f + 1) []"
      by (rule cstr_off_mono [of m p]) (use h inc_le(1) [OF True] True in \<open>auto intro: less_imp_le\<close>)
    then show ?thesis using True h c z by (subst vsnprintf_loop.simps) (simp add: cstr_off_def)
  next
    case False
    then show ?thesis using c by (subst vsnprintf_loop.simps) simp
  qed
next
  case (3 str c d fs ap)
  note h = cstr_off_Cons [OF "3.prems"(2)]
  show ?case
  proof (cases "p < e")
    case False
    then have "put_chars out p e m = (p, m)" by (cases out) auto
    then show ?thesis using False by (subst vsnprintf_loop.simps) simp
  next
    case True
    note le = less_imp_le [OF inc_le(1) [OF True]]
    show ?thesis
    proof (cases "c = 37")
      case False
      obtain out' where o: "out = c # out'" "format_text str (d # fs) ap = Some out'"
        using "3.prems"(1) False by auto
      have k: "cstr_off (m(p := c)) (p + 1) e a xs" if "cstr_off m p e a xs" for a xs
        by (rule cstr_off_mono [OF that le]) (use True in auto)
      have f: "cstr_off (m(p := c)) (p + 1) e (f + 1) (d # fs)" using h k by blast
      have "cstr_off (m(p := c)) (p + 1) e a (str a)" if "a \<in> set (string_args (d # fs) ap)" "a \<noteq> NULL" for a
        using that "3.prems"(4) [of a] k False by simp
      then have "vsnprintf_loop (f + 1) ap (p + 1) e (m(p := c)) = Some (put_chars out' (p + 1) e (m(p := c)))"
        by (rule "3.IH"(2) [OF False o(2) f inc_le(2) [OF True]])
      then show ?thesis using True False h o(1) by (subst vsnprintf_loop.simps) simp
    next
      case c: True
      obtain ap' tx out' where o: "directive_text str d ap = Some (ap', tx)" "format_text str fs ap' = Some out'" "out = tx @ out'"
        using "3.prems"(1) c by (auto split: bind_splits)
      obtain p' m' where q: "put_chars tx p e m = (p', m')" by (cases "put_chars tx p e m")
      note r = put_chars_range [OF q less_imp_le [OF True]]
      have sub: "set (string_args fs ap') \<subseteq> set (string_args (c # d # fs) ap)"
        using o(1) c by (auto simp: directive_text_def split: list.splits if_splits)
      have "put_directive d ap p e m = Some (ap', p', m')"
        using put_directive_text [OF o(1) True, of m] "3.prems"(4) [of "hd ap"] c q by (cases ap) auto
      have k: "cstr_off m' p' e a xs" if "cstr_off m p e a xs" for a xs
        by (rule cstr_off_mono [OF that]) (use r in auto)
      have "cstr_off m p e (f + 1) (d # fs)" using h by blast
      from cstr_off_Cons [OF this] have d: "m (f + 1) = d" and f: "cstr_off m' p' e (f + 2) fs"
        using k by (simp_all add: add.assoc)
      have "cstr_off m' p' e a (str a)" if "a \<in> set (string_args fs ap')" "a \<noteq> NULL" for a
        using that sub "3.prems"(4) [of a] k by blast
      then have "vsnprintf_loop (f + 2) ap' p' e m' = Some (put_chars out' p' e m')"
        by (rule "3.IH"(1) [OF c o(1) refl o(2) f conjunct1 [OF conjunct2 [OF r]]])
      then show ?thesis using True h c d q o(3) \<open>put_directive d ap p e m = _\<close> put_chars_append [of tx out' p e m]
        by (subst vsnprintf_loop.simps) simp
    qed
  qed
qed



lemma vsnprintf_text:
  assumes "0 < sz" "sz < 2 ^ 31" "str \<le> str + sz - 1"
    and "cstr_off m str (str + sz - 1) f fs" "format_text at fs ap = Some out"
    and "\<And>a. a \<in> set (string_args fs ap) \<Longrightarrow> a \<noteq> NULL \<Longrightarrow> cstr_off m str (str + sz - 1) a (at a)"
  shows "vsnprintf str sz f ap m =
     (let k = min (length out) (unat sz - 1) in Some (int k, mem_write m str (take k out @ [0])))"
proof -
  define k where "k = min (length out) (unat sz - 1)"
  have d: "str + sz - 1 - str = sz - 1" by simp
  have n: "unat (sz - 1) = unat sz - 1" using assms(1) by (simp add: unat_minus_one)
  have kb: "k < 2 ^ 31" using assms(2) by (simp add: k_def word_less_nat_alt)
  have "vsnprintf_loop f ap str (str + sz - 1) m = Some (str + of_nat k, mem_write m str (take k out))"
    using vsnprintf_loop_text [OF assms(5,4,3,6)] put_chars_write [OF assms(3)] unfolding d n k_def Let_def by simp
  moreover have "sint (of_nat k :: u32) = int k" using kb
    by (simp add: signed_of_nat signed_take_bit_int_eq_self)
  moreover have "mem_write m str (take k out @ [0]) = (mem_write m str (take k out))(str + of_nat k := 0)"
    by (simp add: mem_write_append k_def min_def)
  ultimately show ?thesis unfolding vsnprintf_def Let_def k_def [symmetric] by simp
qed

text \<open>C11: \<^verbatim>\<open>vsnprintf\<close> into a buffer of \<open>sz\<close> bytes returns, and stores the specified text cut to \<open>sz - 1\<close> bytes
  followed by a zero, and nothing else; its result is the number of bytes stored before the zero.  The format and
  the string arguments must lie outside the part of the buffer before its last byte.\<close>

theorem vsnprintf_correct:
  assumes "0 < sz" "sz < 2 ^ 31" "str \<le> str + sz - 1"
    and "cstr_off m str (str + sz - 1) f fs" "format_text at fs ap = Some out"
    and "\<And>a. a \<in> set (string_args fs ap) \<Longrightarrow> a \<noteq> NULL \<Longrightarrow> cstr_off m str (str + sz - 1) a (at a)"
  shows "vsnprintf str sz f ap m =
     (let k = min (length out) (unat sz - 1) in Some (int k, mem_write m str (take k out @ [0])))"
  using assms by (rule vsnprintf_text)

section \<open>Reading a printed number\<close>

definition digits_value :: "int \<Rightarrow> u8 list \<Rightarrow> int" where
  "digits_value v ds = foldl (\<lambda>v d. v * 10 + uint (d - 48)) v ds"

lemma digits_value_grows: "0 \<le> v \<Longrightarrow> v \<le> digits_value v ds"
proof (induction ds arbitrary: v)
  case (Cons d ds)
  have "v * 10 + uint (d - 48) \<le> digits_value (v * 10 + uint (d - 48)) ds" using Cons.prems by (intro Cons.IH) simp
  moreover have "v \<le> v * 10 + uint (d - 48)" using Cons.prems uint_ge_0 [of "d - 48"] by linarith
  ultimately have "v \<le> digits_value (v * 10 + uint (d - 48)) ds" by (rule order_trans [rotated])
  then show ?case by (simp add: digits_value_def)
qed (simp add: digits_value_def)

lemma atoi_loop_digits:
  "cstr m p ds \<Longrightarrow> \<forall>d\<in>set ds. 48 \<le> d \<and> d \<le> 57 \<Longrightarrow> 0 \<le> v \<Longrightarrow> digits_value v ds < 2 ^ 31 \<Longrightarrow>
   atoi_loop p v m = Some (digits_value v ds)"
proof (induction ds arbitrary: p v)
  case Nil
  then show ?case by (subst atoi_loop.simps) (simp add: digits_value_def)
next
  case (Cons d ds)
  let ?v = "v * 10 + uint (d - 48)"
  have v: "0 \<le> ?v" "digits_value v (d # ds) = digits_value ?v ds" using Cons.prems(3) by (simp_all add: digits_value_def)
  then have "in_int ?v" using digits_value_grows [OF v(1), of ds] Cons.prems(4) by (simp add: in_int_def)
  moreover have "atoi_loop (p + 1) ?v m = Some (digits_value ?v ds)"
    using Cons.prems v by (intro Cons.IH) simp_all
  moreover have "m p = d" "48 \<le> d" "d \<le> 57" using Cons.prems(1,2) by auto
  ultimately show ?case unfolding v(2) by (subst atoi_loop.simps) (simp only: simp_thms if_True)
qed

lemma dec_digit: "n < 10 \<Longrightarrow> 48 \<le> (48 + of_nat n :: u8) \<and> (48 + of_nat n :: u8) \<le> 57 \<and> uint (48 + of_nat n - 48 :: u8) = int n"
proof -
  assume "n < 10"
  then have "n \<in> {0, 1, 2, 3, 4, 5, 6, 7, 8, 9}" by auto
  then show ?thesis by auto
qed

lemma dec_num_spec:
  "digits_value 0 (rev (dec_num n)) = int n" "\<forall>d\<in>set (dec_num n). 48 \<le> d \<and> d \<le> 57"
  "n < 10 ^ k \<Longrightarrow> 0 < k \<Longrightarrow> length (dec_num n) \<le> k"
proof (induction n arbitrary: k rule: dec_num.induct)
  case (1 n)
  have m: "n mod 10 < 10" by simp
  note D = dec_digit [OF m]
  {
    case 1
    have "digits_value 0 (rev (dec_num n)) =
       (if n div 10 = 0 then 0 else digits_value 0 (rev (dec_num (n div 10)))) * 10 + int (n mod 10)"
      using D by (subst dec_num.simps) (simp add: digits_value_def)
    then show ?case using "1.IH"(1) by (auto simp: zmod_int zdiv_int)
  next
    case 2
    show ?case using "1.IH"(2) D by (subst dec_num.simps) auto
  next
    case 3
    show ?case
    proof (cases "n div 10 = 0")
      case True
      then show ?thesis using 3(2) by (subst dec_num.simps) simp
    next
      case False
      then obtain j where k: "k = Suc j" "0 < j" using 3 by (cases k; cases "k - 1") (auto simp: div_eq_0_iff)
      then have "n div 10 < 10 ^ j" using 3(1) by (simp add: less_mult_imp_div_less mult.commute)
      then show ?thesis using "1.IH"(3) [OF False _ k(2)] False k(1) by (subst dec_num.simps) simp
    qed
  }
qed

lemma atoi_dec_text:
  assumes "- (2 ^ 31) < v" "v < 2 ^ 31" "cstr m p (dec_text v)"
  shows "atoi p m = Some v"
proof -
  let ?ds = "rev (dec_num (nat \<bar>v\<bar>))"
  note S = dec_num_spec(1,2) [of "nat \<bar>v\<bar>"]
  define q where "q = (if v < 0 then p + 1 else p)"
  have c: "cstr m q ?ds" using assms(3) by (auto simp: q_def dec_text_def split: if_splits)
  have ne: "?ds \<noteq> []" by (simp add: dec_num.simps)
  have "m q = hd ?ds" "48 \<le> hd ?ds" using c ne S(2) by (cases ?ds; force)+
  then have g: "48 \<le> m q" by simp
  have "\<not> (48 \<le> (9 :: u8))" "\<not> (48 \<le> (32 :: u8))" "\<not> (48 \<le> (45 :: u8))" "\<not> (48 \<le> (43 :: u8))" by simp_all
  then have x: "m q \<noteq> 9" "m q \<noteq> 32" "m q \<noteq> 45" "m q \<noteq> 43" using g by metis+
  have y: "m p \<noteq> 32 \<and> m p \<noteq> 9" using x assms(3) by (auto simp: q_def dec_text_def split: if_splits)
  have s: "skip_blanks p m = Some p" by (subst skip_blanks.simps) (simp add: y)
  have r: "read_sign p m = (v < 0, q)"
    using x assms(3) by (auto simp: q_def read_sign_def dec_text_def split: if_splits)
  have "atoi_loop q 0 m = Some \<bar>v\<bar>"
    using atoi_loop_digits [OF c, of 0] S assms(1,2) by simp
  then show ?thesis by (simp add: atoi_def s r)
qed

text \<open>C24: A number printed with \<^verbatim>\<open>%d\<close> is read back by \<^verbatim>\<open>atoi\<close>, for every \<^verbatim>\<open>int\<close> but the least one, whose negation
  overflows.\<close>

theorem print_then_atoi:
  assumes "- (2 ^ 31) < v" "v < 2 ^ 31" "12 \<le> sz" "sz < 2 ^ 31" "str \<le> str + sz - 1"
    and "cstr_off m str (str + sz - 1) f [37, 100]"
  shows "\<exists>n m'. vsnprintf str sz f [word_of_int v] m = Some (n, m') \<and> atoi str m' = Some v"
proof -
  have s: "sint (word_of_int v :: u32) = v" using assms(1,2) by (simp add: signed_of_int signed_take_bit_int_eq_self)
  have out: "format_text (\<lambda>_. []) [37, 100] [word_of_int v] = Some (dec_text v)"
    using assms(1) s by (simp add: directive_text_def)
  have n: "nat \<bar>v\<bar> < 10 ^ 10" using assms(1,2) by simp
  have "length (dec_text v) \<le> 11" using dec_num_spec(3) [OF n] by (simp add: dec_text_def abs_if split: if_splits)
  moreover have "12 \<le> unat sz" using assms(3) by (simp add: word_le_nat_alt)
  ultimately have l: "length (dec_text v) \<le> unat sz - 1" by simp
  have "0 < sz" using assms(3) by (simp add: word_less_nat_alt word_le_nat_alt)
  then have "vsnprintf str sz f [word_of_int v] m =
     Some (int (length (dec_text v)), mem_write m str (dec_text v @ [0]))"
    using vsnprintf_text [OF _ assms(4-6) out] l by (simp add: Let_def)
  moreover have "cstr (mem_write m str (dec_text v @ [0])) str (dec_text v)"
  proof (rule cstr_write)
    have "\<not> 48 \<le> (0 :: u8)" by simp
    then have "0 \<notin> set (dec_num k)" for k using dec_num_spec(2) [of k] by metis
    then show "0 \<notin> set (dec_text v)" by (simp add: dec_text_def)
    show "length (dec_text v) < 2 ^ 32" using \<open>length (dec_text v) \<le> 11\<close> by simp
  qed
  ultimately show ?thesis using atoi_dec_text [OF assms(1,2)] by blast
qed

text \<open>A format that ends in a percent sign is read past its end: the terminating zero is copied as if it were a
  directive, and the loop goes on behind it.\<close>

lemma vsnprintf_trailing_percent:
  assumes "m f = 37" "m (f + 1) = 0" "p < e"
  shows "vsnprintf_loop f ap p e m = vsnprintf_loop (f + 2) ap (p + 1) e (m(p := 0))"
  using assms by (subst vsnprintf_loop.simps) (simp add: put_directive_def)

text \<open>A buffer of size 0 still receives the terminating zero.\<close>

lemma vsnprintf_size_zero:
  assumes "str \<noteq> NULL"
  shows "vsnprintf str 0 f ap m = Some (0, m(str := 0))"
proof -
  have "\<not> str < str - 1" using assms by uint_arith
  then show ?thesis unfolding vsnprintf_def by (subst vsnprintf_loop.simps) simp
qed

definition demo_text :: mem where
  "demo_text = mem_write (mem_write (\<lambda>_. 0) 0x100 (bytes ''%s:%d'')) 0x200 (bytes ''ab'')"

lemma demo_text_off:
  "cstr_off demo_text 0x300 (0x300 + 6 - 1) 0x100 (bytes ''%s:%d'')" "cstr_off demo_text 0x300 (0x300 + 6 - 1) 0x200 (bytes ''ab'')"
  by (simp_all add: demo_text_def bytes_def cstr_off_simps)

theorem vsnprintf_correct_witness:
  "vsnprintf 0x300 6 0x100 [0x200, - 12] demo_text = Some (5, mem_write demo_text 0x300 (bytes ''ab:-1'' @ [0]))"
proof -
  have o: "format_text (\<lambda>_. bytes ''ab'') (bytes ''%s:%d'') [0x200, - 12] = Some (bytes ''ab:-12'')"
    by (simp add: bytes_def directive_text_def dec_text_def dec_num.simps)
  have a: "set (string_args (bytes ''%s:%d'') [0x200, - 12]) = {0x200}" by (simp add: bytes_def)
  have "vsnprintf 0x300 6 0x100 [0x200, - 12] demo_text =
     (let k = min (length (bytes ''ab:-12'')) (unat (6 :: u32) - 1) in Some (int k, mem_write demo_text 0x300 (take k (bytes ''ab:-12'') @ [0])))"
    by (rule vsnprintf_correct [OF _ _ _ demo_text_off(1) o]) (use a demo_text_off(2) in auto)
  then show ?thesis by (simp add: bytes_def Let_def)
qed

theorem print_then_atoi_witness:
  "\<exists>n m'. vsnprintf 0x300 16 0x100 [- 12] (mem_write (\<lambda>_. 0) 0x100 [37, 100]) = Some (n, m') \<and> atoi 0x300 m' = Some (- 12)"
  using print_then_atoi [of "- 12" 16 "0x300" "mem_write (\<lambda>_. 0) 0x100 [37, 100]" "0x100"] by (simp add: cstr_off_simps)

end
