(* ===== verification/Process.thy ===== *)
theory Process
  imports Memory
begin

text \<open>
  \<^verbatim>\<open>src/kernel/task/task.c\<close> and the parts of \<^verbatim>\<open>src/kernel/process/process.c\<close> that do not close
  files: creation and destruction of tasks, creation of processes, heap accounting and the stack
  watermark.  Task, process and context objects live in the typed stores at the address the heap
  returns; their bytes are also zeroed in the byte memory, as \<^verbatim>\<open>kzalloc\<close> does.  Sizes are those of
  the 32 bit target: a task has 56 bytes, a process 112 and a context 76.
\<close>

section \<open>Operations\<close>

definition upd_task :: "u32 \<Rightarrow> (task \<Rightarrow> task) \<Rightarrow> 'a mstate_scheme \<Rightarrow> 'a mstate_scheme" where
  "upd_task p f s = s\<lparr>tasks := (tasks s)(p := f (tasks s p))\<rparr>"

definition upd_proc :: "u32 \<Rightarrow> (process \<Rightarrow> process) \<Rightarrow> 'a mstate_scheme \<Rightarrow> 'a mstate_scheme" where
  "upd_proc p f s = s\<lparr>procs := (procs s)(p := f (procs s p))\<rparr>"

text \<open>\<^verbatim>\<open>kzalloc(sizeof(struct task))\<close> and \<^verbatim>\<open>kzalloc(sizeof(struct process))\<close>.\<close>

definition kzalloc_task :: "'a switch \<Rightarrow> 'a mstate_scheme \<Rightarrow> (u32 \<times> 'a mstate_scheme) option" where
  "kzalloc_task sw s =
     do { (p, s) \<leftarrow> kzalloc sw 56 s; Some (p, if p \<noteq> NULL then upd_task p (\<lambda>_. task_zero) s else s) }"

definition kzalloc_process :: "'a switch \<Rightarrow> 'a mstate_scheme \<Rightarrow> (u32 \<times> 'a mstate_scheme) option" where
  "kzalloc_process sw s =
     do { (p, s) \<leftarrow> kzalloc sw 112 s; Some (p, if p \<noteq> NULL then upd_proc p (\<lambda>_. process_zero) s else s) }"

text \<open>From the \<^verbatim>\<open>memset\<close> of the stack to the initial context.\<close>

definition setup_stack :: "u32 \<Rightarrow> u32 \<Rightarrow> 'a mstate_scheme \<Rightarrow> 'a mstate_scheme" where
  "setup_stack p entry s =
     (let t = tasks s p;
          s = s\<lparr>mem := memset (t_stack_base t) 0xA5 (t_stack_size t) (mem s)\<rparr>;
          ctx = t_stack_base t + t_stack_size t - 76;
          s = upd_task p (\<lambda>t. t\<lparr>t_stack_used := 0, t_context := ctx\<rparr>) s;
          s = s\<lparr>mem := memset ctx 0 76 (mem s)\<rparr>
      in s\<lparr>contexts := (contexts s)(ctx :=
             task_context_zero\<lparr>c_pc := entry, c_ps := 0x00040000, c_a1 := ctx\<rparr>)\<rparr>)"

definition task_create_idle :: "'a switch \<Rightarrow> u32 \<Rightarrow> 'a mstate_scheme \<Rightarrow> (u32 \<times> 'a mstate_scheme) option" where
  "task_create_idle sw cpu_idle s =
     do { (p, s) \<leftarrow> kzalloc_task sw s;
          if p = NULL then Some (NULL, s)
          else do {
            let s = upd_task p (\<lambda>t. t\<lparr>t_tid := alloc_tid s, t_pid := 0, t_state := TASK_STATE_RUNNABLE,
                      t_priority := PRIORITY_MIN, t_cpu_affinity := 0, t_flags := 1, t_process := NULL,
                      t_exit_code := 0, t_heap_allocated := 0, t_heap_freed := 0,
                      t_stack_size := TASK_STACK_SIZE\<rparr>) s;
            (b, s) \<leftarrow> kmalloc_aligned sw TASK_STACK_SIZE 16 s;
            let s = upd_task p (\<lambda>t. t\<lparr>t_stack_base := b\<rparr>) s;
            if b = NULL then do { s \<leftarrow> kfree sw p s; Some (NULL, s) }
            else Some (p, setup_stack p cpu_idle s) } }"

definition task_create_user ::
  "'a switch \<Rightarrow> u32 \<Rightarrow> u8 \<Rightarrow> u32 \<Rightarrow> 'a mstate_scheme \<Rightarrow> (u32 \<times> 'a mstate_scheme) option" where
  "task_create_user sw entry priority stack_size s =
     do { (p, s) \<leftarrow> kzalloc_task sw s;
          if p = NULL then Some (NULL, s)
          else do {
            let s = upd_task p (\<lambda>t. t\<lparr>t_tid := alloc_tid s\<rparr>) s;
            if t_tid (tasks s p) = 0 then do { s \<leftarrow> kfree sw p s; Some (NULL, s) }
            else do {
              let stack_size = (if stack_size = 0 then TASK_STACK_SIZE else stack_size);
              let s = upd_task p (\<lambda>t. t\<lparr>t_pid := 0, t_state := TASK_STATE_STOPPED, t_priority := priority,
                        t_cpu_affinity := 0, t_flags := 0, t_process := NULL, t_exit_code := 0,
                        t_heap_allocated := 0, t_heap_freed := 0, t_stack_size := stack_size\<rparr>) s;
              (b, s) \<leftarrow> kmalloc_aligned sw stack_size 16 s;
              let s = upd_task p (\<lambda>t. t\<lparr>t_stack_base := b\<rparr>) s;
              if b = NULL
              then do { s \<leftarrow> kfree sw p (free_tid (t_tid (tasks s p)) s); Some (NULL, s) }
              else Some (p, setup_stack p entry s) } } }"

definition task_destroy :: "'a switch \<Rightarrow> u32 \<Rightarrow> 'a mstate_scheme \<Rightarrow> 'a mstate_scheme option" where
  "task_destroy sw p s =
     (if p = NULL then Some s
      else do {
        s \<leftarrow> (if t_stack_base (tasks s p) \<noteq> NULL
              then do { s \<leftarrow> kfree sw (t_stack_base (tasks s p)) s;
                        Some (upd_task p (\<lambda>t. t\<lparr>t_stack_base := NULL\<rparr>) s) }
              else Some s);
        kfree sw p (free_tid (t_tid (tasks s p)) s) })"

text \<open>The scan of \<^verbatim>\<open>task_stack_watermark\<close>: bytes from the base that are still \<open>0xA5\<close>, with \<open>n\<close> bytes
  left.\<close>

fun stack_untouched :: "nat \<Rightarrow> u32 \<Rightarrow> mem \<Rightarrow> nat option" where
  "stack_untouched 0 a m = None"
| "stack_untouched (Suc n) a m =
     (if m a \<noteq> 0xA5 then Some (Suc n) else stack_untouched n (a + 1) m)"

definition task_stack_watermark :: "u32 \<Rightarrow> 'a mstate_scheme \<Rightarrow> 'a mstate_scheme" where
  "task_stack_watermark p s =
     (if p = NULL \<or> t_stack_base (tasks s p) = NULL then s
      else let t = tasks s p;
               used = (case stack_untouched (unat (t_stack_size t)) (t_stack_base t) (mem s) of
                         Some left \<Rightarrow> of_nat left | None \<Rightarrow> 0)
           in if t_stack_used t < used then upd_task p (\<lambda>t. t\<lparr>t_stack_used := used\<rparr>) s else s)"

text \<open>The end of \<^verbatim>\<open>task_create\<close>: the task becomes the first task of its process and is entered in the
  task table.\<close>

definition register_task :: "u32 \<Rightarrow> u32 \<Rightarrow> 'a mstate_scheme \<Rightarrow> 'a mstate_scheme" where
  "register_task proc p s =
     (let s = upd_task p (\<lambda>t. t\<lparr>t_next := p_tasks (procs s proc), t_prev := NULL\<rparr>) s;
          s = (if p_tasks (procs s proc) \<noteq> NULL
               then upd_task (p_tasks (procs s proc)) (\<lambda>t. t\<lparr>t_prev := p\<rparr>) s else s);
          s = upd_proc proc (\<lambda>q. q\<lparr>p_tasks := p, p_task_count := p_task_count q + 1\<rparr>) s
      in s\<lparr>task_table := (task_table s)[nat (t_tid (tasks s p)) := p]\<rparr>)"

definition task_create ::
  "'a switch \<Rightarrow> u32 \<Rightarrow> u32 \<Rightarrow> u8 \<Rightarrow> 'a mstate_scheme \<Rightarrow> (u32 \<times> 'a mstate_scheme) option" where
  "task_create sw proc entry priority s =
     (if proc = NULL then Some (NULL, s)
      else do {
        (p, s) \<leftarrow> kzalloc_task sw s;
        if p = NULL then Some (NULL, s)
        else do {
          let s = upd_task p (\<lambda>t. t\<lparr>t_tid := alloc_tid s\<rparr>) s;
          if t_tid (tasks s p) = 0 then do { s \<leftarrow> kfree sw p s; Some (NULL, s) }
          else do {
            let s = upd_task p (\<lambda>t. t\<lparr>t_pid := p_pid (procs s proc), t_state := TASK_STATE_STOPPED,
                      t_priority := priority, t_cpu_affinity := 0, t_flags := 0, t_process := proc,
                      t_exit_code := 0, t_heap_allocated := 0, t_heap_freed := 0,
                      t_stack_size := TASK_STACK_SIZE\<rparr>) s;
            (b, s) \<leftarrow> kmalloc_aligned sw TASK_STACK_SIZE 16 s;
            let s = upd_task p (\<lambda>t. t\<lparr>t_stack_base := b\<rparr>) s;
            if b = NULL
            then do { s \<leftarrow> kfree sw p (free_tid (t_tid (tasks s p)) s); Some (NULL, s) }
            else Some (p, register_task proc p (setup_stack p entry s)) } } })"

text \<open>\<^verbatim>\<open>process_create\<close>; \<open>name\<close> is \<^term>\<open>None\<close> for a null pointer.\<close>

definition process_create ::
  "'a switch \<Rightarrow> string option \<Rightarrow> 'a mstate_scheme \<Rightarrow> (u32 \<times> 'a mstate_scheme) option" where
  "process_create sw name s =
     do { (p, s) \<leftarrow> kzalloc_process sw s;
          if p = NULL then Some (NULL, s)
          else do {
            let s = upd_proc p (\<lambda>q. q\<lparr>p_pid := alloc_pid s\<rparr>) s;
            if p_pid (procs s p) = 0 then do { s \<leftarrow> kfree sw p s; Some (NULL, s) }
            else do {
              let s = upd_proc p (\<lambda>q. q\<lparr>p_ppid := 0, p_uid := 0, p_gid := 0,
                        p_name := (case name of Some n \<Rightarrow> take 31 n | None \<Rightarrow> p_name q),
                        p_fd_max := 32\<rparr>) s;
              (t, s) \<leftarrow> kzalloc sw (4 * 32) s;
              let s = upd_proc p (\<lambda>q. q\<lparr>p_fd_table := t\<rparr>) s;
              if t = NULL
              then do { s \<leftarrow> kfree sw p (free_pid (p_pid (procs s p)) s); Some (NULL, s) }
              else let s = s\<lparr>fd_tables := (fd_tables s)(t := replicate 32 FNull)\<rparr>;
                       s = upd_proc p (\<lambda>q. q\<lparr>p_fd_count := 0, p_heap_start := NULL, p_heap_end := NULL,
                             p_heap_brk := NULL, p_heap_allocated := 0, p_heap_freed := 0\<rparr>) s
                   in Some (p, s\<lparr>process_table := (process_table s)[nat (p_pid (procs s p)) := p]\<rparr>) } } }"

definition get_fd_table :: "'a mstate_scheme \<Rightarrow> u32" where
  "get_fd_table s =
     (let c = current_task (cpu0 s)
      in if c = NULL \<or> t_process (tasks s c) = NULL then NULL
         else p_fd_table (procs s (t_process (tasks s c))))"

definition get_fd_count :: "'a mstate_scheme \<Rightarrow> int" where
  "get_fd_count s =
     (let c = current_task (cpu0 s)
      in if c = NULL \<or> t_process (tasks s c) = NULL then 0
         else p_fd_count (procs s (t_process (tasks s c))))"

definition process_account_alloc :: "u32 \<Rightarrow> u32 \<Rightarrow> 'a mstate_scheme \<Rightarrow> 'a mstate_scheme" where
  "process_account_alloc p n s =
     (if p \<noteq> NULL then upd_proc p (\<lambda>q. q\<lparr>p_heap_allocated := p_heap_allocated q + n\<rparr>) s else s)"

definition process_account_free :: "u32 \<Rightarrow> u32 \<Rightarrow> 'a mstate_scheme \<Rightarrow> 'a mstate_scheme" where
  "process_account_free p n s =
     (if p \<noteq> NULL then upd_proc p (\<lambda>q. q\<lparr>p_heap_freed := p_heap_freed q + n\<rparr>) s else s)"

definition task_account_alloc :: "u32 \<Rightarrow> u32 \<Rightarrow> 'a mstate_scheme \<Rightarrow> 'a mstate_scheme" where
  "task_account_alloc p n s =
     (if p \<noteq> NULL then upd_task p (\<lambda>t. t\<lparr>t_heap_allocated := t_heap_allocated t + n\<rparr>) s else s)"

definition task_account_free :: "u32 \<Rightarrow> u32 \<Rightarrow> 'a mstate_scheme \<Rightarrow> 'a mstate_scheme" where
  "task_account_free p n s =
     (if p \<noteq> NULL then upd_task p (\<lambda>t. t\<lparr>t_heap_freed := t_heap_freed t + n\<rparr>) s else s)"

section \<open>The heap calls leave the kernel tables alone\<close>

lemma same_kernel_more:
  assumes "same_kernel s s'"
  shows "procs s = procs s'" "contexts s = contexts s'" "fd_tables s = fd_tables s'"
    "arp_table s = arp_table s'" "arp_tick s = arp_tick s'"
  using arg_cong [OF assms [unfolded same_kernel_def], of procs]
    arg_cong [OF assms [unfolded same_kernel_def], of contexts]
    arg_cong [OF assms [unfolded same_kernel_def], of fd_tables]
    arg_cong [OF assms [unfolded same_kernel_def], of arp_table]
    arg_cong [OF assms [unfolded same_kernel_def], of arp_tick]
  by simp_all

lemma same_kernel_mem [simp]: "same_kernel s (s'\<lparr>mem := m\<rparr>) = same_kernel s s'"
  by (simp add: same_kernel_def)

lemma region_alloc_kernel:
  assumes "lock_idle s" "region_alloc sw i n s = Some (p, s')"
  shows "same_kernel s s'"
proof -
  obtain m where m: "heap_lock_acquire sw s = Some (with_lock m s)"
    "\<And>s'. same_kernel s s' \<Longrightarrow> heap_lock_release (with_lock m s') = s'"
    using acquire_idle [OF assms(1)] by blast
  obtain b where b: "region_find_free i n (with_lock m s) = Some b"
    using assms(2) m(1) by (auto simp: region_alloc_def split: bind_splits)
  have "region_alloc sw i n s =
    (if b = NULL then Some (NULL, heap_lock_release (with_lock m s))
     else Some (b + HDR, heap_lock_release (carve i b n (with_lock m s))))"
    using m(1) b by (simp add: region_alloc_def carve_def Let_def)
  then show ?thesis using assms(2) m(2) [of s] m(2) [of "carve i b n s"]
    by (auto split: if_splits)
qed

lemma kmalloc_kernel: "lock_idle s \<Longrightarrow> kmalloc sw n s = Some (p, s') \<Longrightarrow> same_kernel s s'"
  by (auto simp: kmalloc_def split: if_splits dest: region_alloc_kernel)

lemma kzalloc_kernel: "lock_idle s \<Longrightarrow> kzalloc sw n s = Some (p, s') \<Longrightarrow> same_kernel s s'"
  by (auto simp: kzalloc_def split: bind_splits dest: kmalloc_kernel)

lemma same_kernel_pre_block [simp]: "same_kernel s (place_pre_block i b ofs s') = same_kernel s s'"
  by (simp add: place_pre_block_def Let_def)

lemma aligned_loop_kernel: "aligned_loop i n al b s = Some r \<Longrightarrow> same_kernel s (snd r)"
proof (induction i n al b s r rule: aligned_loop.raw_induct [rotated, consumes 1, case_names step])
  case (step f i n al b s r)
  from step.hyps show ?case
    by (auto simp: Let_def dest: step.IH split: if_splits)
qed

lemma aligned_regions_kernel: "aligned_regions k i n al s = Some (p, s') \<Longrightarrow> same_kernel s s'"
proof (induction k arbitrary: i s)
  case (Suc k)
  then show ?case
    by (auto split: bind_splits option.splits dest!: aligned_loop_kernel intro: same_kernel_trans)
qed simp

lemma same_kernel_with_lock:
  "same_kernel (with_lock m s) s' \<Longrightarrow> same_kernel s (with_lock (heap_lock s) s') \<and> s' = with_lock m (with_lock (heap_lock s) s')"
proof -
  assume k: "same_kernel (with_lock m s) s'"
  then have "heap_lock s' = m" using same_kernelD(1) by fastforce
  moreover have "with_lock (heap_lock s) (with_lock m s) = s" by (simp add: with_lock_same)
  moreover have "same_kernel (with_lock (heap_lock s) (with_lock m s)) (with_lock (heap_lock s) s')"
    using arg_cong [OF k [unfolded same_kernel_def], of "heap_lock_update (\<lambda>_. heap_lock s)"]
    by (simp add: same_kernel_def with_lock_def)
  ultimately show ?thesis by (simp add: with_lock_same)
qed

text \<open>A section under the lock that leaves the kernel alone leaves it alone with its lock and unlock.\<close>

lemma locked_kernel:
  assumes "lock_idle s" "heap_lock_acquire sw s = Some s1" "same_kernel s1 s2"
  shows "same_kernel s (heap_lock_release s2)"
proof -
  obtain m where m: "heap_lock_acquire sw s = Some (with_lock m s)"
    "\<And>s'. same_kernel s s' \<Longrightarrow> heap_lock_release (with_lock m s') = s'"
    using acquire_idle [OF assms(1)] by blast
  then have "same_kernel (with_lock m s) s2" using assms(2,3) by simp
  from same_kernel_with_lock [OF this] m(2) show ?thesis by metis
qed

lemma kmalloc_aligned_kernel:
  "lock_idle s \<Longrightarrow> kmalloc_aligned sw n al s = Some (p, s') \<Longrightarrow> same_kernel s s'"
  by (auto simp: kmalloc_aligned_def Let_def split: if_splits bind_splits
      dest!: aligned_regions_kernel dest: locked_kernel)

lemma kfree_kernel:
  assumes "lock_idle s" "kfree sw p s = Some s'"
  shows "same_kernel s s'"
proof (cases "p = NULL")
  case True
  then show ?thesis using assms(2) by (simp add: kfree_def)
next
  case False
  then obtain s1 where s1: "heap_lock_acquire sw s = Some s1"
    using assms(2) by (auto simp: kfree_def split: bind_splits)
  let ?b = "p - HDR" and ?i = "unat (hb_region s1 (p - HDR))"
  have "\<exists>s2. same_kernel s1 s2 \<and> s' = heap_lock_release s2"
  proof (cases "num_regions s1 \<le> uint (hb_region s1 ?b) \<or> hb_magic s1 ?b \<noteq> HEAP_MAGIC \<or> hb_free s1 ?b \<noteq> 0")
    case True
    then have "s' = heap_lock_release s1"
      using assms(2) False s1 by (auto simp: kfree_def Let_def split: if_splits)
    then show ?thesis by (intro exI [of _ s1]) simp
  next
    case valid: False
    then obtain s2 where s2: "region_coalesce ?i ?b (release_block ?i ?b s1) = Some s2" "s' = heap_lock_release s2"
      using assms(2) False s1 by (auto simp: kfree_def release_block_def Let_def split: bind_splits)
    have "same_kernel s1 (release_block ?i ?b s1)" by (simp add: release_block_def Let_def)
    then show ?thesis using same_kernel_coalesce [OF s2(1)] same_kernel_trans s2(2) by blast
  qed
  then show ?thesis using locked_kernel [OF assms(1) s1] by blast
qed

text \<open>Updates of the object stores keep the lock idle.\<close>

lemma upd_task_frame [simp]:
  "lock_idle (upd_task p f s) = lock_idle s" "procs (upd_task p f s) = procs s"
  "task_table (upd_task p f s) = task_table s" "process_table (upd_task p f s) = process_table s"
  "runnable_queue (upd_task p f s) = runnable_queue s" "sleep_queue (upd_task p f s) = sleep_queue s"
  "cpu0 (upd_task p f s) = cpu0 s" "tasks (upd_task p f s) = (tasks s)(p := f (tasks s p))"
  "alloc_tid (upd_task p f s) = alloc_tid s" "mem (upd_task p f s) = mem s"
  "heap_lock (upd_task p f s) = heap_lock s"
  by (simp_all add: upd_task_def lock_idle_def alloc_tid_def)

lemma upd_proc_frame [simp]:
  "lock_idle (upd_proc p g s) = lock_idle s" "tasks (upd_proc p g s) = tasks s"
  "task_table (upd_proc p g s) = task_table s" "process_table (upd_proc p g s) = process_table s"
  "runnable_queue (upd_proc p g s) = runnable_queue s" "sleep_queue (upd_proc p g s) = sleep_queue s"
  "cpu0 (upd_proc p g s) = cpu0 s" "procs (upd_proc p g s) = (procs s)(p := g (procs s p))"
  "alloc_pid (upd_proc p g s) = alloc_pid s"
  by (simp_all add: upd_proc_def lock_idle_def alloc_pid_def)

lemma kzalloc_task_kernel:
  assumes "lock_idle s" "kzalloc_task sw s = Some (p, s')"
  shows "lock_idle s'" "procs s' = procs s" "task_table s' = task_table s"
    "runnable_queue s' = runnable_queue s" "sleep_queue s' = sleep_queue s" "cpu0 s' = cpu0 s"
    "p \<noteq> NULL \<Longrightarrow> tasks s' = (tasks s)(p := task_zero)" "p = NULL \<Longrightarrow> tasks s' = tasks s"
    "alloc_tid s' = alloc_tid s"
proof -
  obtain s1 where s1: "kzalloc sw 56 s = Some (p, s1)" "s' = (if p \<noteq> NULL then upd_task p (\<lambda>_. task_zero) s1 else s1)"
    using assms(2) by (auto simp: kzalloc_task_def split: bind_splits)
  note k = kzalloc_kernel [OF assms(1) s1(1)]
  note K = same_kernelD [OF k] same_kernel_more [OF k] lock_idle_same [OF k assms(1)]
  have "alloc_tid s1 = alloc_tid s" using K(10) by (simp add: alloc_tid_def)
  then show "lock_idle s'" "procs s' = procs s" "task_table s' = task_table s"
    "runnable_queue s' = runnable_queue s" "sleep_queue s' = sleep_queue s" "cpu0 s' = cpu0 s"
    "p \<noteq> NULL \<Longrightarrow> tasks s' = (tasks s)(p := task_zero)" "p = NULL \<Longrightarrow> tasks s' = tasks s"
    "alloc_tid s' = alloc_tid s"
    using K s1(2) by simp_all
qed

lemma setup_stack_frame [simp]:
  "procs (setup_stack p e s) = procs s" "task_table (setup_stack p e s) = task_table s"
  "runnable_queue (setup_stack p e s) = runnable_queue s" "sleep_queue (setup_stack p e s) = sleep_queue s"
  "cpu0 (setup_stack p e s) = cpu0 s" "t_tid (tasks (setup_stack p e s) q) = t_tid (tasks s q)"
  "t_state (tasks (setup_stack p e s) q) = t_state (tasks s q)"
  "t_priority (tasks (setup_stack p e s) q) = t_priority (tasks s q)"
  "lock_idle (setup_stack p e s) = lock_idle s"
  by (simp_all add: setup_stack_def Let_def lock_idle_def)

lemma free_tid_free:
  assumes "task_table s ! nat t = NULL" "length (task_table s) = 64"
  shows "free_tid t s = s"
proof -
  have "(task_table s)[nat t := NULL] = task_table s" using assms by (metis list_update_id)
  then show ?thesis by (simp add: free_tid_def)
qed

section \<open>Task creation\<close>

text \<open>The steps of a successful \<^verbatim>\<open>task_create\<close>.\<close>

lemma task_create_steps:
  assumes "task_create sw proc entry prio s = Some (p, s')" and "p \<noteq> NULL" and idle: "lock_idle s"
  obtains s1 s2 b where "kzalloc_task sw s = Some (p, s1)" "alloc_tid s \<noteq> 0"
    "tasks s2 = (tasks s)(p := task_zero\<lparr>t_tid := alloc_tid s, t_pid := p_pid (procs s proc),
       t_state := TASK_STATE_STOPPED, t_priority := prio, t_process := proc, t_stack_size := TASK_STACK_SIZE\<rparr>)"
    "procs s2 = procs s" "task_table s2 = task_table s" "runnable_queue s2 = runnable_queue s"
    "sleep_queue s2 = sleep_queue s" "cpu0 s2 = cpu0 s" "b \<noteq> NULL"
    "s' = register_task proc p (setup_stack p entry (upd_task p (\<lambda>t. t\<lparr>t_stack_base := b\<rparr>) s2))"
proof -
  have np: "proc \<noteq> NULL" using assms(1,2) by (auto simp: task_create_def)
  then obtain q s1 where k: "kzalloc_task sw s = Some (q, s1)"
    using assms(1) by (auto simp: task_create_def split: bind_splits)
  have q: "q \<noteq> NULL" using assms(1,2) np k by (auto simp: task_create_def)
  note K = kzalloc_task_kernel [OF idle k]
  let ?t1 = "upd_task q (\<lambda>t. t\<lparr>t_tid := alloc_tid s\<rparr>) s1"
  have tid: "alloc_tid s \<noteq> 0"
    using assms(1,2) np k q K(9)
    by (auto simp: task_create_def Let_def split: bind_splits)
  let ?t2 = "upd_task q (\<lambda>t. t\<lparr>t_pid := p_pid (procs ?t1 proc), t_state := TASK_STATE_STOPPED,
                      t_priority := prio, t_cpu_affinity := 0, t_flags := 0, t_process := proc,
                      t_exit_code := 0, t_heap_allocated := 0, t_heap_freed := 0,
                      t_stack_size := TASK_STACK_SIZE\<rparr>) ?t1"
  have create: "task_create sw proc entry prio s = do {
      (b, s) \<leftarrow> kmalloc_aligned sw TASK_STACK_SIZE 16 ?t2;
      let s = upd_task q (\<lambda>t. t\<lparr>t_stack_base := b\<rparr>) s;
      if b = NULL
      then do { s \<leftarrow> kfree sw q (free_tid (t_tid (tasks s q)) s); Some (NULL, s) }
      else Some (q, register_task proc q (setup_stack q entry s)) }"
    using np k q tid K(7,9) by (simp add: task_create_def Let_def)
  then obtain b s2 where al: "kmalloc_aligned sw TASK_STACK_SIZE 16 ?t2 = Some (b, s2)"
    using assms(1) by (auto split: bind_splits)
  then have res: "b \<noteq> NULL" "p = q" "s' = register_task proc q (setup_stack q entry (upd_task q (\<lambda>t. t\<lparr>t_stack_base := b\<rparr>) s2))"
    using create assms(1,2) by (auto simp: Let_def split: if_splits bind_splits)
  have "lock_idle ?t2" using K(1) by simp
  note k2 = kmalloc_aligned_kernel [OF this al]
  note K2 = same_kernelD [OF k2] same_kernel_more [OF k2]
  have "tasks s2 = (tasks s)(p := task_zero\<lparr>t_tid := alloc_tid s, t_pid := p_pid (procs s proc),
       t_state := TASK_STATE_STOPPED, t_priority := prio, t_process := proc, t_stack_size := TASK_STACK_SIZE\<rparr>)"
    using K2(5) K(2,7) q res(2) by (auto simp: task_zero_def fun_eq_iff)
  moreover have "procs s2 = procs s" "task_table s2 = task_table s" "runnable_queue s2 = runnable_queue s"
    "sleep_queue s2 = sleep_queue s" "cpu0 s2 = cpu0 s" using K2 K by simp_all
  ultimately show ?thesis using k tid res by (intro that) auto
qed

text \<open>a successful \<^verbatim>\<open>task_create\<close> enters the new task, stopped and with the requested priority, in a
  slot of the task table that was free, makes it the first task of its process in front of the
  earlier ones, and leaves the scheduler's queues and the current task alone.\<close>

theorem task_create_registers:
  assumes "lock_idle s" and "length (task_table s) = 64"
    and "task_create sw proc entry prio s = Some (p, s')" and "p \<noteq> NULL"
  shows "\<exists>tid. 1 \<le> tid \<and> tid < 64 \<and> task_table s ! tid = NULL \<and> task_table s' = (task_table s)[tid := p]
     \<and> t_tid (tasks s' p) = int tid \<and> t_state (tasks s' p) = TASK_STATE_STOPPED
     \<and> t_priority (tasks s' p) = prio
     \<and> p_tasks (procs s' proc) = p \<and> t_next (tasks s' p) = p_tasks (procs s proc)
     \<and> runnable_queue s' = runnable_queue s \<and> sleep_queue s' = sleep_queue s \<and> cpu0 s' = cpu0 s"
proof -
  obtain s1 s2 b where S: "alloc_tid s \<noteq> 0"
    "tasks s2 = (tasks s)(p := task_zero\<lparr>t_tid := alloc_tid s, t_pid := p_pid (procs s proc),
       t_state := TASK_STATE_STOPPED, t_priority := prio, t_process := proc, t_stack_size := TASK_STACK_SIZE\<rparr>)"
    "procs s2 = procs s" "task_table s2 = task_table s" "runnable_queue s2 = runnable_queue s"
    "sleep_queue s2 = sleep_queue s" "cpu0 s2 = cpu0 s"
    "s' = register_task proc p (setup_stack p entry (upd_task p (\<lambda>t. t\<lparr>t_stack_base := b\<rparr>) s2))"
    by (rule task_create_steps [OF assms(3,4,1)])
  have tid: "1 \<le> nat (alloc_tid s)" "nat (alloc_tid s) < 64" "task_table s ! nat (alloc_tid s) = NULL"
    using first_free_pos [of MAX_TASKS "task_table s"] S(1) by (simp_all add: alloc_tid_def)
  moreover have "0 \<le> alloc_tid s" using first_free_range [of MAX_TASKS "task_table s"] by (simp add: alloc_tid_def)
  moreover have "task_table s' = (task_table s)[nat (alloc_tid s) := p]" "t_tid (tasks s' p) = alloc_tid s"
    "t_state (tasks s' p) = TASK_STATE_STOPPED" "t_priority (tasks s' p) = prio"
    "p_tasks (procs s' proc) = p" "t_next (tasks s' p) = p_tasks (procs s proc)"
    "runnable_queue s' = runnable_queue s" "sleep_queue s' = sleep_queue s" "cpu0 s' = cpu0 s"
    using S(2-7) by (simp_all add: S(8) register_task_def Let_def)
  ultimately show ?thesis by (intro exI [of _ "nat (alloc_tid s)"]) simp
qed


lemma task_create_user_steps:
  assumes "task_create_user sw entry prio n s = Some (p, s')" and "p \<noteq> NULL" and idle: "lock_idle s"
  shows "t_tid (tasks s' p) = alloc_tid s" "task_table s' = task_table s" "lock_idle s'"
proof -
  obtain q s1 where k: "kzalloc_task sw s = Some (q, s1)"
    using assms(1) by (auto simp: task_create_user_def split: bind_splits)
  have q: "q \<noteq> NULL" using assms(1,2) k by (auto simp: task_create_user_def)
  note K = kzalloc_task_kernel [OF idle k]
  let ?n = "if n = 0 then TASK_STACK_SIZE else n"
  let ?t1 = "upd_task q (\<lambda>t. t\<lparr>t_tid := alloc_tid s\<rparr>) s1"
  have tid: "alloc_tid s \<noteq> 0"
    using assms(1,2) k q K(9) by (auto simp: task_create_user_def Let_def split: bind_splits)
  let ?t2 = "upd_task q (\<lambda>t. t\<lparr>t_pid := 0, t_state := TASK_STATE_STOPPED, t_priority := prio,
                        t_cpu_affinity := 0, t_flags := 0, t_process := NULL, t_exit_code := 0,
                        t_heap_allocated := 0, t_heap_freed := 0, t_stack_size := ?n\<rparr>) ?t1"
  have create: "task_create_user sw entry prio n s = do {
      (b, s) \<leftarrow> kmalloc_aligned sw ?n 16 ?t2;
      let s = upd_task q (\<lambda>t. t\<lparr>t_stack_base := b\<rparr>) s;
      if b = NULL
      then do { s \<leftarrow> kfree sw q (free_tid (t_tid (tasks s q)) s); Some (NULL, s) }
      else Some (q, setup_stack q entry s) }"
    using k q tid K(7,9) by (simp add: task_create_user_def Let_def)
  then obtain b s2 where al: "kmalloc_aligned sw ?n 16 ?t2 = Some (b, s2)"
    using assms(1) by (auto split: bind_splits)
  then have res: "p = q" "s' = setup_stack q entry (upd_task q (\<lambda>t. t\<lparr>t_stack_base := b\<rparr>) s2)"
    using create assms(1,2) by (auto simp: Let_def split: if_splits bind_splits)
  have i2: "lock_idle ?t2" using K(1) by simp
  note k2 = kmalloc_aligned_kernel [OF i2 al]
  show "t_tid (tasks s' p) = alloc_tid s" "task_table s' = task_table s" "lock_idle s'"
    using same_kernelD(5,10) [OF k2] lock_idle_same [OF k2 i2] K(3) res by (simp_all flip: same_kernelD(5) [OF k2])
qed

text \<open>\<^verbatim>\<open>task_create_user\<close> never enters the task in the task table, so after a successful call
  \<^verbatim>\<open>alloc_tid\<close> hands out the identifier of the task just created once more.\<close>

theorem task_create_user_reuses_tid:
  assumes "lock_idle s" and "task_create_user sw entry prio n s = Some (p, s')" and "p \<noteq> NULL"
  shows "t_tid (tasks s' p) = alloc_tid s \<and> alloc_tid s' = t_tid (tasks s' p)"
  using task_create_user_steps [OF assms(2,3,1)] by (simp add: alloc_tid_def)


section \<open>Creation succeeds on a fresh heap\<close>

lemma memset_keeps_bump:
  assumes b: "bump i g s" and below: "unat p + unat n \<le> unat g"
  shows "bump i g (s\<lparr>mem := memset p c n (mem s)\<rparr>)"
    "hb_size (s\<lparr>mem := memset p c n (mem s)\<rparr>) g = hb_size s g"
proof -
  let ?s = "s\<lparr>mem := memset p c n (mem s)\<rparr>"
  have "mem ?s (g + j) = mem s (g + j)" if "j < 20" for j
  proof -
    have "unat (g + j) = unat g + unat j"
      using bump_bounds(1) [OF b] that by (simp add: unat_add_lem [THEN iffD1] word_less_nat_alt)
    moreover have "p \<le> g + j" using calculation below by (simp add: word_le_nat_alt)
    ultimately have "unat (g + j - p) = unat g + unat j - unat p" by (simp add: unat_sub)
    then have "\<not> unat (g + j - p) < unat n" using below by linarith
    then show ?thesis by (simp add: memset_at)
  qed
  note H = hb_other_header [of ?s g s, OF this]
  show "bump i g ?s" "hb_size ?s g = hb_size s g" using b H by (simp_all add: bump_def)
qed

lemma kzalloc_bump:
  assumes b: "bump 0 f s" and idle: "lock_idle s" and n: "n \<noteq> 0" "unat n \<le> unat (round_up n)"
    and sz: "unat (round_up n) + 36 \<le> unat (hb_size s f)"
  shows "\<exists>s'. kzalloc sw n s = Some (f + 20, s') \<and> bump 0 (f + 20 + round_up n) s'
     \<and> hb_size s' (f + 20 + round_up n) = hb_size s f - round_up n - HDR \<and> lock_idle s'
     \<and> length (regions s') = length (regions s) \<and> num_regions s' = num_regions s"
proof -
  let ?r = "round_up n"
  have r: "?r \<le> hb_size s f" using sz by (simp add: word_le_nat_alt)
  note C = carve_split [OF b sz] and G = split_geometry(2) [OF bump_bounds [OF b] r sz]
  have f20: "unat (f + 20) = unat f + 20"
    using bump_bounds(1) [OF b] by (simp add: unat_add_lem [THEN iffD1])
  then have "f + 20 \<noteq> NULL" by (metis add_is_0 unat_0 zero_neq_numeral)
  then have "kzalloc sw n s = Some (f + 20, (carve 0 f ?r s)\<lparr>mem := memset (f + 20) 0 n (mem (carve 0 f ?r s))\<rparr>)"
    using kmalloc_bump [OF b idle n(1), of sw] r by (simp add: kzalloc_def)
  moreover note memset_keeps_bump [OF C(1), of "f + 20" n 0]
  moreover have "lock_idle (carve 0 f ?r s)" using lock_idle_same [OF same_kernel_carve idle] .
  ultimately show ?thesis using C(2,11) G f20 n(2) same_kernelD(3) [OF same_kernel_carve [of s 0 f ?r]]
    by (auto simp: lock_idle_def)
qed

text \<open>An aligned allocation from a block whose payload is aligned already.\<close>

lemma kmalloc_aligned_bump:
  assumes b: "bump 0 f s" and idle: "lock_idle s" and n: "n \<noteq> 0" "unat n + 36 \<le> unat (hb_size s f)"
    and al: "al \<noteq> 0" "al AND (al - 1) = 0" "(f + 20 + al - 1) AND NOT (al - 1) = f + 20" and nr: "0 < num_regions s"
  shows "kmalloc_aligned sw n al s = Some (f + 20, carve 0 f n s)"
proof -
  obtain m where m: "heap_lock_acquire sw s = Some (with_lock m s)"
    "\<And>s'. same_kernel s s' \<Longrightarrow> heap_lock_release (with_lock m s') = s'"
    using acquire_idle [OF idle] by blast
  have r: "n \<le> hb_size s f" using n(2) by (simp add: word_le_nat_alt)
  have fit: "\<not> hb_size s f < n + 0 + HDR + HEAP_MIN_BLOCK"
    using split_geometry(1) [OF bump_bounds [OF b] r] n(2) by simp
  have "aligned_loop 0 n al f (with_lock m s) = Some (Some (f + 20), carve 0 f n (with_lock m s))"
    using b bump_nonnull [OF b] al(3) r fit
    by (simp add: aligned_loop.simps [of 0 n al f] bump_def carve_def Let_def not_less)
  moreover obtain k where k: "nat (num_regions s) = Suc k" using nr by (metis gr0_implies_Suc zero_less_nat_eq)
  moreover have "r_free_list (regions s ! 0) = f" using b by (simp add: bump_def)
  ultimately have "kmalloc_aligned sw n al s = Some (f + 20, heap_lock_release (carve 0 f n (with_lock m s)))"
    using n(1) al(1,2) m(1) by (simp add: kmalloc_aligned_def Let_def)
  then show ?thesis using m(2) [of "carve 0 f n s"] by simp
qed

text \<open>The first task on the example heap: its object is at \<open>0x3FC90014\<close>, its stack at \<open>0x3FC90060\<close>.\<close>

lemma demo_task_alloc:
  "\<exists>s1. kzalloc_task sw demo_heap = Some (0x3FC90014, s1) \<and> bump 0 0x3FC9004C s1
     \<and> hb_size s1 0x3FC9004C = 0xFFA0 \<and> lock_idle s1 \<and> num_regions s1 = 1"
proof -
  have r: "round_up 56 = 56" by (simp add: round_up_def)
  obtain s' where s': "kzalloc sw 56 demo_heap = Some (0x3FC90014, s')" "bump 0 0x3FC9004C s'"
    "hb_size s' 0x3FC9004C = 0xFFA0" "lock_idle s'" "num_regions s' = 1"
    using kzalloc_bump [OF demo_heap_bump(1,4), of 56 sw] demo_heap_bump(3,5) by (auto simp: r)
  have "bump 0 g (upd_task p f s') = bump 0 g s'" "hb_size (upd_task p f s') = hb_size s'"
    "num_regions (upd_task p f s') = num_regions s'" for g p f
    by (simp_all add: bump_def upd_task_def hb_defs fun_eq_iff)
  then show ?thesis using s' by (simp add: kzalloc_task_def)
qed

lemma demo_stack_alloc:
  assumes "bump 0 0x3FC9004C s" "hb_size s 0x3FC9004C = 0xFFA0" "lock_idle s" "num_regions s = 1"
  shows "kmalloc_aligned sw 4096 16 s = Some (0x3FC90060, carve 0 0x3FC9004C 4096 s)"
  using kmalloc_aligned_bump [OF assms(1,3), of 4096 16 sw] assms(2,4) by simp

lemma bump_upd_task [simp]:
  "bump i g (upd_task p f s) = bump i g s" "hb_size (upd_task p f s) = hb_size s"
  "num_regions (upd_task p f s) = num_regions s"
  by (simp_all add: bump_def upd_task_def hb_defs fun_eq_iff)

lemma internal_setup_tables:
  assumes "length (regions s) = 2"
  shows "task_table (internal_setup hs he s) = task_table s" "runnable_queue (internal_setup hs he s) = runnable_queue s"
    "sleep_queue (internal_setup hs he s) = sleep_queue s" "cpu0 (internal_setup hs he s) = cpu0 s"
    "tasks (internal_setup hs he s) = tasks s"
proof -
  define s0 where "s0 = (region_init 0 ''internal'' hs he (mutex_init heap_lock_update s))\<lparr>num_regions := 1\<rparr>"
  have s0: "0 < length (regions s0)" "r_start (regions s0 ! 0) = hs" "r_free_list (regions s0 ! 0) = NULL"
    "r_block_list (regions s0 ! 0) = NULL"
    using assms by (simp_all add: s0_def region_init_def mutex_init_def upd_region_def)
  have t: "task_table s0 = task_table s" "runnable_queue s0 = runnable_queue s" "sleep_queue s0 = sleep_queue s"
    "cpu0 s0 = cpu0 s" "tasks s0 = tasks s"
    by (simp_all add: s0_def region_init_def mutex_init_def upd_region_def)
  note K = same_kernelD [OF first_block_fields(9) [OF s0]]
  show "task_table (internal_setup hs he s) = task_table s" "runnable_queue (internal_setup hs he s) = runnable_queue s"
    "sleep_queue (internal_setup hs he s) = sleep_queue s" "cpu0 (internal_setup hs he s) = cpu0 s"
    "tasks (internal_setup hs he s) = tasks s"
    unfolding t [symmetric] internal_setup_def Let_def s0_def [symmetric] using K by simp_all
qed

lemma demo_heap_tables [simp]:
  "task_table demo_heap = replicate 64 NULL" "runnable_queue demo_heap = replicate 32 NULL"
  "sleep_queue demo_heap = NULL" "cpu0 demo_heap = cpu_state_zero" "tasks demo_heap = (\<lambda>_. task_zero)"
  using internal_setup_tables [of mstate_boot]
  by (simp_all add: demo_heap_def memory_init_parts mstate_boot_def kstate_boot_def kstate.defs mstate.defs)

lemma demo_alloc_tid: "alloc_tid demo_heap = 1"
  using first_free_spec [of 64 "replicate 64 NULL"] by (auto simp: alloc_tid_def)

lemma demo_task_create:
  "\<exists>s'. task_create sw 0x500 e pr demo_heap = Some (0x3FC90014, s')"
  "\<exists>s'. task_create_user sw e pr 0 demo_heap = Some (0x3FC90014, s')"
proof -
  obtain s1 where s1: "kzalloc_task sw demo_heap = Some (0x3FC90014, s1)" "bump 0 0x3FC9004C s1"
     "hb_size s1 0x3FC9004C = 0xFFA0" "lock_idle s1" "num_regions s1 = 1"
    using demo_task_alloc by blast
  have "alloc_tid s1 = 1" using kzalloc_task_kernel(9) [OF demo_heap_bump(4) s1(1)] demo_alloc_tid by simp
  then show "\<exists>s'. task_create sw 0x500 e pr demo_heap = Some (0x3FC90014, s')"
    "\<exists>s'. task_create_user sw e pr 0 demo_heap = Some (0x3FC90014, s')"
    using s1 by (simp_all add: task_create_def task_create_user_def Let_def demo_stack_alloc)
qed

lemma demo_sched_rel: "sched_rel (\<lambda>_. []) [] demo_heap"
  by (simp add: sched_rel_def unqueued_def)

theorem task_create_registers_witness:
  "\<exists>s'. task_create (\<lambda>_ _. Some) 0x500 0x400 7 demo_heap = Some (0x3FC90014, s')
     \<and> t_priority (tasks s' 0x3FC90014) = 7 \<and> p_tasks (procs s' 0x500) = 0x3FC90014"
proof -
  obtain s' where s': "task_create (\<lambda>_ _. Some) 0x500 0x400 7 demo_heap = Some (0x3FC90014, s')"
    using demo_task_create(1) by blast
  then show ?thesis using task_create_registers [OF demo_heap_bump(4) _ s'] by auto
qed


theorem task_create_user_reuses_tid_witness:
  "\<exists>s'. task_create_user (\<lambda>_ _. Some) 0x400 7 0 demo_heap = Some (0x3FC90014, s')
     \<and> t_tid (tasks s' 0x3FC90014) = 1 \<and> alloc_tid s' = 1"
proof -
  obtain s' where s': "task_create_user (\<lambda>_ _. Some) 0x400 7 0 demo_heap = Some (0x3FC90014, s')"
    using demo_task_create(2) by blast
  then show ?thesis
    using task_create_user_reuses_tid [OF demo_heap_bump(4) s'] by (auto simp: demo_alloc_tid)
qed

end
