(* ===== verification/Files.thy ===== *)
theory Files
  imports Device Process
begin

text \<open>
  The objects the file-system layers share: open files, mounted file systems, the open-file table
  (\<^verbatim>\<open>file_alloc\<close>, \<^verbatim>\<open>file_free\<close>, \<^verbatim>\<open>vfs_register_fs\<close>, \<^verbatim>\<open>vfs_unregister_fs\<close> of \<^verbatim>\<open>fs/vfs/vfs.c\<close>) and path
  normalisation (\<^verbatim>\<open>path_normalize\<close>).

  C strings that the file-system code passes around are lists of non-zero bytes; a fixed-size \<^verbatim>\<open>char\<close>
  array is the list of all its bytes, \<open>arr_str\<close> the string it holds.  A \<^verbatim>\<open>struct file *\<close> is a
  \<open>file_ref\<close>: a slot of \<^verbatim>\<open>open_files\<close> or an object from \<^verbatim>\<open>kzalloc\<close>.  The tables of function pointers
  are named by \<open>fops\<close>, the \<^verbatim>\<open>void *private_data\<close> by \<open>priv\<close>.
\<close>

section \<open>Strings in arrays\<close>

definition arr_str :: "u8 list \<Rightarrow> u8 list" where
  "arr_str xs = takeWhile (\<lambda>b. b \<noteq> 0) xs"

text \<open>\<^verbatim>\<open>strncpy(dst, src, n)\<close> on an array, with the bytes that the routine of the library stores.\<close>

definition arr_strncpy :: "u8 list \<Rightarrow> u8 list \<Rightarrow> nat \<Rightarrow> u8 list" where
  "arr_strncpy dst src n = strncpy_bytes src n @ drop (length (strncpy_bytes src n)) dst"

definition arr_zero :: "nat \<Rightarrow> u8 list" where
  "arr_zero n = replicate n 0"

text \<open>The steps of the path loops: skip slashes, the component, what follows it.\<close>

abbreviation (input) SLASH :: u8 where "SLASH \<equiv> 47"

definition skip_slashes :: "u8 list \<Rightarrow> u8 list" where
  "skip_slashes p = dropWhile (\<lambda>b. b = SLASH) p"

definition comp_of :: "u8 list \<Rightarrow> u8 list" where
  "comp_of p = takeWhile (\<lambda>b. b \<noteq> SLASH) p"

definition comp_end :: "u8 list \<Rightarrow> u8 list" where
  "comp_end p = dropWhile (\<lambda>b. b \<noteq> SLASH) p"


section \<open>Objects\<close>

datatype fops = RamfsFops | DevfsFops | FlashfsFops | NullFops | ZeroFops | RandomFops | UartFops
  | PipeReadFops | PipeWriteFops | SockFops

datatype priv = PNull | PRamSb | PRamNode u32 | PPipe u32 | PSock u32

record file_obj =
  f_fops :: "fops option"
  f_private :: priv
  f_offset :: u32
  f_flags :: u32
  f_ref_count :: int
  f_path :: "u8 list"

definition file_zero :: file_obj where
  "file_zero = \<lparr>f_fops = None, f_private = PNull, f_offset = 0, f_flags = 0, f_ref_count = 0,
     f_path = arr_zero 256\<rparr>"

record superblock =
  sb_fops :: fops
  sb_private :: priv
  sb_root :: u32

record mount =
  mnt_sb :: u32
  mnt_point :: "u8 list"
  mnt_flags :: int

definition mount_zero :: mount where
  "mount_zero = \<lparr>mnt_sb = NULL, mnt_point = arr_zero 256, mnt_flags = 0\<rparr>"

text \<open>\<^verbatim>\<open>struct stat\<close> and \<^verbatim>\<open>struct dirent\<close>, the out-parameters.\<close>

record stat =
  st_mode :: u32
  st_size :: u32
  st_atime :: u32
  st_mtime :: u32
  st_ctime :: u32

definition stat_zero :: stat where
  "stat_zero = \<lparr>st_mode = 0, st_size = 0, st_atime = 0, st_mtime = 0, st_ctime = 0\<rparr>"

record dirent =
  d_ino :: u32
  d_type :: u8
  d_name :: "u8 list"

abbreviation (input) MAX_MOUNTS :: nat where "MAX_MOUNTS \<equiv> 16"
abbreviation (input) MAX_OPEN_FILES :: nat where "MAX_OPEN_FILES \<equiv> 128"
abbreviation (input) PATH_MAX :: nat where "PATH_MAX \<equiv> 256"
abbreviation (input) O_RDONLY :: u32 where "O_RDONLY \<equiv> 0"
abbreviation (input) O_WRONLY :: u32 where "O_WRONLY \<equiv> 1"
abbreviation (input) O_CREAT :: u32 where "O_CREAT \<equiv> 0x40"
abbreviation (input) O_TRUNC :: u32 where "O_TRUNC \<equiv> 0x200"
abbreviation (input) O_APPEND :: u32 where "O_APPEND \<equiv> 0x400"
abbreviation (input) O_DIRECTORY :: u32 where "O_DIRECTORY \<equiv> 0x10000"
abbreviation (input) SEEK_SET :: int where "SEEK_SET \<equiv> 0"
abbreviation (input) SEEK_CUR :: int where "SEEK_CUR \<equiv> 1"
abbreviation (input) SEEK_END :: int where "SEEK_END \<equiv> 2"
abbreviation (input) S_IFMT :: u32 where "S_IFMT \<equiv> 0xF000"
abbreviation (input) S_IFREG :: u32 where "S_IFREG \<equiv> 0x8000"
abbreviation (input) S_IFDIR :: u32 where "S_IFDIR \<equiv> 0x4000"
abbreviation (input) S_IFCHR :: u32 where "S_IFCHR \<equiv> 0x2000"

definition S_ISDIR :: "u32 \<Rightarrow> bool" where
  "S_ISDIR mode \<longleftrightarrow> mode AND S_IFMT = S_IFDIR"

record file_state = dstate +
  mounts :: "mount list"
  mount_count :: int
  open_files :: "file_obj list"
  cwd_buf :: "u8 list"
  superblocks :: "u32 \<Rightarrow> superblock"
  heap_files :: "u32 \<Rightarrow> file_obj"

text \<open>A dereference of a file pointer; a null pointer has no object.\<close>

fun get_file_obj :: "file_ref \<Rightarrow> 'a file_state_scheme \<Rightarrow> file_obj option" where
  "get_file_obj FNull s = None"
| "get_file_obj (OpenFile i) s = (if i < length (open_files s) then Some (open_files s ! i) else None)"
| "get_file_obj (HeapFile a) s = Some (heap_files s a)"

fun upd_file :: "file_ref \<Rightarrow> (file_obj \<Rightarrow> file_obj) \<Rightarrow> 'a file_state_scheme \<Rightarrow> 'a file_state_scheme" where
  "upd_file FNull f s = s"
| "upd_file (OpenFile i) f s = s\<lparr>open_files := (open_files s)[i := f (open_files s ! i)]\<rparr>"
| "upd_file (HeapFile a) f s = s\<lparr>heap_files := (heap_files s)(a := f (heap_files s a))\<rparr>"


section \<open>The open-file table\<close>

fun free_slot :: "nat \<Rightarrow> file_obj list \<Rightarrow> nat option" where
  "free_slot i [] = None"
| "free_slot i (f # fs) = (if f_ref_count f = 0 then Some i else free_slot (Suc i) fs)"

definition file_alloc :: "'a file_state_scheme \<Rightarrow> file_ref \<times> 'a file_state_scheme" where
  "file_alloc s =
     (case free_slot 0 (open_files s) of
        None \<Rightarrow> (FNull, s)
      | Some i \<Rightarrow> (OpenFile i, upd_file (OpenFile i) (\<lambda>f. f\<lparr>f_ref_count := 1, f_offset := 0, f_flags := 0,
                      f_fops := None, f_private := PNull, f_path := (f_path f)[0 := 0]\<rparr>) s))"

definition file_free :: "file_ref \<Rightarrow> 'a file_state_scheme \<Rightarrow> 'a file_state_scheme" where
  "file_free r s =
     (if r \<noteq> FNull
      then upd_file r (\<lambda>f. f\<lparr>f_ref_count := 0, f_fops := None, f_private := PNull, f_offset := 0,
             f_flags := 0, f_path := (f_path f)[0 := 0]\<rparr>) s
      else s)"


section \<open>Mounting\<close>

definition vfs_register_fs ::
  "('a file_state_ext dstate_ext) switch \<Rightarrow> u8 list \<Rightarrow> fops \<Rightarrow> priv \<Rightarrow> 'a file_state_scheme \<Rightarrow>
   (int \<times> 'a file_state_scheme) option" where
  "vfs_register_fs sw mountpoint fo data s =
     (if mount_count s \<ge> int MAX_MOUNTS then Some (-1, s)
      else do {
        let i = nat (mount_count s);
        let s = s\<lparr>mount_count := mount_count s + 1\<rparr>;
        (sb, s) \<leftarrow> kmalloc sw 16 s;
        let s = s\<lparr>mounts := (mounts s)[i := (mounts s ! i)\<lparr>mnt_sb := sb\<rparr>]\<rparr>;
        if sb = NULL then Some (-1, s)
        else do {
          let s = s\<lparr>superblocks := (superblocks s)(sb := \<lparr>sb_fops = fo, sb_private = data, sb_root = NULL\<rparr>)\<rparr>;
          Some (0, s\<lparr>mounts := (mounts s)[i := (mounts s ! i)
                    \<lparr>mnt_point := arr_strncpy (mnt_point (mounts s ! i)) mountpoint (PATH_MAX - 1)\<rparr>]\<rparr>) } })"

fun find_mount :: "nat \<Rightarrow> nat \<Rightarrow> u8 list \<Rightarrow> mount list \<Rightarrow> nat option" where
  "find_mount i 0 mp ms = None"
| "find_mount i (Suc n) mp ms = (if arr_str (mnt_point (ms ! i)) = mp then Some i else find_mount (Suc i) n mp ms)"

fun shift_mounts :: "nat \<Rightarrow> nat \<Rightarrow> mount list \<Rightarrow> mount list" where
  "shift_mounts j 0 ms = ms"
| "shift_mounts j (Suc n) ms = shift_mounts (Suc j) n (ms[j := ms ! Suc j])"

definition vfs_unregister_fs ::
  "('a file_state_ext dstate_ext) switch \<Rightarrow> u8 list \<Rightarrow> 'a file_state_scheme \<Rightarrow> (int \<times> 'a file_state_scheme) option" where
  "vfs_unregister_fs sw mountpoint s =
     (case find_mount 0 (nat (mount_count s)) mountpoint (mounts s) of
        None \<Rightarrow> Some (-1, s)
      | Some i \<Rightarrow> do {
          s \<leftarrow> (if mnt_sb (mounts s ! i) \<noteq> NULL then kfree sw (mnt_sb (mounts s ! i)) s else Some s);
          let s = s\<lparr>mounts := shift_mounts i (nat (mount_count s - 1) - i) (mounts s)\<rparr>;
          Some (0, s\<lparr>mount_count := mount_count s - 1\<rparr>) })"


section \<open>Path normalisation\<close>

text \<open>The bytes of \<^verbatim>\<open>out\<close> before \<^verbatim>\<open>out_p\<close> are the list \<open>acc\<close>; stepping back over a component removes
  bytes from its end.  \<open>cur\<close> is the byte at \<^verbatim>\<open>out_p\<close>.\<close>

function step_back :: "u8 list \<Rightarrow> u8 \<Rightarrow> u8 list" where
  "step_back acc cur = (if acc \<noteq> [] \<and> cur \<noteq> SLASH then step_back (butlast acc) (last acc) else acc)"
  by pat_completeness auto

termination step_back
  by (relation "measure (\<lambda>(acc, cur). length acc)") (auto simp: length_greater_0_conv)

declare step_back.simps [simp del]

function norm_loop :: "u8 list \<Rightarrow> u8 list \<Rightarrow> nat \<Rightarrow> u8 list option" where
  "norm_loop p acc remaining =
     (if p \<noteq> [] \<and> remaining > 1
      then let p = skip_slashes p
           in if p = [] then Some acc
              else let comp = comp_of p; e = comp_end p; len = length comp
                   in if comp = [46] then norm_loop e acc remaining
                      else if comp = [46, 46]
                      then norm_loop e (if length acc > 1 then step_back (butlast acc) (last acc) else acc) remaining
                      else if len + 1 \<ge> remaining then None
                      else norm_loop e (acc @ SLASH # comp) (remaining - (len + 1))
      else Some acc)"
  by pat_completeness auto

lemma length_comp_end:
  assumes "skip_slashes p \<noteq> []" shows "length (comp_end (skip_slashes p)) < length p"
proof -
  obtain x xs where x: "skip_slashes p = x # xs" using assms by (cases "skip_slashes p") auto
  then have "x \<noteq> SLASH" by (metis (mono_tags, lifting) hd_dropWhile list.distinct(1) list.sel(1) skip_slashes_def)
  then have "comp_end (skip_slashes p) = comp_end xs" using x by (simp add: comp_end_def)
  moreover have "length (comp_end xs) \<le> length xs" by (simp add: comp_end_def length_dropWhile_le)
  moreover have "length (skip_slashes p) \<le> length p" by (simp add: skip_slashes_def length_dropWhile_le)
  ultimately show ?thesis using x by simp
qed

termination norm_loop
  by (relation "measure (\<lambda>(p, acc, remaining). length p)") (auto simp: length_comp_end)

declare norm_loop.simps [simp del]

text \<open>\<open>None\<close> is the result \<^verbatim>\<open>-1\<close>; a path argument \<open>None\<close> is the null pointer.\<close>

definition path_normalize :: "u8 list \<Rightarrow> u8 list option \<Rightarrow> nat \<Rightarrow> u8 list option" where
  "path_normalize cwd path out_size =
     (case path of None \<Rightarrow> None
      | Some p \<Rightarrow>
          if out_size = 0 then None
          else if (p = [] \<or> hd p \<noteq> SLASH) \<and> length cwd + 1 \<ge> out_size then None
          else let acc = (if p = [] \<or> hd p \<noteq> SLASH then cwd @ [SLASH] else []);
                   remaining = out_size - length acc
               in map_option (\<lambda>acc. if acc = [] then [SLASH] else acc) (norm_loop p acc remaining))"

section \<open>Normalised paths\<close>

text \<open>The reference: split at the slashes, drop the empty components and the dots, let two dots remove the
  component before them, and join the rest.\<close>

fun split_path :: "u8 list \<Rightarrow> u8 list \<Rightarrow> u8 list list" where
  "split_path cur [] = [cur]"
| "split_path cur (x # xs) = (if x = SLASH then cur # split_path [] xs else split_path (cur @ [x]) xs)"

definition path_comps :: "u8 list \<Rightarrow> u8 list list" where
  "path_comps p = filter (\<lambda>c. c \<noteq> []) (split_path [] p)"

fun walk_comps :: "u8 list list \<Rightarrow> u8 list list \<Rightarrow> u8 list list" where
  "walk_comps st [] = st"
| "walk_comps st (c # cs) =
     walk_comps (if c = [46] then st else if c = [46, 46] then butlast st else st @ [c]) cs"

definition join_path :: "u8 list list \<Rightarrow> u8 list" where
  "join_path st = concat (map (\<lambda>c. SLASH # c) st)"

definition canon :: "u8 list \<Rightarrow> u8 list" where
  "canon p = (let st = walk_comps [] (path_comps p) in if st = [] then [SLASH] else join_path st)"

definition comp_ok :: "u8 list \<Rightarrow> bool" where
  "comp_ok c \<longleftrightarrow> c \<noteq> [] \<and> SLASH \<notin> set c"

lemma split_path_acc: "split_path cur p = (cur @ comp_of p) # (case comp_end p of [] \<Rightarrow> [] | x # xs \<Rightarrow> split_path [] xs)"
  by (induction cur p rule: split_path.induct) (auto simp: comp_of_def comp_end_def)

lemma path_comps_skip: "path_comps p = path_comps (skip_slashes p)"
  by (induction p) (auto simp: path_comps_def skip_slashes_def)

lemma comp_of_skip: "skip_slashes p \<noteq> [] \<Longrightarrow> comp_ok (comp_of (skip_slashes p))"
  using hd_dropWhile [of "\<lambda>b. b = SLASH" p]
  by (cases "skip_slashes p") (auto simp: skip_slashes_def comp_of_def comp_ok_def dest: set_takeWhileD)

lemma comp_end_cons: "comp_end p = x # xs \<Longrightarrow> x = SLASH"
  using hd_dropWhile [of "\<lambda>b. b \<noteq> SLASH" p] by (auto simp: comp_end_def)

lemma path_comps_step:
  assumes "skip_slashes p \<noteq> []"
  shows "path_comps p = comp_of (skip_slashes p) # path_comps (comp_end (skip_slashes p))"
proof -
  let ?q = "skip_slashes p"
  have "comp_of ?q \<noteq> []" using comp_of_skip [OF assms] by (simp add: comp_ok_def)
  moreover have "path_comps (comp_end ?q) = (case comp_end ?q of [] \<Rightarrow> [] | x # xs \<Rightarrow> path_comps xs)"
    using comp_end_cons [of ?q] by (auto simp: path_comps_def split: list.split)
  ultimately show ?thesis unfolding path_comps_skip [of p] unfolding path_comps_def
    using split_path_acc [of "[]" ?q] by (auto simp: path_comps_def split: list.split)
qed

lemma path_comps_nil: "skip_slashes p = [] \<Longrightarrow> path_comps p = []"
  using path_comps_skip [of p] by (simp add: path_comps_def)

lemma step_back_slash: "step_back (xs @ [SLASH]) c = (if c = SLASH then xs @ [SLASH] else xs)"
  by (subst step_back.simps) (simp add: step_back.simps [of xs SLASH])

lemma step_back_comp:
  assumes "SLASH \<notin> set c" "y \<noteq> SLASH"
  shows "step_back (xs @ SLASH # c) y = xs"
  using assms
proof (induction c arbitrary: y rule: rev_induct)
  case Nil
  then show ?case by (simp add: step_back_slash)
next
  case (snoc z c)
  then show ?case by (subst step_back.simps) (simp add: butlast_append)
qed

lemma step_back_join:
  assumes "comp_ok c"
  shows "step_back (butlast (join_path st @ SLASH # c)) (last (join_path st @ SLASH # c)) = join_path st"
proof -
  obtain c' y where c: "c = c' @ [y]" using assms by (cases c rule: rev_cases) (auto simp: comp_ok_def)
  then show ?thesis using assms step_back_comp [of c' y "join_path st"] by (simp add: comp_ok_def butlast_append)
qed

lemma norm_loop_canon:
  assumes "list_all comp_ok st" "length p + 1 < rem" "p = [] \<or> hd p = SLASH"
  shows "norm_loop p (join_path st) rem = Some (join_path (walk_comps st (path_comps p)))"
  using assms
proof (induction "length p" arbitrary: p st rem rule: less_induct)
  case less
  let ?q = "skip_slashes p"
  show ?case
  proof (cases "?q = []")
    case True
    then show ?thesis using less.prems path_comps_nil [OF True] by (subst norm_loop.simps) (simp add: Let_def)
  next
    case False
    let ?c = "comp_of ?q" and ?e = "comp_end ?q"
    have p: "p \<noteq> []" using False by (auto simp: skip_slashes_def)
    have le: "length ?e < length p" by (rule length_comp_end [OF False])
    have ok: "comp_ok ?c" by (rule comp_of_skip [OF False])
    have hde: "?e = [] \<or> hd ?e = SLASH" using comp_end_cons [of ?q] by (cases ?e) auto
    have lq: "length ?c + length ?e + 1 \<le> length p"
    proof -
      have "?c @ ?e = ?q" by (simp add: comp_of_def comp_end_def)
      then have "length ?c + length ?e = length ?q" by (metis length_append)
      moreover have "length ?q < length p" using p less.prems(3)
        by (cases p) (auto simp: skip_slashes_def less_Suc_eq_le length_dropWhile_le)
      ultimately show ?thesis by simp
    qed
    note IH = less.hyps [OF le]
    have bk: "(if length (join_path st) > 1 then step_back (butlast (join_path st)) (last (join_path st)) else join_path st)
       = join_path (butlast st)"
    proof (cases st rule: rev_cases)
      case (snoc st' c)
      then have "comp_ok c" using less.prems(1) by simp
      then show ?thesis using snoc step_back_join [of c st'] by (simp add: join_path_def comp_ok_def)
    qed (simp add: join_path_def)
    have bl: "list_all comp_ok (butlast st)" using less.prems(1) by (auto simp: list_all_iff dest: in_set_butlastD)
    have "norm_loop p (join_path st) rem =
      (if ?c = [46] then norm_loop ?e (join_path st) rem
       else if ?c = [46, 46] then norm_loop ?e (join_path (butlast st)) rem
       else norm_loop ?e (join_path st @ SLASH # ?c) (rem - (length ?c + 1)))"
      using p less.prems(2) lq False unfolding bk [symmetric] by (subst norm_loop.simps) (auto simp: Let_def)
    moreover have "join_path st @ SLASH # ?c = join_path (st @ [?c])" by (simp add: join_path_def)
    ultimately show ?thesis
      using IH [of st rem] IH [of "butlast st" rem] IH [of "st @ [?c]" "rem - (length ?c + 1)"] less.prems lq bl ok hde
      unfolding path_comps_step [OF False] by simp
  qed
qed

lemma path_normalize_abs:
  assumes "path \<noteq> []" "hd path = SLASH" "length path \<le> 254"
  shows "path_normalize cwd (Some path) 256 = Some (canon path)"
proof -
  have "norm_loop path (join_path []) 256 = Some (join_path (walk_comps [] (path_comps path)))"
    by (rule norm_loop_canon) (use assms in simp_all)
  moreover have "join_path st = [] \<longleftrightarrow> st = []" for st by (simp add: join_path_def)
  ultimately show ?thesis using assms(1,2)
    by (simp add: path_normalize_def canon_def Let_def join_path_def)
qed



lemma path_comps_ok: "list_all comp_ok (path_comps p)"
proof (induction "length p" arbitrary: p rule: less_induct)
  case less
  show ?case
  proof (cases "skip_slashes p = []")
    case True then show ?thesis by (simp add: path_comps_nil)
  next
    case False
    then show ?thesis using path_comps_step [OF False] comp_of_skip [OF False] less [OF length_comp_end [OF False]] by simp
  qed
qed

lemma list_all_butlast: "list_all P xs \<Longrightarrow> list_all P (butlast xs)"
  by (auto simp: list_all_iff dest: in_set_butlastD)

lemma walk_comps_ok: "list_all comp_ok st \<Longrightarrow> list_all comp_ok cs \<Longrightarrow> list_all comp_ok (walk_comps st cs)"
  by (induction cs arbitrary: st) (simp_all add: list_all_butlast)

lemma canon_shape: "\<exists>rest. canon p = SLASH # rest \<and> (rest = [] \<or> hd rest \<noteq> SLASH)"
proof -
  define st where "st = walk_comps [] (path_comps p)"
  have ok: "list_all comp_ok st" unfolding st_def by (rule walk_comps_ok) (simp_all add: path_comps_ok)
  have "canon p = (if st = [] then [SLASH] else join_path st)" by (simp add: canon_def st_def)
  then show ?thesis using ok
    by (cases st) (auto simp: join_path_def comp_ok_def hd_append dest: hd_in_set)
qed

end
