(* ===== verification/Ramfs.thy ===== *)
theory Ramfs
  imports Files
begin

text \<open>
  The in-memory file system, \<^verbatim>\<open>fs/ramfs/ramfs.c\<close>.  The node table \<^verbatim>\<open>ramfs_nodes\<close> is a store indexed by
  node pointers: the pointer to \<^verbatim>\<open>ramfs_nodes[i]\<close> is the number \<open>i + 1\<close>, the null pointer is \<open>0\<close>.  File
  contents live in the byte memory, in the array \<^verbatim>\<open>ramfs_data_pool\<close> whose address \<open>pool\<close> is chosen by the
  linker and is a parameter.  A read of an uninitialised buffer and a dereference of a null pointer
  have no result.
\<close>

unbundle bit_operations_syntax

declare Option.bind_cong [fundef_cong]

abbreviation (input) RAMFS_MAX_FILES :: u32 where "RAMFS_MAX_FILES \<equiv> 64"
abbreviation (input) RAMFS_MAX_DATA :: u32 where "RAMFS_MAX_DATA \<equiv> 8192"
abbreviation (input) DT_DIR :: u8 where "DT_DIR \<equiv> 4"
abbreviation (input) DT_REG :: u8 where "DT_REG \<equiv> 8"
abbreviation (input) DT_CHR :: u8 where "DT_CHR \<equiv> 2"

record ramfs_node =
  n_name :: "u8 list"
  n_mode :: u32
  n_size :: u32
  n_data :: u32
  n_parent :: u32
  n_children :: u32
  n_next :: u32
  n_prev :: u32
  n_atime :: u32
  n_mtime :: u32
  n_ctime :: u32

definition ramfs_node_zero :: ramfs_node where
  "ramfs_node_zero = \<lparr>n_name = arr_zero 256, n_mode = 0, n_size = 0, n_data = NULL, n_parent = NULL,
     n_children = NULL, n_next = NULL, n_prev = NULL, n_atime = 0, n_mtime = 0, n_ctime = 0\<rparr>"

record ramfs_state = file_state +
  ramfs_nodes :: "u32 \<Rightarrow> ramfs_node"
  ramfs_node_count :: u32
  ramfs_data_used :: u32
  sb_root_node :: u32
  sb_file_count :: u32
  sb_total_size :: u32

definition upd_node :: "u32 \<Rightarrow> (ramfs_node \<Rightarrow> ramfs_node) \<Rightarrow> 'a ramfs_state_scheme \<Rightarrow> 'a ramfs_state_scheme" where
  "upd_node p f s = s\<lparr>ramfs_nodes := (ramfs_nodes s)(p := f (ramfs_nodes s p))\<rparr>"

text \<open>The link fields and the statements that write them.\<close>

definition nnext :: "'a ramfs_state_scheme \<Rightarrow> u32 \<Rightarrow> u32" where "nnext s p = n_next (ramfs_nodes s p)"
definition nprev :: "'a ramfs_state_scheme \<Rightarrow> u32 \<Rightarrow> u32" where "nprev s p = n_prev (ramfs_nodes s p)"
definition set_nnext :: "u32 \<Rightarrow> u32 \<Rightarrow> 'a ramfs_state_scheme \<Rightarrow> 'a ramfs_state_scheme" where
  "set_nnext p v s = upd_node p (\<lambda>n. n\<lparr>n_next := v\<rparr>) s"
definition set_nprev :: "u32 \<Rightarrow> u32 \<Rightarrow> 'a ramfs_state_scheme \<Rightarrow> 'a ramfs_state_scheme" where
  "set_nprev p v s = upd_node p (\<lambda>n. n\<lparr>n_prev := v\<rparr>) s"


section \<open>Nodes\<close>

definition ramfs_alloc_node :: "'a ramfs_state_scheme \<Rightarrow> u32 \<times> 'a ramfs_state_scheme" where
  "ramfs_alloc_node s =
     (if ramfs_node_count s \<ge> RAMFS_MAX_FILES then (NULL, s)
      else let p = ramfs_node_count s + 1;
               s = s\<lparr>ramfs_node_count := ramfs_node_count s + 1\<rparr>
           in (p, upd_node p (\<lambda>_. ramfs_node_zero) s))"

definition ramfs_free_node :: "u32 \<Rightarrow> 'a ramfs_state_scheme \<Rightarrow> 'a ramfs_state_scheme" where
  "ramfs_free_node p s =
     (let s = (if n_data (ramfs_nodes s p) \<noteq> NULL
               then upd_node p (\<lambda>n. n\<lparr>n_data := NULL\<rparr>)
                      (s\<lparr>ramfs_data_used := ramfs_data_used s - n_size (ramfs_nodes s p)\<rparr>)
               else s);
          s = unlink_node nnext nprev set_nnext set_nprev p s;
          d = n_parent (ramfs_nodes s p);
          s = (if d \<noteq> NULL \<and> n_children (ramfs_nodes s d) = p
               then upd_node d (\<lambda>m. m\<lparr>n_children := n_next (ramfs_nodes s p)\<rparr>) s else s)
      in upd_node p (\<lambda>n. n\<lparr>n_parent := NULL, n_children := NULL, n_next := NULL, n_prev := NULL\<rparr>) s)"

partial_function (option) find_child_loop :: "u32 \<Rightarrow> u8 list \<Rightarrow> 'a ramfs_state_scheme \<Rightarrow> u32 option" where
  "find_child_loop child name s =
     (if child = NULL then Some NULL
      else if arr_str (n_name (ramfs_nodes s child)) = name then Some child
      else find_child_loop (n_next (ramfs_nodes s child)) name s)"

definition ramfs_find_child :: "u32 \<Rightarrow> u8 list \<Rightarrow> 'a ramfs_state_scheme \<Rightarrow> u32 option" where
  "ramfs_find_child parent name s =
     (if parent = NULL then None else find_child_loop (n_children (ramfs_nodes s parent)) name s)"

text \<open>The component copied into \<^verbatim>\<open>char name[256]\<close>, as a string.\<close>

definition comp_name :: "u8 list \<Rightarrow> u8 list" where
  "comp_name p = take (if length (comp_of p) \<ge> 256 then 255 else length (comp_of p)) (comp_of p)"

definition next_comp :: "u8 list \<Rightarrow> u8 list" where
  "next_comp p = skip_slashes (comp_end p)"

lemma length_next_comp: "comp_of p \<noteq> [] \<Longrightarrow> length (next_comp p) < length p"
  by (cases p) (auto simp: next_comp_def skip_slashes_def comp_end_def comp_of_def less_Suc_eq_le
      intro: le_trans [OF length_dropWhile_le] length_dropWhile_le split: if_splits)

text \<open>Linking a new node in front of the children of \<open>dir\<close>.\<close>

definition link_child :: "u32 \<Rightarrow> u32 \<Rightarrow> u8 list \<Rightarrow> u32 \<Rightarrow> 'a ramfs_state_scheme \<Rightarrow> 'a ramfs_state_scheme" where
  "link_child dir p name mode s =
     (let s = upd_node p (\<lambda>n. n\<lparr>n_name := arr_strncpy (n_name n) name 255\<rparr>) s;
          s = upd_node p (\<lambda>n. n\<lparr>n_mode := mode\<rparr>) s;
          s = upd_node p (\<lambda>n. n\<lparr>n_parent := dir\<rparr>) s;
          s = upd_node p (\<lambda>n. n\<lparr>n_next := n_children (ramfs_nodes s dir)\<rparr>) s;
          h = n_children (ramfs_nodes s dir);
          s = (if h \<noteq> NULL then upd_node h (\<lambda>n. n\<lparr>n_prev := p\<rparr>) s else s)
      in upd_node dir (\<lambda>n. n\<lparr>n_children := p\<rparr>) s)"


section \<open>Opening\<close>

text \<open>The walk of \<^verbatim>\<open>ramfs_open\<close>; the inner \<open>None\<close> is the result \<^verbatim>\<open>-1\<close>.\<close>

function open_walk ::
  "u32 \<Rightarrow> u8 list \<Rightarrow> u32 \<Rightarrow> u32 \<Rightarrow> 'a ramfs_state_scheme \<Rightarrow> (u32 option \<times> 'a ramfs_state_scheme) option" where
  "open_walk node p flags root s =
     (if p = [] \<or> comp_of p = [] then Some (Some node, s)
      else do {
        let name = comp_name p;
        node \<leftarrow> ramfs_find_child node name s;
        if node = NULL
        then if flags AND O_CREAT \<noteq> 0
             then let (new, s) = ramfs_alloc_node s
                  in if new = NULL then Some (None, s)
                     else if root = NULL then None
                     else open_walk new (next_comp p) flags root (link_child root new name (S_IFREG OR 0x1A4) s)
             else Some (None, s)
        else open_walk node (next_comp p) flags root s })"
  by pat_completeness auto

termination open_walk
  by (relation "measure (\<lambda>(node, p, flags, root, s). length p)") (auto simp: length_next_comp)

declare open_walk.simps [simp del]

text \<open>The superblock is \<^verbatim>\<open>file->private_data\<close> or, when that is null, \<^verbatim>\<open>ramfs_superblock\<close>; there is only this
  one superblock.\<close>

definition ramfs_sb_root :: "file_ref \<Rightarrow> 'a ramfs_state_scheme \<Rightarrow> u32 option" where
  "ramfs_sb_root r s = do {
     f \<leftarrow> get_file_obj r s;
     if f_private f = PNull \<or> f_private f = PRamSb then Some (sb_root_node s) else None }"

definition ramfs_open :: "file_ref \<Rightarrow> u8 list \<Rightarrow> u32 \<Rightarrow> 'a ramfs_state_scheme \<Rightarrow> (int \<times> 'a ramfs_state_scheme) option" where
  "ramfs_open r path flags s = do {
     root \<leftarrow> ramfs_sb_root r s;
     (res, s) \<leftarrow> open_walk root (skip_slashes path) flags root s;
     case res of None \<Rightarrow> Some (-1, s)
     | Some node \<Rightarrow> Some (0, upd_file r (\<lambda>f. f\<lparr>f_private := (if node = NULL then PNull else PRamNode node)\<rparr>) s) }"

definition ramfs_close :: "file_ref \<Rightarrow> 'a ramfs_state_scheme \<Rightarrow> (int \<times> 'a ramfs_state_scheme) option" where
  "ramfs_close r s = Some (0, s)"

text \<open>\<^verbatim>\<open>(struct ramfs_node *)file->private_data\<close>.\<close>

definition file_node :: "file_ref \<Rightarrow> 'a ramfs_state_scheme \<Rightarrow> u32 option" where
  "file_node r s = do {
     f \<leftarrow> get_file_obj r s;
     case f_private f of PNull \<Rightarrow> Some NULL | PRamNode n \<Rightarrow> Some n | _ \<Rightarrow> None }"


section \<open>Reading and writing\<close>

definition ramfs_read :: "file_ref \<Rightarrow> u32 \<Rightarrow> u32 \<Rightarrow> 'a ramfs_state_scheme \<Rightarrow> (int \<times> 'a ramfs_state_scheme) option" where
  "ramfs_read r buf count s = do {
     node \<leftarrow> file_node r s;
     f \<leftarrow> get_file_obj r s;
     let n = ramfs_nodes s node;
     if node = NULL \<or> n_data n = NULL then Some (0, s)
     else if f_offset f \<ge> n_size n then Some (0, s)
     else do {
       let to_read = (if f_offset f + count > n_size n then n_size n - f_offset f else count);
       let s = s\<lparr>mem := memcpy buf (n_data n + f_offset f) to_read (mem s)\<rparr>;
       let s = upd_file r (\<lambda>f. f\<lparr>f_offset := f_offset f + to_read\<rparr>) s;
       Some (sint to_read, s) } }"

text \<open>The data area for a write of \<open>count\<close> bytes at \<open>offset\<close>: the first two branches of \<^verbatim>\<open>ramfs_write\<close> and
  \<^verbatim>\<open>ramfs_pwrite\<close>; \<open>None\<close> is the result \<^verbatim>\<open>-1\<close>.\<close>

definition reserve_data :: "u32 \<Rightarrow> u32 \<Rightarrow> u32 \<Rightarrow> u32 \<Rightarrow> 'a ramfs_state_scheme \<Rightarrow> 'a ramfs_state_scheme option" where
  "reserve_data pool node offset count s =
     (let n = ramfs_nodes s node
      in if n_data n = NULL
         then if ramfs_data_used s + count > RAMFS_MAX_DATA then None
              else Some ((upd_node node (\<lambda>n. n\<lparr>n_data := pool + ramfs_data_used s\<rparr>) s)
                           \<lparr>ramfs_data_used := ramfs_data_used s + count\<rparr>)
         else if offset + count > n_size n
         then if ramfs_data_used s + count > RAMFS_MAX_DATA then None
              else let new_data = pool + ramfs_data_used s;
                       s = s\<lparr>mem := memcpy new_data (n_data n) (n_size n) (mem s)\<rparr>;
                       s = upd_node node (\<lambda>n. n\<lparr>n_data := new_data\<rparr>) s
                   in Some (s\<lparr>ramfs_data_used := ramfs_data_used s + count\<rparr>)
         else Some s)"

definition ramfs_write ::
  "u32 \<Rightarrow> file_ref \<Rightarrow> u32 \<Rightarrow> u32 \<Rightarrow> 'a ramfs_state_scheme \<Rightarrow> (int \<times> 'a ramfs_state_scheme) option" where
  "ramfs_write pool r buf count s = do {
     node \<leftarrow> file_node r s;
     f \<leftarrow> get_file_obj r s;
     if node = NULL then Some (-1, s)
     else case reserve_data pool node (f_offset f) count s of
       None \<Rightarrow> Some (-1, s)
     | Some s \<Rightarrow> do {
         let s = s\<lparr>mem := memcpy (n_data (ramfs_nodes s node) + f_offset f) buf count (mem s)\<rparr>;
         let off = f_offset f + count;
         let s = upd_file r (\<lambda>f. f\<lparr>f_offset := off\<rparr>) s;
         let s = (if off > n_size (ramfs_nodes s node) then upd_node node (\<lambda>n. n\<lparr>n_size := off\<rparr>) s else s);
         Some (sint count, s) } }"

definition ramfs_lseek :: "file_ref \<Rightarrow> u32 \<Rightarrow> int \<Rightarrow> 'a ramfs_state_scheme \<Rightarrow> (int \<times> 'a ramfs_state_scheme) option" where
  "ramfs_lseek r offset whence s = do {
     node \<leftarrow> file_node r s;
     f \<leftarrow> get_file_obj r s;
     if node = NULL then Some (-1, s)
     else if whence \<noteq> SEEK_SET \<and> whence \<noteq> SEEK_CUR \<and> whence \<noteq> SEEK_END then Some (-1, s)
     else do {
       let new_offset = (if whence = SEEK_SET then offset else if whence = SEEK_CUR then f_offset f + offset
                         else n_size (ramfs_nodes s node) + offset);
       if new_offset <s 0 then Some (-1, s)
       else Some (sint new_offset, upd_file r (\<lambda>f. f\<lparr>f_offset := new_offset\<rparr>) s) } }"

definition ramfs_pread ::
  "file_ref \<Rightarrow> u32 \<Rightarrow> u32 \<Rightarrow> u32 \<Rightarrow> 'a ramfs_state_scheme \<Rightarrow> (int \<times> 'a ramfs_state_scheme) option" where
  "ramfs_pread r buf count offset s = do {
     node \<leftarrow> file_node r s;
     let n = ramfs_nodes s node;
     if node = NULL \<or> n_data n = NULL then Some (0, s)
     else if offset \<ge> n_size n then Some (0, s)
     else do {
       let to_read = (if offset + count > n_size n then n_size n - offset else count);
       Some (sint to_read, s\<lparr>mem := memcpy buf (n_data n + offset) to_read (mem s)\<rparr>) } }"

definition ramfs_pwrite ::
  "u32 \<Rightarrow> file_ref \<Rightarrow> u32 \<Rightarrow> u32 \<Rightarrow> u32 \<Rightarrow> 'a ramfs_state_scheme \<Rightarrow> (int \<times> 'a ramfs_state_scheme) option" where
  "ramfs_pwrite pool r buf count offset s = do {
     node \<leftarrow> file_node r s;
     if node = NULL then Some (-1, s)
     else case reserve_data pool node offset count s of
       None \<Rightarrow> Some (-1, s)
     | Some s \<Rightarrow> do {
         let s = s\<lparr>mem := memcpy (n_data (ramfs_nodes s node) + offset) buf count (mem s)\<rparr>;
         let s = (if offset + count > n_size (ramfs_nodes s node)
                  then upd_node node (\<lambda>n. n\<lparr>n_size := offset + count\<rparr>) s else s);
         Some (sint count, s) } }"

definition ramfs_stat :: "file_ref \<Rightarrow> 'a ramfs_state_scheme \<Rightarrow> (int \<times> stat option) option" where
  "ramfs_stat r s = do {
     node \<leftarrow> file_node r s;
     if node = NULL then Some (-1, None)
     else let n = ramfs_nodes s node
          in Some (0, Some (stat_zero\<lparr>st_mode := n_mode n, st_size := n_size n, st_atime := n_atime n,
                              st_mtime := n_mtime n, st_ctime := n_ctime n\<rparr>)) }"


section \<open>Directories\<close>

text \<open>The loop of \<^verbatim>\<open>ramfs_readdir\<close> that climbs to a node with a sibling; the inner \<open>None\<close> is \<^verbatim>\<open>return 0\<close>.\<close>

partial_function (option) readdir_climb :: "u32 \<Rightarrow> u32 \<Rightarrow> 'a ramfs_state_scheme \<Rightarrow> u32 option option" where
  "readdir_climb iter node s =
     (if iter = NULL then Some None
      else if n_next (ramfs_nodes s iter) \<noteq> NULL then Some (Some (n_next (ramfs_nodes s iter)))
      else if iter = node then Some None
      else readdir_climb (n_parent (ramfs_nodes s iter)) node s)"

definition ramfs_readdir ::
  "file_ref \<Rightarrow> dirent \<Rightarrow> 'a ramfs_state_scheme \<Rightarrow> (int \<times> dirent \<times> 'a ramfs_state_scheme) option" where
  "ramfs_readdir r ent s = do {
     node \<leftarrow> file_node r s;
     if node = NULL then Some (0, ent, s)
     else do {
       nxt \<leftarrow> (if n_children (ramfs_nodes s node) \<noteq> NULL then Some (Some (n_children (ramfs_nodes s node)))
               else readdir_climb node node s);
       case nxt of None \<Rightarrow> Some (0, ent, s)
       | Some iter \<Rightarrow>
           Some (1, ent\<lparr>d_ino := 0, d_name := arr_strncpy (d_name ent) (arr_str (n_name (ramfs_nodes s iter))) 255,
                       d_type := (if n_mode (ramfs_nodes s iter) AND S_IFDIR \<noteq> 0 then DT_DIR else DT_REG)\<rparr>,
                 upd_file r (\<lambda>f. f\<lparr>f_private := PRamNode iter\<rparr>) s) } }"

text \<open>The walk of \<^verbatim>\<open>ramfs_mkdir\<close> creates missing components; the name of the last one stays in \<^verbatim>\<open>name\<close>,
  which is uninitialised (\<open>None\<close>) when the path has no component.\<close>

function mkdir_walk :: "u32 \<Rightarrow> u8 list \<Rightarrow> u8 list option \<Rightarrow> 'a ramfs_state_scheme \<Rightarrow>
    ((u32 \<times> u8 list option) option \<times> 'a ramfs_state_scheme) option" where
  "mkdir_walk node p name s =
     (if p = [] \<or> comp_of p = [] then Some (Some (node, name), s)
      else do {
        let name = comp_name p;
        child \<leftarrow> ramfs_find_child node name s;
        if child = NULL
        then let (new, s) = ramfs_alloc_node s
             in if new = NULL then Some (None, s)
                else mkdir_walk new (next_comp p) (Some name) (link_child node new name (S_IFDIR OR 0x1ED) s)
        else mkdir_walk child (next_comp p) (Some name) s })"
  by pat_completeness auto

termination mkdir_walk
  by (relation "measure (\<lambda>(node, p, name, s). length p)") (auto simp: length_next_comp)

declare mkdir_walk.simps [simp del]

definition ramfs_mkdir :: "file_ref \<Rightarrow> u8 list \<Rightarrow> u32 \<Rightarrow> 'a ramfs_state_scheme \<Rightarrow> (int \<times> 'a ramfs_state_scheme) option" where
  "ramfs_mkdir r path mode s = do {
     root \<leftarrow> ramfs_sb_root r s;
     (res, s) \<leftarrow> mkdir_walk root (skip_slashes path) None s;
     case res of None \<Rightarrow> Some (-1, s)
     | Some (node, name) \<Rightarrow>
         if node = NULL \<or> \<not> S_ISDIR (n_mode (ramfs_nodes s node)) then Some (-1, s)
         else do {
           name \<leftarrow> name;
           child \<leftarrow> ramfs_find_child node name s;
           if child \<noteq> NULL then Some (-1, s)
           else let (new, s) = ramfs_alloc_node s
                in if new = NULL then Some (-1, s)
                   else Some (0, link_child node new name (S_IFDIR OR 0x1ED) s) } }"

text \<open>The walk of \<^verbatim>\<open>ramfs_rmdir\<close>: the node of the path, \<open>None\<close> for \<^verbatim>\<open>-1\<close>.\<close>

function lookup_walk :: "u32 \<Rightarrow> u8 list \<Rightarrow> 'a ramfs_state_scheme \<Rightarrow> u32 option option" where
  "lookup_walk node p s =
     (if p = [] \<or> comp_of p = [] then Some (Some node)
      else do {
        child \<leftarrow> ramfs_find_child node (comp_name p) s;
        if child = NULL then Some None else lookup_walk child (next_comp p) s })"
  by pat_completeness auto

termination lookup_walk
  by (relation "measure (\<lambda>(node, p, s). length p)") (auto simp: length_next_comp)

declare lookup_walk.simps [simp del]

definition ramfs_rmdir :: "file_ref \<Rightarrow> u8 list \<Rightarrow> 'a ramfs_state_scheme \<Rightarrow> (int \<times> 'a ramfs_state_scheme) option" where
  "ramfs_rmdir r path s = do {
     root \<leftarrow> ramfs_sb_root r s;
     res \<leftarrow> lookup_walk root (skip_slashes path) s;
     case res of None \<Rightarrow> Some (-1, s)
     | Some node \<Rightarrow>
         if node = NULL \<or> \<not> S_ISDIR (n_mode (ramfs_nodes s node)) then Some (-1, s)
         else if n_children (ramfs_nodes s node) \<noteq> NULL then Some (-1, s)
         else Some (0, ramfs_free_node node s) }"

text \<open>The walk that \<^verbatim>\<open>ramfs_unlink\<close> and \<^verbatim>\<open>ramfs_rename\<close> share: it stops at a component that ends the string
  and gives its node and name; \<open>None\<close> when a component is missing or nothing ends the string.\<close>

function last_walk :: "u32 \<Rightarrow> u8 list \<Rightarrow> 'a ramfs_state_scheme \<Rightarrow> (u32 \<times> u8 list) option option" where
  "last_walk node p s =
     (if p = [] \<or> comp_of p = [] then Some None
      else do {
        child \<leftarrow> ramfs_find_child node (comp_name p) s;
        if child = NULL then Some None
        else if comp_end p = [] then Some (Some (child, comp_name p))
        else last_walk child (next_comp p) s })"
  by pat_completeness auto

termination last_walk
  by (relation "measure (\<lambda>(node, p, s). length p)") (auto simp: length_next_comp)

declare last_walk.simps [simp del]

definition ramfs_unlink :: "file_ref \<Rightarrow> u8 list \<Rightarrow> 'a ramfs_state_scheme \<Rightarrow> (int \<times> 'a ramfs_state_scheme) option" where
  "ramfs_unlink r path s = do {
     root \<leftarrow> ramfs_sb_root r s;
     res \<leftarrow> last_walk root (skip_slashes path) s;
     case res of None \<Rightarrow> Some (-1, s)
     | Some (child, _) \<Rightarrow>
         if S_ISDIR (n_mode (ramfs_nodes s child)) then Some (-1, s)
         else Some (0, ramfs_free_node child s) }"

text \<open>\<^verbatim>\<open>strncpy(local, name, 255)\<close> into an uninitialised \<^verbatim>\<open>char[256]\<close>: a name of 255 bytes stays without a
  terminator and a later \<^verbatim>\<open>strcmp\<close> reads past it.\<close>

definition local_name :: "u8 list \<Rightarrow> u8 list option" where
  "local_name name = (if length name < 255 then Some name else None)"

text \<open>\<^verbatim>\<open>ramfs_resolve_parent\<close>: the directory of the last component, null when a component does not exist,
  and the basename, uninitialised when the path has no component.\<close>

function resolve_walk :: "u32 \<Rightarrow> u8 list \<Rightarrow> 'a ramfs_state_scheme \<Rightarrow> (u32 \<times> u8 list option) option" where
  "resolve_walk node p s =
     (if p = [] \<or> comp_of p = [] then Some (node, None)
      else do {
        child \<leftarrow> ramfs_find_child node (comp_name p) s;
        if child = NULL then Some (NULL, None)
        else if next_comp p = [] then Some (node, local_name (comp_name p))
        else resolve_walk child (next_comp p) s })"
  by pat_completeness auto

termination resolve_walk
  by (relation "measure (\<lambda>(node, p, s). length p)") (auto simp: length_next_comp)

declare resolve_walk.simps [simp del]

definition ramfs_resolve_parent :: "u8 list \<Rightarrow> 'a ramfs_state_scheme \<Rightarrow> (u32 \<times> u8 list option) option" where
  "ramfs_resolve_parent path s = resolve_walk (sb_root_node s) (skip_slashes path) s"

text \<open>Taking a node out of its directory, lines 437 to 443.\<close>

definition unlink_child :: "u32 \<Rightarrow> 'a ramfs_state_scheme \<Rightarrow> 'a ramfs_state_scheme" where
  "unlink_child p s =
     (if n_parent (ramfs_nodes s p) \<noteq> NULL
      then let s = unlink_node nnext nprev set_nnext set_nprev p s;
               d = n_parent (ramfs_nodes s p)
           in (if n_children (ramfs_nodes s d) = p
               then upd_node d (\<lambda>m. m\<lparr>n_children := n_next (ramfs_nodes s p)\<rparr>) s else s)
      else s)"

text \<open>The assignments of \<^verbatim>\<open>ramfs_rename\<close> once all checks passed.\<close>

definition rename_move :: "u32 \<Rightarrow> u32 \<Rightarrow> u8 list \<Rightarrow> u32 \<Rightarrow> 'a ramfs_state_scheme \<Rightarrow> 'a ramfs_state_scheme" where
  "rename_move old_node new_parent new_basename existing s =
     (let s = (if existing \<noteq> NULL then ramfs_free_node existing s else s);
          s = unlink_child old_node s;
          s = upd_node old_node (\<lambda>n. n\<lparr>n_name := arr_strncpy (n_name n) new_basename 255\<rparr>) s;
          s = upd_node old_node (\<lambda>n. n\<lparr>n_parent := new_parent\<rparr>) s;
          s = upd_node old_node (\<lambda>n. n\<lparr>n_next := n_children (ramfs_nodes s new_parent), n_prev := NULL\<rparr>) s;
          h = n_children (ramfs_nodes s new_parent);
          s = (if h \<noteq> NULL then upd_node h (\<lambda>n. n\<lparr>n_prev := old_node\<rparr>) s else s)
      in upd_node new_parent (\<lambda>n. n\<lparr>n_children := old_node\<rparr>) s)"

definition ramfs_rename :: "u8 list \<Rightarrow> u8 list \<Rightarrow> 'a ramfs_state_scheme \<Rightarrow> (int \<times> 'a ramfs_state_scheme) option" where
  "ramfs_rename oldpath newpath s = do {
     old \<leftarrow> last_walk (sb_root_node s) (skip_slashes oldpath) s;
     case old of None \<Rightarrow> Some (-1, s)
     | Some (old_node, old_name) \<Rightarrow>
         if old_node = NULL \<or> old_node = sb_root_node s then Some (-1, s)
         else do {
           (new_parent, new_basename) \<leftarrow> ramfs_resolve_parent newpath s;
           if new_parent = NULL then Some (-1, s)
           else do {
             old_name \<leftarrow> local_name old_name;
             new_basename \<leftarrow> new_basename;
             if old_name = new_basename \<and> new_parent = n_parent (ramfs_nodes s old_node) then Some (0, s)
             else if new_parent = old_node then Some (-1, s)
             else do {
               existing \<leftarrow> ramfs_find_child new_parent new_basename s;
               if existing \<noteq> NULL \<and> S_ISDIR (n_mode (ramfs_nodes s existing))
                  \<and> n_children (ramfs_nodes s existing) \<noteq> NULL
               then Some (-1, s)
               else Some (0, rename_move old_node new_parent new_basename existing s) } } } }"

definition ramfs_mount ::
  "('a ramfs_state_ext file_state_ext dstate_ext) switch \<Rightarrow> u8 list \<Rightarrow> 'a ramfs_state_scheme \<Rightarrow>
   (int \<times> 'a ramfs_state_scheme) option" where
  "ramfs_mount sw target s =
     (let (root, s) = ramfs_alloc_node s;
          s = s\<lparr>sb_root_node := root\<rparr>
      in if root = NULL then Some (-1, s)
         else let s = upd_node root (\<lambda>n. n\<lparr>n_name := arr_strncpy (n_name n) (bytes ''/'') 255\<rparr>) s;
                  s = upd_node root (\<lambda>n. n\<lparr>n_mode := S_IFDIR OR 0x1ED\<rparr>) s;
                  s = s\<lparr>sb_file_count := 1, sb_total_size := 0\<rparr>;
                  (bin, s) = ramfs_alloc_node s;
                  s = upd_node root (\<lambda>n. n\<lparr>n_children := bin\<rparr>) s;
                  s = (if bin \<noteq> NULL
                       then upd_node bin (\<lambda>n. n\<lparr>n_name := arr_strncpy (n_name n) (bytes ''bin'') 255,
                              n_mode := S_IFDIR OR 0x1ED, n_parent := root\<rparr>) s
                       else s)
              in vfs_register_fs sw target RamfsFops PRamSb s)"

text \<open>The operations that \<^verbatim>\<open>ramfs_fops\<close> offers.\<close>

datatype ramfs_request =
    ROpen file_ref "u8 list" u32
  | RClose file_ref
  | RRead file_ref u32 u32
  | RWrite file_ref u32 u32
  | RLseek file_ref u32 int
  | RPread file_ref u32 u32 u32
  | RPwrite file_ref u32 u32 u32
  | RReaddir file_ref dirent
  | RMkdir file_ref "u8 list" u32
  | RRmdir file_ref "u8 list"
  | RUnlink file_ref "u8 list"
  | RRename "u8 list" "u8 list"

fun ramfs_fops :: "u32 \<Rightarrow> ramfs_request \<Rightarrow> 'a ramfs_state_scheme \<Rightarrow> (int \<times> 'a ramfs_state_scheme) option" where
  "ramfs_fops pool (ROpen r path flags) s = ramfs_open r path flags s"
| "ramfs_fops pool (RClose r) s = ramfs_close r s"
| "ramfs_fops pool (RRead r buf count) s = ramfs_read r buf count s"
| "ramfs_fops pool (RWrite r buf count) s = ramfs_write pool r buf count s"
| "ramfs_fops pool (RLseek r offset whence) s = ramfs_lseek r offset whence s"
| "ramfs_fops pool (RPread r buf count offset) s = ramfs_pread r buf count offset s"
| "ramfs_fops pool (RPwrite r buf count offset) s = ramfs_pwrite pool r buf count offset s"
| "ramfs_fops pool (RReaddir r ent) s = map_option (\<lambda>(v, ent, s). (v, s)) (ramfs_readdir r ent s)"
| "ramfs_fops pool (RMkdir r path mode) s = ramfs_mkdir r path mode s"
| "ramfs_fops pool (RRmdir r path) s = ramfs_rmdir r path s"
| "ramfs_fops pool (RUnlink r path) s = ramfs_unlink r path s"
| "ramfs_fops pool (RRename old new) s = ramfs_rename old new s"

section \<open>The directory structure\<close>

lemmas nset_defs = nnext_def nprev_def set_nnext_def set_nprev_def upd_node_def

interpretation rq: linked_store nnext nprev set_nnext set_nprev "(\<noteq>)"
  by unfold_locales (auto simp: nset_defs)

lemma upd_node_frame [simp]:
  "ramfs_node_count (upd_node p f s) = ramfs_node_count s" "sb_root_node (upd_node p f s) = sb_root_node s"
  "open_files (upd_node p f s) = open_files s" "heap_files (upd_node p f s) = heap_files s"
  "mem (upd_node p f s) = mem s" "ramfs_data_used (upd_node p f s) = ramfs_data_used s"
  "ramfs_nodes (upd_node p f s) = (ramfs_nodes s)(p := f (ramfs_nodes s p))"
  by (simp_all add: upd_node_def)

lemma upd_file_frame [simp]:
  "ramfs_nodes (upd_file r f s) = ramfs_nodes s" "ramfs_node_count (upd_file r f s) = ramfs_node_count s"
  "sb_root_node (upd_file r f s) = sb_root_node s" "mem (upd_file r f s) = mem s"
  "ramfs_data_used (upd_file r f s) = ramfs_data_used s"
  by (cases r; simp)+

text \<open>\<open>ramfs_rel kids s\<close>: \<open>kids d\<close> lists the children of \<open>d\<close>, chained from \<^verbatim>\<open>d->children\<close> through \<^verbatim>\<open>next\<close> and
  \<^verbatim>\<open>prev\<close>; a node is in at most one list, that of its parent; the root is in none.\<close>

definition allocated :: "'a ramfs_state_scheme \<Rightarrow> u32 set" where
  "allocated s = {p. p \<noteq> NULL \<and> p \<le> ramfs_node_count s}"

definition ramfs_rel :: "(u32 \<Rightarrow> u32 list) \<Rightarrow> 'a ramfs_state_scheme \<Rightarrow> bool" where
  "ramfs_rel kids s \<longleftrightarrow> ramfs_node_count s \<le> RAMFS_MAX_FILES
     \<and> sb_root_node s \<in> allocated s
     \<and> (\<forall>d. dll (nnext s) (nprev s) NULL (n_children (ramfs_nodes s d)) (kids d) \<or> d \<notin> allocated s)
     \<and> (\<forall>d. d \<notin> allocated s \<longrightarrow> kids d = [])
     \<and> (\<forall>d. set (kids d) \<subseteq> allocated s)
     \<and> (\<forall>d. \<forall>c\<in>set (kids d). n_parent (ramfs_nodes s c) = d \<and> c \<noteq> d \<and> c \<noteq> sb_root_node s)
     \<and> nnext s (sb_root_node s) = NULL \<and> nprev s (sb_root_node s) = NULL
     \<and> n_parent (ramfs_nodes s (sb_root_node s)) = NULL"

lemma ramfs_relD:
  assumes "ramfs_rel kids s"
  shows "ramfs_node_count s \<le> RAMFS_MAX_FILES" "sb_root_node s \<in> allocated s"
    "d \<in> allocated s \<Longrightarrow> dll (nnext s) (nprev s) NULL (n_children (ramfs_nodes s d)) (kids d)"
    "d \<notin> allocated s \<Longrightarrow> kids d = []" "set (kids d) \<subseteq> allocated s"
    "c \<in> set (kids d) \<Longrightarrow> n_parent (ramfs_nodes s c) = d" "c \<in> set (kids d) \<Longrightarrow> c \<noteq> d"
    "c \<in> set (kids d) \<Longrightarrow> c \<noteq> sb_root_node s"
    "nnext s (sb_root_node s) = NULL" "nprev s (sb_root_node s) = NULL"
    "n_parent (ramfs_nodes s (sb_root_node s)) = NULL"
  using assms unfolding ramfs_rel_def by blast+

lemma ramfs_relI:
  assumes "ramfs_node_count s \<le> RAMFS_MAX_FILES" "sb_root_node s \<in> allocated s"
    "\<And>d. d \<in> allocated s \<Longrightarrow> dll (nnext s) (nprev s) NULL (n_children (ramfs_nodes s d)) (kids d)"
    "\<And>d. d \<notin> allocated s \<Longrightarrow> kids d = []" "\<And>d. set (kids d) \<subseteq> allocated s"
    "\<And>c d. c \<in> set (kids d) \<Longrightarrow> n_parent (ramfs_nodes s c) = d \<and> c \<noteq> d \<and> c \<noteq> sb_root_node s"
    "nnext s (sb_root_node s) = NULL" "nprev s (sb_root_node s) = NULL"
    "n_parent (ramfs_nodes s (sb_root_node s)) = NULL"
  shows "ramfs_rel kids s"
  using assms unfolding ramfs_rel_def by blast

lemma allocated_nonnull: "p \<in> allocated s \<Longrightarrow> p \<noteq> NULL"
  by (simp add: allocated_def)

lemma ramfs_rel_parent:
  assumes "ramfs_rel kids s" "c \<in> set (kids d)" shows "d \<in> allocated s"
  using assms ramfs_relD(4) by fastforce

lemma ramfs_rel_cong:
  assumes "ramfs_rel kids s" "ramfs_nodes s' = ramfs_nodes s" "ramfs_node_count s' = ramfs_node_count s"
    "sb_root_node s' = sb_root_node s"
  shows "ramfs_rel kids s'"
proof -
  have "allocated s' = allocated s" "nnext s' = nnext s" "nprev s' = nprev s"
    using assms(2,3) by (simp_all add: allocated_def nnext_def nprev_def fun_eq_iff)
  then show ?thesis using assms by (simp add: ramfs_rel_def)
qed

text \<open>Looking a name up in a directory.\<close>

definition name_of :: "'a ramfs_state_scheme \<Rightarrow> u32 \<Rightarrow> u8 list" where
  "name_of s p = arr_str (n_name (ramfs_nodes s p))"

definition child_named :: "'a ramfs_state_scheme \<Rightarrow> u32 list \<Rightarrow> u8 list \<Rightarrow> u32" where
  "child_named s cs name = (case find (\<lambda>c. name_of s c = name) cs of None \<Rightarrow> NULL | Some c \<Rightarrow> c)"

lemma find_child_loop_dll:
  "dll (nnext s) pv pr h cs \<Longrightarrow> find_child_loop h name s = Some (child_named s cs name)"
proof (induction cs arbitrary: pr h)
  case Nil
  then show ?case by (subst find_child_loop.simps) (simp add: child_named_def)
next
  case (Cons c cs)
  then show ?case
    by (subst find_child_loop.simps) (auto simp: child_named_def name_of_def nnext_def)
qed

lemma ramfs_find_child_rel:
  assumes "ramfs_rel kids s" "d \<in> allocated s"
  shows "ramfs_find_child d name s = Some (child_named s (kids d) name)"
  using find_child_loop_dll [OF ramfs_relD(3) [OF assms]] allocated_nonnull [OF assms(2)]
  by (simp add: ramfs_find_child_def)

lemma child_named_cases:
  assumes "ramfs_rel kids s"
  obtains "child_named s (kids d) name = NULL" "\<forall>c\<in>set (kids d). name_of s c \<noteq> name"
  | "child_named s (kids d) name \<in> set (kids d)" "name_of s (child_named s (kids d) name) = name"
    "child_named s (kids d) name \<in> allocated s" "child_named s (kids d) name \<noteq> NULL"
proof (cases "find (\<lambda>c. name_of s c = name) (kids d)")
  case None
  then have "child_named s (kids d) name = NULL" by (simp add: child_named_def)
  moreover have "\<forall>c\<in>set (kids d). name_of s c \<noteq> name" using None by (simp add: find_None_iff)
  ultimately show ?thesis by (rule that(1))
next
  case (Some c)
  then have "c \<in> set (kids d)" "name_of s c = name" by (auto simp: find_Some_iff)
  then show ?thesis using Some ramfs_relD(5) [OF assms] allocated_nonnull [of c s]
    by (intro that(2)) (auto simp: child_named_def)
qed


section \<open>Creating a node\<close>

lemma alloc_node_cases:
  assumes "ramfs_rel kids s"
  obtains "ramfs_alloc_node s = (NULL, s)" "ramfs_node_count s = RAMFS_MAX_FILES"
  | p s' where "ramfs_alloc_node s = (p, s')" "p \<notin> allocated s" "p \<noteq> NULL" "allocated s' = insert p (allocated s)"
    "ramfs_nodes s' = (ramfs_nodes s)(p := ramfs_node_zero)" "ramfs_node_count s' = ramfs_node_count s + 1"
    "sb_root_node s' = sb_root_node s" "ramfs_rel kids s'" "mem s' = mem s" "open_files s' = open_files s"
    "heap_files s' = heap_files s"
proof (cases "ramfs_node_count s \<ge> RAMFS_MAX_FILES")
  case True
  then show ?thesis using ramfs_relD(1) [OF assms] by (intro that(1)) (auto simp: ramfs_alloc_node_def)
next
  case False
  let ?p = "ramfs_node_count s + 1"
  let ?s = "upd_node ?p (\<lambda>_. ramfs_node_zero) (s\<lparr>ramfs_node_count := ?p\<rparr>)"
  have u: "unat ?p = unat (ramfs_node_count s) + 1" "unat ?p \<le> 64"
    using False by (simp_all add: word_le_nat_alt unat_add_lem [THEN iffD1])
  have p0: "?p \<noteq> NULL" using u by (metis add_is_0 one_neq_zero unat_0)
  have a: "allocated ?s = insert ?p (allocated s)" using p0 u
    by (auto simp: allocated_def word_le_nat_alt)
      (metis le_SucE word_unat_eq_iff u(1) Suc_eq_plus1)
  have pn: "?p \<notin> allocated s" using u by (auto simp: allocated_def word_le_nat_alt)
  have k: "kids ?p = []" using ramfs_relD(4) [OF assms pn] .
  have notin: "?p \<notin> set (kids d)" for d using ramfs_relD(5) [OF assms] pn by blast
  have root: "sb_root_node s \<noteq> ?p" using ramfs_relD(2) [OF assms] pn by auto
  have "dll (nnext ?s) (nprev ?s) NULL (n_children (ramfs_nodes ?s d)) (kids d)" if "d \<in> allocated ?s" for d
  proof (cases "d = ?p")
    case True then show ?thesis using k by (simp add: ramfs_node_zero_def)
  next
    case False
    then have "dll (nnext s) (nprev s) NULL (n_children (ramfs_nodes s d)) (kids d)"
      using that a ramfs_relD(3) [OF assms] by auto
    moreover have "nnext ?s x = nnext s x" "nprev ?s x = nprev s x" if "x \<in> set (kids d)" for x
      using notin [of d] that by (auto simp: nnext_def nprev_def)
    ultimately show ?thesis using False by (subst dll_cong [of _ _ "nnext s" _ "nprev s"]) auto
  qed
  note chain = this
  have "ramfs_rel kids ?s"
  proof (rule ramfs_relI)
    show "ramfs_node_count ?s \<le> RAMFS_MAX_FILES" using u by (simp add: word_le_nat_alt)
    show "sb_root_node ?s \<in> allocated ?s" using a ramfs_relD(2) [OF assms] by simp
    show "nnext ?s (sb_root_node ?s) = NULL" "nprev ?s (sb_root_node ?s) = NULL"
      "n_parent (ramfs_nodes ?s (sb_root_node ?s)) = NULL"
      using ramfs_relD(9-11) [OF assms] root by (simp_all add: nnext_def nprev_def)
  next
    fix d
    show "kids d = []" if "d \<notin> allocated ?s" using that a ramfs_relD(4) [OF assms] by simp
    show "set (kids d) \<subseteq> allocated ?s" using a ramfs_relD(5) [OF assms] by auto
  next
    fix c d assume "c \<in> set (kids d)"
    then show "n_parent (ramfs_nodes ?s c) = d \<and> c \<noteq> d \<and> c \<noteq> sb_root_node ?s"
      using ramfs_relD(6-8) [OF assms] notin [of d] by auto
  qed (rule chain)
  then show ?thesis using False p0 pn a by (intro that(2) [of ?p ?s]) (auto simp: ramfs_alloc_node_def Let_def)
qed


section \<open>Linking and unlinking\<close>

lemma kids_disjoint: "ramfs_rel kids s \<Longrightarrow> c \<in> set (kids d) \<Longrightarrow> c \<in> set (kids d') \<Longrightarrow> d = d'"
  using ramfs_relD(6) by metis

lemma set_nprev_same: "nprev s p = v \<Longrightarrow> set_nprev p v s = s"
  by (auto simp: nset_defs)

lemma upd_node_comp: "upd_node p f (upd_node p g s) = upd_node p (\<lambda>n. f (g n)) s"
  by (simp add: upd_node_def)

lemma link_child_alt:
  fixes name :: "u8 list" and mode :: u32
  assumes "p \<noteq> d" "nprev s p = NULL"
  defines "s0 \<equiv> upd_node p (\<lambda>n. n\<lparr>n_name := arr_strncpy (n_name n) name 255, n_mode := mode, n_parent := d\<rparr>) s"
  defines "h \<equiv> n_children (ramfs_nodes s d)"
  shows "link_child d p name mode s = upd_node d (\<lambda>n. n\<lparr>n_children := p\<rparr>)
     (let s1 = set_nprev p NULL (set_nnext p h s0) in if h \<noteq> NULL then set_nprev h p s1 else s1)"
proof -
  have "nprev (set_nnext p h s0) p = NULL" using assms(2) by (simp add: s0_def nset_defs)
  then have "set_nprev p NULL (set_nnext p h s0) = set_nnext p h s0" by (rule set_nprev_same)
  then show ?thesis using assms(1)
    by (simp add: link_child_def Let_def h_def s0_def set_nnext_def set_nprev_def upd_node_comp cong: if_cong)
qed

lemma nprev_upd_children [simp]:
  "nnext (upd_node d (\<lambda>n. n\<lparr>n_children := v\<rparr>) s) = nnext s" "nprev (upd_node d (\<lambda>n. n\<lparr>n_children := v\<rparr>) s) = nprev s"
  by (auto simp: nnext_def nprev_def fun_eq_iff)

text \<open>The assignments that put \<open>p\<close> in front of the children of \<open>d\<close>; \<open>f\<close> sets the parent and may set name
  and mode.\<close>

definition push_child :: "u32 \<Rightarrow> u32 \<Rightarrow> (ramfs_node \<Rightarrow> ramfs_node) \<Rightarrow> 'a ramfs_state_scheme \<Rightarrow> 'a ramfs_state_scheme" where
  "push_child d p f s = (let h = n_children (ramfs_nodes s d); s0 = upd_node p f s
     in upd_node d (\<lambda>n. n\<lparr>n_children := p\<rparr>)
       (let s1 = set_nprev p NULL (set_nnext p h s0) in if h \<noteq> NULL then set_nprev h p s1 else s1))"

lemma push_child_rel:
  assumes rel: "ramfs_rel kids s" and p: "p \<in> allocated s" "\<forall>d. p \<notin> set (kids d)" "p \<noteq> sb_root_node s"
    "p \<noteq> d" and d: "d \<in> allocated s"
    and f: "\<And>n. n_next (f n) = n_next n" "\<And>n. n_prev (f n) = n_prev n" "\<And>n. n_children (f n) = n_children n"
      "\<And>n. n_parent (f n) = d"
  shows "ramfs_rel (kids(d := p # kids d)) (push_child d p f s)"
proof -
  let ?s' = "push_child d p f s"
  define s0 where "s0 = upd_node p f s"
  define h where "h = n_children (ramfs_nodes s d)"
  define s2 where "s2 = (let s1 = set_nprev p NULL (set_nnext p h s0) in if h \<noteq> NULL then set_nprev h p s1 else s1)"
  have s': "?s' = upd_node d (\<lambda>n. n\<lparr>n_children := p\<rparr>) s2"
    unfolding s2_def s0_def h_def push_child_def Let_def by (rule refl)
  have h: "h \<noteq> NULL \<Longrightarrow> h \<in> set (kids d)"
    using ramfs_relD(3) [OF rel d] by (cases "kids d") (auto simp: h_def)
  have s0: "nnext s0 = nnext s" "nprev s0 = nprev s" by (auto simp: s0_def nnext_def nprev_def fun_eq_iff f)
  have chain: "dll (nnext s2) (nprev s2) NULL p (p # kids d)"
    unfolding s2_def Let_def
    by (rule rq.push_front) (use ramfs_relD(3) [OF rel d] p allocated_nonnull [OF p(1)] s0 in \<open>auto simp: h_def pairwise_def\<close>)
  have nx: "nnext ?s' = nnext s2" "nprev ?s' = nprev s2" by (simp_all add: s')
  have other: "nnext s2 x = nnext s x" "nprev s2 x = nprev s x" if "x \<noteq> p" "x \<noteq> h" for x
    using that by (auto simp: s2_def Let_def rq.set_simps s0)
  have fields: "n_parent (ramfs_nodes ?s' x) = (if x = p then d else n_parent (ramfs_nodes s x))"
    "n_children (ramfs_nodes ?s' x) = (if x = d then p else n_children (ramfs_nodes s x))" for x
    using p(4) by (auto simp: s' s2_def s0_def Let_def nset_defs f)
  have frame: "ramfs_node_count ?s' = ramfs_node_count s" "sb_root_node ?s' = sb_root_node s" "allocated ?s' = allocated s"
    by (auto simp: s' s2_def s0_def Let_def nset_defs allocated_def)
  have hroot: "h \<noteq> sb_root_node s" using h ramfs_relD(8) [OF rel] ramfs_relD(2) [OF rel] allocated_nonnull by metis
  show ?thesis
  proof (rule ramfs_relI)
    fix d' assume d': "d' \<in> allocated ?s'"
    show "dll (nnext ?s') (nprev ?s') NULL (n_children (ramfs_nodes ?s' d')) ((kids(d := p # kids d)) d')"
    proof (cases "d' = d")
      case True then show ?thesis using chain fields(2) by (simp add: nx)
    next
      case False
      have "x \<noteq> p" "x \<noteq> h" if "x \<in> set (kids d')" for x
        using p(2) that h kids_disjoint [OF rel] False ramfs_relD(5) [OF rel] allocated_nonnull by blast+
      then have "dll (nnext s2) (nprev s2) NULL (n_children (ramfs_nodes s d')) (kids d')"
        using ramfs_relD(3) [OF rel] d' frame(3) other by (subst dll_cong [of _ _ "nnext s" _ "nprev s"]) auto
      then show ?thesis using False fields(2) by (simp add: nx)
    qed
  next
    fix c d' assume "c \<in> set ((kids(d := p # kids d)) d')"
    then show "n_parent (ramfs_nodes ?s' c) = d' \<and> c \<noteq> d' \<and> c \<noteq> sb_root_node ?s'"
      using ramfs_relD(6,7,8) [OF rel, of c d'] p fields(1) frame by (auto split: if_splits)
  next
    show "nnext ?s' (sb_root_node ?s') = NULL" "nprev ?s' (sb_root_node ?s') = NULL"
      "n_parent (ramfs_nodes ?s' (sb_root_node ?s')) = NULL"
      using ramfs_relD(9-11) [OF rel] other [of "sb_root_node s"] hroot p(3) fields(1) frame(2) by (simp_all add: nx)
  qed (use rel frame p d ramfs_relD [OF rel] in \<open>auto split: if_splits\<close>)
qed

lemma link_child_rel:
  assumes rel: "ramfs_rel kids s" and p: "p \<in> allocated s" "\<forall>d. p \<notin> set (kids d)" "p \<noteq> sb_root_node s"
    "nprev s p = NULL" "p \<noteq> d" and d: "d \<in> allocated s"
  shows "ramfs_rel (kids(d := p # kids d)) (link_child d p name mode s)"
proof -
  have "link_child d p name mode s
      = push_child d p (\<lambda>n. n\<lparr>n_name := arr_strncpy (n_name n) name 255, n_mode := mode, n_parent := d\<rparr>) s"
    unfolding push_child_def using link_child_alt [OF p(5,4)] by (simp only: Let_def)
  then show ?thesis using push_child_rel [OF rel p(1-3,5) d] by simp
qed

text \<open>What linking leaves alone.\<close>

lemma link_child_other:
  assumes "x \<noteq> p" "p \<noteq> d"
  shows "n_name (ramfs_nodes (link_child d p name mode s) x) = n_name (ramfs_nodes s x)"
    "n_mode (ramfs_nodes (link_child d p name mode s) x) = n_mode (ramfs_nodes s x)"
    "n_data (ramfs_nodes (link_child d p name mode s) x) = n_data (ramfs_nodes s x)"
    "n_size (ramfs_nodes (link_child d p name mode s) x) = n_size (ramfs_nodes s x)"
  using assms by (auto simp: link_child_def Let_def)

lemma link_child_new:
  assumes "p \<noteq> d" "n_children (ramfs_nodes s d) \<noteq> p"
  shows "n_name (ramfs_nodes (link_child d p name mode s) p) = arr_strncpy (n_name (ramfs_nodes s p)) name 255"
    "n_mode (ramfs_nodes (link_child d p name mode s) p) = mode"
    "n_children (ramfs_nodes (link_child d p name mode s) p) = n_children (ramfs_nodes s p)"
  using assms by (auto simp: link_child_def Let_def)

lemma link_child_frame [simp]:
  "ramfs_node_count (link_child d p name mode s) = ramfs_node_count s"
  "sb_root_node (link_child d p name mode s) = sb_root_node s" "mem (link_child d p name mode s) = mem s"
  "open_files (link_child d p name mode s) = open_files s" "heap_files (link_child d p name mode s) = heap_files s"
  "allocated (link_child d p name mode s) = allocated s"
  "ramfs_data_used (link_child d p name mode s) = ramfs_data_used s"
  by (auto simp: link_child_def Let_def allocated_def)

text \<open>Taking a node out of the list of its parent.\<close>

abbreviation (input) detach :: "u32 \<Rightarrow> 'a ramfs_state_scheme \<Rightarrow> 'a ramfs_state_scheme" where
  "detach \<equiv> unlink_node nnext nprev set_nnext set_nprev"

lemma detach_fields:
  "n_parent (ramfs_nodes (detach p s) x) = n_parent (ramfs_nodes s x)"
  "n_children (ramfs_nodes (detach p s) x) = n_children (ramfs_nodes s x)"
  "n_name (ramfs_nodes (detach p s) x) = n_name (ramfs_nodes s x)"
  "n_mode (ramfs_nodes (detach p s) x) = n_mode (ramfs_nodes s x)"
  "n_data (ramfs_nodes (detach p s) x) = n_data (ramfs_nodes s x)"
  "n_size (ramfs_nodes (detach p s) x) = n_size (ramfs_nodes s x)"
  "ramfs_node_count (detach p s) = ramfs_node_count s" "sb_root_node (detach p s) = sb_root_node s"
  "mem (detach p s) = mem s" "open_files (detach p s) = open_files s" "heap_files (detach p s) = heap_files s"
  "allocated (detach p s) = allocated s"
  by (auto simp: unlink_node_def Let_def set_nnext_def set_nprev_def allocated_def)

lemma detach_other:
  assumes "x \<noteq> nprev s p" "x \<noteq> nnext s p" "p \<noteq> nprev s p"
  shows "nnext (detach p s) x = nnext s x" "nprev (detach p s) x = nprev s x"
  using assms by (auto simp: unlink_node_def Let_def rq.set_simps)


text \<open>Detaching a child from its list.\<close>

lemma chain_neighbours:
  assumes "dll nx pv NULL h cs" "p \<in> set cs"
  shows "pv p \<noteq> NULL \<longrightarrow> pv p \<in> set cs" "nx p \<noteq> NULL \<longrightarrow> nx p \<in> set cs" "pv p \<noteq> p"
proof -
  obtain as bs where cs: "cs = as @ p # bs" using split_list assms(2) by metis
  obtain m where m: "dseg nx pv NULL h as m p" "pv p = m" "dll nx pv p (nx p) bs"
    using assms(1) unfolding cs dll_append by auto
  have ml: "m = (if as = [] then NULL else last as)" using dseg_last [OF m(1)] .
  then show "pv p \<noteq> NULL \<longrightarrow> pv p \<in> set cs" using m(2) cs by auto
  show "nx p \<noteq> NULL \<longrightarrow> nx p \<in> set cs" using m(3) cs by (cases bs) auto
  have "distinct cs" using dll_distinct [OF assms(1)] .
  then show "pv p \<noteq> p" using ml m(2) cs dll_nonnull [OF assms] by auto
qed

lemma dll_remove1:
  assumes "dll (nnext s) (nprev s) NULL h cs" "p \<in> set cs"
  shows "dll (nnext (detach p s)) (nprev (detach p s)) NULL (if h = p then nnext s p else h) (remove1 p cs)"
    "nnext (detach p s) p = nnext s p"
proof -
  obtain as bs where cs: "cs = as @ p # bs" "p \<notin> set as" using split_list_first assms(2) by metis
  have d: "distinct cs" using dll_distinct [OF assms(1)] .
  have "pairwise (\<noteq>) (set (as @ p # bs))" by (simp add: pairwise_def)
  note U = rq.unlink_chain [OF assms(1) [unfolded cs(1)] this]
  have "(h = p) = (as = [])" using dll_head [OF assms(1)] cs by (cases as) auto
  moreover have "remove1 p cs = as @ bs" using cs d by (simp add: remove1_append)
  ultimately show "dll (nnext (detach p s)) (nprev (detach p s)) NULL (if h = p then nnext s p else h) (remove1 p cs)"
    using U(1) by simp
  show "nnext (detach p s) p = nnext s p" by (rule U(2))
qed

text \<open>The state after a detached node has left the list of \<open>d\<close>; \<open>f\<close> is what happens to the node itself.\<close>

definition drop_child :: "u32 \<Rightarrow> u32 \<Rightarrow> 'a ramfs_state_scheme \<Rightarrow> 'a ramfs_state_scheme" where
  "drop_child d p s = (let s1 = detach p s in if n_children (ramfs_nodes s1 d) = p
     then upd_node d (\<lambda>m. m\<lparr>n_children := n_next (ramfs_nodes s1 p)\<rparr>) s1 else s1)"

lemma drop_child_fields:
  "n_parent (ramfs_nodes (drop_child d p s) x) = n_parent (ramfs_nodes s x)"
  "n_children (ramfs_nodes (drop_child d p s) x) = (if x = d \<and> n_children (ramfs_nodes s d) = p
     then nnext (detach p s) p else n_children (ramfs_nodes s x))"
  "n_name (ramfs_nodes (drop_child d p s) x) = n_name (ramfs_nodes s x)"
  "n_mode (ramfs_nodes (drop_child d p s) x) = n_mode (ramfs_nodes s x)"
  "n_data (ramfs_nodes (drop_child d p s) x) = n_data (ramfs_nodes s x)"
  "n_size (ramfs_nodes (drop_child d p s) x) = n_size (ramfs_nodes s x)"
  "ramfs_node_count (drop_child d p s) = ramfs_node_count s" "sb_root_node (drop_child d p s) = sb_root_node s"
  "mem (drop_child d p s) = mem s" "open_files (drop_child d p s) = open_files s"
  "heap_files (drop_child d p s) = heap_files s" "allocated (drop_child d p s) = allocated s"
  "nnext (drop_child d p s) = nnext (detach p s)" "nprev (drop_child d p s) = nprev (detach p s)"
  by (auto simp: drop_child_def Let_def detach_fields nnext_def allocated_def)

lemma drop_child_rel:
  assumes rel: "ramfs_rel kids s" and p: "p \<in> set (kids d)"
  shows "ramfs_rel (kids(d := remove1 p (kids d))) (drop_child d p s)"
proof -
  let ?s' = "drop_child d p s"
  have d: "d \<in> allocated s" using ramfs_rel_parent [OF rel p] .
  note chain = ramfs_relD(3) [OF rel d]
  note N = chain_neighbours [OF chain p]
  have other: "nnext ?s' x = nnext s x" "nprev ?s' x = nprev s x" if "x \<notin> set (kids d)" "x \<noteq> NULL" for x
    using detach_other [of x s p] N that by (auto simp: drop_child_fields)
  have root: "sb_root_node s \<notin> set (kids d)" using ramfs_relD(8) [OF rel] by blast
  show ?thesis
  proof (rule ramfs_relI)
    fix d' assume d': "d' \<in> allocated ?s'"
    show "dll (nnext ?s') (nprev ?s') NULL (n_children (ramfs_nodes ?s' d')) ((kids(d := remove1 p (kids d))) d')"
    proof (cases "d' = d")
      case True
      then show ?thesis using dll_remove1 [OF chain p] by (auto simp: drop_child_fields split: if_splits)
    next
      case False
      have "x \<notin> set (kids d)" "x \<noteq> NULL" if "x \<in> set (kids d')" for x
        using that kids_disjoint [OF rel] False ramfs_relD(5) [OF rel] allocated_nonnull by blast+
      then have "dll (nnext ?s') (nprev ?s') NULL (n_children (ramfs_nodes s d')) (kids d')"
        using ramfs_relD(3) [OF rel] d' other by (subst dll_cong [of _ _ "nnext s" _ "nprev s"]) (auto simp: drop_child_fields)
      then show ?thesis using False by (simp add: drop_child_fields)
    qed
  next
    fix c d' assume "c \<in> set ((kids(d := remove1 p (kids d))) d')"
    then have "c \<in> set (kids d')" using set_remove1_subset [of p "kids d"] by (auto split: if_splits)
    then show "n_parent (ramfs_nodes ?s' c) = d' \<and> c \<noteq> d' \<and> c \<noteq> sb_root_node ?s'"
      using ramfs_relD(6,7,8) [OF rel, of c d'] by (simp add: drop_child_fields)
  next
    fix d'
    show "set ((kids(d := remove1 p (kids d))) d') \<subseteq> allocated ?s'"
      using ramfs_relD(5) [OF rel, of d'] set_remove1_subset [of p "kids d"] by (auto simp: drop_child_fields split: if_splits)
    show "(kids(d := remove1 p (kids d))) d' = []" if "d' \<notin> allocated ?s'"
      using that ramfs_relD(4) [OF rel, of d'] d by (auto simp: drop_child_fields)
  qed (use root ramfs_relD(1,2,9-11) [OF rel] other [of "sb_root_node s"] allocated_nonnull [OF ramfs_relD(2) [OF rel]]
      in \<open>auto simp: drop_child_fields\<close>)
qed


lemma unlink_child_drop:
  "n_parent (ramfs_nodes s p) \<noteq> NULL \<Longrightarrow> unlink_child p s = drop_child (n_parent (ramfs_nodes s p)) p s"
  by (simp add: unlink_child_def drop_child_def Let_def detach_fields)

text \<open>A node outside every list may be overwritten, as long as its own children match \<open>kids\<close>.\<close>

lemma upd_node_rel:
  assumes rel: "ramfs_rel kids s" and p: "\<forall>d. p \<notin> set (kids d)" "p \<noteq> sb_root_node s"
    and f: "n_children (f (ramfs_nodes s p)) = NULL"
  shows "ramfs_rel (kids(p := [])) (upd_node p f s)"
proof (rule ramfs_relI)
  let ?s' = "upd_node p f s"
  have a [simp]: "allocated ?s' = allocated s" by (simp add: allocated_def)
  have other: "nnext ?s' x = nnext s x" "nprev ?s' x = nprev s x" if "x \<noteq> p" for x
    using that by (simp_all add: nnext_def nprev_def)
  fix d assume d: "d \<in> allocated ?s'"
  show "dll (nnext ?s') (nprev ?s') NULL (n_children (ramfs_nodes ?s' d)) ((kids(p := [])) d)"
  proof (cases "d = p")
    case False
    have "x \<noteq> p" if "x \<in> set (kids d)" for x using p(1) that by metis
    then show ?thesis using ramfs_relD(3) [OF rel, of d] d False other
      by (subst dll_cong [of _ _ "nnext s" _ "nprev s"]) auto
  qed (use f in simp)
next
  fix c d assume "c \<in> set ((kids(p := [])) d)"
  then have "c \<in> set (kids d)" by (auto split: if_splits)
  then show "n_parent (ramfs_nodes (upd_node p f s) c) = d \<and> c \<noteq> d \<and> c \<noteq> sb_root_node (upd_node p f s)"
    using ramfs_relD(6,7,8) [OF rel, of c d] p(1) by auto
qed (use rel p ramfs_relD [OF rel] in \<open>auto simp: allocated_def nnext_def nprev_def\<close>)

lemma free_node_rel:
  assumes rel: "ramfs_rel kids s" and p: "p \<in> set (kids d)"
  shows "ramfs_rel (kids(d := remove1 p (kids d), p := [])) (ramfs_free_node p s)"
proof -
  define s0 where "s0 = (if n_data (ramfs_nodes s p) \<noteq> NULL
     then upd_node p (\<lambda>n. n\<lparr>n_data := NULL\<rparr>) (s\<lparr>ramfs_data_used := ramfs_data_used s - n_size (ramfs_nodes s p)\<rparr>) else s)"
  have f0: "n_parent (ramfs_nodes s0 x) = n_parent (ramfs_nodes s x)" "n_children (ramfs_nodes s0 x) = n_children (ramfs_nodes s x)"
    "nnext s0 = nnext s" "nprev s0 = nprev s" "allocated s0 = allocated s" "ramfs_node_count s0 = ramfs_node_count s"
    "sb_root_node s0 = sb_root_node s" for x
    by (auto simp: s0_def nnext_def nprev_def allocated_def fun_eq_iff)
  have rel0: "ramfs_rel kids s0" using rel by (simp add: ramfs_rel_def f0)
  have par: "n_parent (ramfs_nodes s0 p) = d" using ramfs_relD(6) [OF rel p] f0 by simp
  have d: "d \<noteq> NULL" "d \<noteq> p"
    using ramfs_rel_parent [OF rel p] allocated_nonnull ramfs_relD(7) [OF rel p] by auto
  have fr: "ramfs_free_node p s = upd_node p (\<lambda>n. n\<lparr>n_parent := NULL, n_children := NULL, n_next := NULL, n_prev := NULL\<rparr>)
      (drop_child d p s0)"
    using par d unfolding ramfs_free_node_def s0_def [symmetric] drop_child_def Let_def by (simp add: detach_fields)
  let ?k = "kids(d := remove1 p (kids d))"
  have "distinct (kids d)" using dll_distinct [OF ramfs_relD(3) [OF rel ramfs_rel_parent [OF rel p]]] .
  then have "\<forall>d'. p \<notin> set (?k d')" using kids_disjoint [OF rel p] by auto
  moreover have "p \<noteq> sb_root_node (drop_child d p s0)" using ramfs_relD(8) [OF rel p] f0 by (simp add: drop_child_fields)
  ultimately show ?thesis unfolding fr by (intro upd_node_rel drop_child_rel [OF rel0 p]) simp_all
qed

lemma free_node_root_rel:
  assumes rel: "ramfs_rel kids s" and e: "kids (sb_root_node s) = []"
  shows "ramfs_rel kids (ramfs_free_node (sb_root_node s) s)"
proof -
  let ?r = "sb_root_node s" and ?s' = "ramfs_free_node (sb_root_node s) s"
  have c: "n_children (ramfs_nodes s ?r) = NULL" using ramfs_relD(3) [OF rel ramfs_relD(2) [OF rel]] e by simp
  have R: "n_next (ramfs_nodes s ?r) = NULL" "n_prev (ramfs_nodes s ?r) = NULL" "n_parent (ramfs_nodes s ?r) = NULL"
    using ramfs_relD(9-11) [OF rel] by (simp_all add: nnext_def nprev_def)
  have f: "nnext ?s' = nnext s" "nprev ?s' = nprev s" "allocated ?s' = allocated s" "ramfs_node_count ?s' = ramfs_node_count s"
    "sb_root_node ?s' = ?r" "n_parent (ramfs_nodes ?s' x) = n_parent (ramfs_nodes s x)"
    "n_children (ramfs_nodes ?s' x) = n_children (ramfs_nodes s x)" for x
    using R c by (auto simp: ramfs_free_node_def Let_def unlink_node_def nset_defs allocated_def fun_eq_iff)
  show ?thesis using rel by (simp add: ramfs_rel_def f)
qed

section \<open>Walking paths\<close>

text \<open>A node is in the tree when it is the root or in the list of some directory.\<close>

definition in_tree :: "(u32 \<Rightarrow> u32 list) \<Rightarrow> 'a ramfs_state_scheme \<Rightarrow> u32 \<Rightarrow> bool" where
  "in_tree kids s p \<longleftrightarrow> p = sb_root_node s \<or> (\<exists>d. p \<in> set (kids d))"

lemma in_tree_allocated: "ramfs_rel kids s \<Longrightarrow> in_tree kids s p \<Longrightarrow> p \<in> allocated s"
  using ramfs_relD(2,5) by (fastforce simp: in_tree_def)

lemma find_child_in_tree:
  assumes rel: "ramfs_rel kids s" and t: "in_tree kids s node"
  obtains "ramfs_find_child node name s = Some NULL"
  | c where "ramfs_find_child node name s = Some c" "c \<noteq> NULL" "in_tree kids s c" "c \<in> set (kids node)" "name_of s c = name"
proof -
  have f: "ramfs_find_child node name s = Some (child_named s (kids node) name)"
    using ramfs_find_child_rel [OF rel in_tree_allocated [OF rel t]] .
  show ?thesis
  proof (cases rule: child_named_cases [OF rel, of node name])
    case 1 then show ?thesis using f that(1) by simp
  next
    case 2 then show ?thesis using f by (intro that(2)) (auto simp: in_tree_def)
  qed
qed

lemma lookup_walk_rel:
  assumes rel: "ramfs_rel kids s" and "in_tree kids s node"
  shows "\<exists>res. lookup_walk node p s = Some res \<and> (\<forall>n. res = Some n \<longrightarrow> in_tree kids s n)"
  using assms(2)
proof (induction "length p" arbitrary: node p rule: less_induct)
  case less
  show ?case
  proof (cases "p = [] \<or> comp_of p = []")
    case True then show ?thesis using less.prems by (subst lookup_walk.simps) simp
  next
    case False
    show ?thesis
    proof (cases rule: find_child_in_tree [OF rel less.prems, of "comp_name p"])
      case 1 then show ?thesis using False by (subst lookup_walk.simps) simp
    next
      case (2 c)
      then show ?thesis using False less.hyps [of "next_comp p" c] length_next_comp [of p]
        by (subst lookup_walk.simps) simp
    qed
  qed
qed

lemma last_walk_rel:
  assumes rel: "ramfs_rel kids s" and "in_tree kids s node"
  shows "\<exists>res. last_walk node p s = Some res
     \<and> (\<forall>n nm. res = Some (n, nm) \<longrightarrow> (\<exists>d. n \<in> set (kids d)) \<and> name_of s n = nm)"
  using assms(2)
proof (induction "length p" arbitrary: node p rule: less_induct)
  case less
  show ?case
  proof (cases "p = [] \<or> comp_of p = []")
    case True then show ?thesis by (subst last_walk.simps) simp
  next
    case False
    show ?thesis
    proof (cases rule: find_child_in_tree [OF rel less.prems, of "comp_name p"])
      case 1 then show ?thesis using False by (subst last_walk.simps) simp
    next
      case (2 c)
      then show ?thesis using False less.hyps [of "next_comp p" c] length_next_comp [of p]
        by (subst last_walk.simps) auto
    qed
  qed
qed

lemma resolve_walk_rel:
  assumes rel: "ramfs_rel kids s" and "in_tree kids s node"
  shows "\<exists>d nm. resolve_walk node p s = Some (d, nm) \<and> (d \<noteq> NULL \<longrightarrow> in_tree kids s d)
     \<and> (\<forall>n. nm = Some n \<longrightarrow> (\<exists>c\<in>set (kids d). name_of s c = n))"
  using assms(2)
proof (induction "length p" arbitrary: node p rule: less_induct)
  case less
  show ?case
  proof (cases "p = [] \<or> comp_of p = []")
    case True then show ?thesis using less.prems by (subst resolve_walk.simps) simp
  next
    case False
    show ?thesis
    proof (cases rule: find_child_in_tree [OF rel less.prems, of "comp_name p"])
      case 1 then show ?thesis using False by (subst resolve_walk.simps) simp
    next
      case (2 c)
      then show ?thesis using False less.hyps [of "next_comp p" c] length_next_comp [of p] less.prems
        by (subst resolve_walk.simps) (auto simp: local_name_def)
    qed
  qed
qed

text \<open>Creating a child.\<close>

lemma create_child_rel:
  fixes name :: "u8 list" and mode :: u32
  assumes rel: "ramfs_rel kids s" and d: "d \<in> allocated s" and al: "ramfs_alloc_node s = (p, s1)" "p \<noteq> NULL"
  defines "s2 \<equiv> link_child d p name mode s1"
  shows "ramfs_rel (kids(d := p # kids d)) s2" "p \<notin> allocated s" "allocated s2 = insert p (allocated s)"
    "sb_root_node s2 = sb_root_node s" "open_files s2 = open_files s" "heap_files s2 = heap_files s" "mem s2 = mem s"
    "\<forall>x. x \<noteq> p \<longrightarrow> name_of s2 x = name_of s x \<and> n_mode (ramfs_nodes s2 x) = n_mode (ramfs_nodes s x)"
    "n_mode (ramfs_nodes s2 p) = mode" "name_of s2 p = arr_str (arr_strncpy (arr_zero 256) name 255)"
    "ramfs_node_count s2 = ramfs_node_count s + 1"
proof -
  obtain F: "p \<notin> allocated s" "allocated s1 = insert p (allocated s)"
    "ramfs_nodes s1 = (ramfs_nodes s)(p := ramfs_node_zero)" "ramfs_node_count s1 = ramfs_node_count s + 1"
    "sb_root_node s1 = sb_root_node s" "ramfs_rel kids s1" "mem s1 = mem s" "open_files s1 = open_files s"
    "heap_files s1 = heap_files s"
    by (cases rule: alloc_node_cases [OF rel]) (use al in auto)
  have p: "p \<in> allocated s1" "\<forall>d. p \<notin> set (kids d)" "p \<noteq> sb_root_node s1" "nprev s1 p = NULL" "p \<noteq> d" "d \<in> allocated s1"
    using F ramfs_relD(2,5) [OF rel] d by (auto simp: nprev_def ramfs_node_zero_def)
  have "n_children (ramfs_nodes s1 d) \<noteq> p"
    using ramfs_relD(3) [OF rel d] ramfs_relD(5) [OF rel, of d] F(1,3) p(5) al(2)
    by (cases "kids d") auto
  note new = link_child_new [OF p(5) this, of name mode]
  show "ramfs_rel (kids(d := p # kids d)) s2" unfolding s2_def by (rule link_child_rel [OF F(6) p(1-5)]) (rule p(6))
  show "p \<notin> allocated s" by (rule F(1))
  show "allocated s2 = insert p (allocated s)" "sb_root_node s2 = sb_root_node s" "open_files s2 = open_files s"
    "heap_files s2 = heap_files s" "mem s2 = mem s" "ramfs_node_count s2 = ramfs_node_count s + 1"
    using F by (simp_all add: s2_def)
  show "\<forall>x. x \<noteq> p \<longrightarrow> name_of s2 x = name_of s x \<and> n_mode (ramfs_nodes s2 x) = n_mode (ramfs_nodes s x)"
    using link_child_other [of _ p d name mode s1] p(5) F(3) by (simp add: s2_def name_of_def)
  show "n_mode (ramfs_nodes s2 p) = mode" "name_of s2 p = arr_str (arr_strncpy (arr_zero 256) name 255)"
    using new F(3) by (simp_all add: s2_def name_of_def ramfs_node_zero_def)
qed


lemma open_walk_rel:
  assumes "ramfs_rel kids s" "in_tree kids s node" "root = sb_root_node s"
  shows "\<exists>res s' kids'. open_walk node p flags root s = Some (res, s') \<and> ramfs_rel kids' s'
     \<and> (\<forall>n. res = Some n \<longrightarrow> in_tree kids' s' n)"
  using assms
proof (induction "length p" arbitrary: node p s kids rule: less_induct)
  case less
  note rel = less.prems(1)
  have root: "root \<in> allocated s" "root \<noteq> NULL" using ramfs_relD(2) [OF rel] less.prems(3) allocated_nonnull by auto
  show ?case
  proof (cases "p = [] \<or> comp_of p = []")
    case True then show ?thesis using less.prems by (subst open_walk.simps) auto
  next
    case False
    then have ln: "length (next_comp p) < length p" using length_next_comp by blast
    show ?thesis
    proof (cases rule: find_child_in_tree [OF rel less.prems(2), of "comp_name p"])
      case 1
      obtain q s1 where al: "ramfs_alloc_node s = (q, s1)" by fastforce
      consider "flags AND O_CREAT = 0" | "flags AND O_CREAT \<noteq> 0" "q = NULL" | "flags AND O_CREAT \<noteq> 0" "q \<noteq> NULL" by blast
      then show ?thesis
      proof cases
        case 1 then show ?thesis using False \<open>ramfs_find_child node (comp_name p) s = Some NULL\<close> rel
          by (subst open_walk.simps) auto
      next
        case 2
        have "s1 = s" by (cases rule: alloc_node_cases [OF rel]) (use al 2 in auto)
        then show ?thesis using 2 False al rel \<open>ramfs_find_child node (comp_name p) s = Some NULL\<close>
          by (subst open_walk.simps) auto
      next
        case 3
        let ?s2 = "link_child root q (comp_name p) (S_IFREG OR 0x1A4) s1"
        note C = create_child_rel(1,4) [OF rel root(1) al 3(2), of "comp_name p" "S_IFREG OR 0x1A4"]
        have t: "in_tree (kids(root := q # kids root)) ?s2 q" by (auto simp: in_tree_def)
        have "open_walk node p flags root s = open_walk q (next_comp p) flags root ?s2"
          using False 3 al \<open>ramfs_find_child node (comp_name p) s = Some NULL\<close> root(2)
          by (subst open_walk.simps) (simp add: Let_def)
        then show ?thesis using less.hyps [OF ln C(1) t] C(2) less.prems(3) by simp
      qed
    next
      case (2 c)
      then have "open_walk node p flags root s = open_walk c (next_comp p) flags root s"
        using False by (subst open_walk.simps) (simp add: Let_def)
      then show ?thesis using less.hyps [OF ln rel 2(3) less.prems(3)] by simp
    qed
  qed
qed

lemma mkdir_walk_rel:
  assumes "ramfs_rel kids s" "in_tree kids s node"
  shows "\<exists>res s' kids'. mkdir_walk node p nm s = Some (res, s') \<and> ramfs_rel kids' s'
     \<and> (\<forall>n nm'. res = Some (n, nm') \<longrightarrow> in_tree kids' s' n \<and> (nm \<noteq> None \<or> p \<noteq> [] \<and> comp_of p \<noteq> [] \<longrightarrow> nm' \<noteq> None))"
  using assms
proof (induction "length p" arbitrary: node p s kids nm rule: less_induct)
  case less
  note rel = less.prems(1)
  show ?case
  proof (cases "p = [] \<or> comp_of p = []")
    case True then show ?thesis using less.prems by (subst mkdir_walk.simps) auto
  next
    case False
    then have ln: "length (next_comp p) < length p" using length_next_comp by blast
    show ?thesis
    proof (cases rule: find_child_in_tree [OF rel less.prems(2), of "comp_name p"])
      case 1
      obtain q s1 where al: "ramfs_alloc_node s = (q, s1)" by fastforce
      show ?thesis
      proof (cases "q = NULL")
        case True
        have "s1 = s" by (cases rule: alloc_node_cases [OF rel]) (use al True in auto)
        then show ?thesis using True False al rel 1 by (subst mkdir_walk.simps) auto
      next
        case q: False
        let ?s2 = "link_child node q (comp_name p) (S_IFDIR OR 0x1ED) s1"
        note C = create_child_rel(1,4) [OF rel in_tree_allocated [OF rel less.prems(2)] al q, of "comp_name p" "S_IFDIR OR 0x1ED"]
        have t: "in_tree (kids(node := q # kids node)) ?s2 q" by (auto simp: in_tree_def)
        have "mkdir_walk node p nm s = mkdir_walk q (next_comp p) (Some (comp_name p)) ?s2"
          using False q al 1 by (subst mkdir_walk.simps) (simp add: Let_def)
        then show ?thesis using less.hyps [OF ln C(1) t, of "Some (comp_name p)"] by fastforce
      qed
    next
      case (2 c)
      then have "mkdir_walk node p nm s = mkdir_walk c (next_comp p) (Some (comp_name p)) s"
        using False by (subst mkdir_walk.simps) (simp add: Let_def)
      then show ?thesis using less.hyps [OF ln rel 2(3), of "Some (comp_name p)"] by fastforce
    qed
  qed
qed

section \<open>Every operation keeps the directory structure\<close>

definition ramfs_wf :: "'a ramfs_state_scheme \<Rightarrow> bool" where
  "ramfs_wf s \<longleftrightarrow> (\<exists>kids. ramfs_rel kids s)"

lemma upd_node_data_rel:
  assumes "\<And>n. n_next (f n) = n_next n" "\<And>n. n_prev (f n) = n_prev n"
    "\<And>n. n_children (f n) = n_children n" "\<And>n. n_parent (f n) = n_parent n"
  shows "ramfs_rel kids (upd_node p f s) = ramfs_rel kids s"
proof -
  have "nnext (upd_node p f s) = nnext s" "nprev (upd_node p f s) = nprev s" "allocated (upd_node p f s) = allocated s"
    "n_children (ramfs_nodes (upd_node p f s) x) = n_children (ramfs_nodes s x)"
    "n_parent (ramfs_nodes (upd_node p f s) x) = n_parent (ramfs_nodes s x)" for x
    using assms by (auto simp: nnext_def nprev_def fun_eq_iff allocated_def)
  then show ?thesis by (simp add: ramfs_rel_def)
qed

lemma ramfs_rel_data [simp]:
  "ramfs_rel kids (upd_node p (\<lambda>n. n\<lparr>n_size := z\<rparr>) s) = ramfs_rel kids s"
  "ramfs_rel kids (upd_node p (\<lambda>n. n\<lparr>n_data := z\<rparr>) s) = ramfs_rel kids s"
  "ramfs_rel kids (upd_file r g s) = ramfs_rel kids s"
  "ramfs_rel kids (s\<lparr>mem := m\<rparr>) = ramfs_rel kids s" "ramfs_rel kids (s\<lparr>ramfs_data_used := u\<rparr>) = ramfs_rel kids s"
  by (auto simp: upd_node_data_rel elim: ramfs_rel_cong)

lemma reserve_data_rel:
  "reserve_data pool node offset count s = Some s' \<Longrightarrow> ramfs_rel kids s \<Longrightarrow> ramfs_rel kids s'"
  by (auto simp: reserve_data_def Let_def split: if_splits)

lemma data_ops_rel:
  assumes rel: "ramfs_rel kids s"
  shows "ramfs_read r buf count s = Some (v, s') \<Longrightarrow> ramfs_rel kids s'"
    "ramfs_write pool r buf count s = Some (v, s') \<Longrightarrow> ramfs_rel kids s'"
    "ramfs_lseek r off wh s = Some (v, s') \<Longrightarrow> ramfs_rel kids s'"
    "ramfs_pread r buf count off s = Some (v, s') \<Longrightarrow> ramfs_rel kids s'"
    "ramfs_pwrite pool r buf count off s = Some (v, s') \<Longrightarrow> ramfs_rel kids s'"
    "ramfs_readdir r ent s = Some (v, ent', s') \<Longrightarrow> ramfs_rel kids s'"
  using rel
  by (auto simp: ramfs_read_def ramfs_write_def ramfs_lseek_def ramfs_pread_def ramfs_pwrite_def ramfs_readdir_def Let_def
      dest: reserve_data_rel split: bind_splits if_splits option.splits)

lemma root_in_tree [simp]: "in_tree kids s (sb_root_node s)"
  by (simp add: in_tree_def)

lemma ramfs_open_rel:
  assumes rel: "ramfs_rel kids s" and "ramfs_open r path flags s = Some (v, s')"
  shows "ramfs_wf s'"
proof -
  obtain res t kids' where w: "open_walk (sb_root_node s) (skip_slashes path) flags (sb_root_node s) s = Some (res, t)"
    "ramfs_rel kids' t"
    using open_walk_rel [OF rel root_in_tree refl, of "skip_slashes path" flags] by blast
  have "ramfs_rel kids' (upd_file r g t)" for g by (rule ramfs_rel_cong [OF w(2)]) simp_all
  then show ?thesis using assms(2) w
    by (auto simp: ramfs_open_def ramfs_sb_root_def ramfs_wf_def split: bind_splits if_splits option.splits)
qed

lemma ramfs_mkdir_rel:
  assumes rel: "ramfs_rel kids s" and m: "ramfs_mkdir r path mode s = Some (v, s')"
  shows "ramfs_wf s'"
proof -
  obtain res t kids' where w: "mkdir_walk (sb_root_node s) (skip_slashes path) None s = Some (res, t)"
    "ramfs_rel kids' t" "\<forall>n nm'. res = Some (n, nm') \<longrightarrow> in_tree kids' t n"
    using mkdir_walk_rel [OF rel root_in_tree, of "skip_slashes path" None] by blast
  show ?thesis
  proof (cases res)
    case None
    then show ?thesis using m w by (auto simp: ramfs_mkdir_def ramfs_sb_root_def ramfs_wf_def split: bind_splits if_splits)
  next
    case (Some nn)
    obtain node nm where nn: "nn = (node, nm)" by fastforce
    then have al: "node \<in> allocated t" using w Some in_tree_allocated by blast
    obtain q t1 where q: "ramfs_alloc_node t = (q, t1)" by fastforce
    have "ramfs_wf (link_child node q nm' md t1)" if "q \<noteq> NULL" for nm' md
      using create_child_rel(1) [OF w(2) al q that] unfolding ramfs_wf_def by blast
    moreover have "ramfs_wf t" using w(2) by (auto simp: ramfs_wf_def)
    moreover have "ramfs_wf t1" if "q = NULL"
      by (cases rule: alloc_node_cases [OF w(2)]) (use q that w(2) in \<open>auto simp: ramfs_wf_def\<close>)
    ultimately show ?thesis using m w(1) Some nn q
      by (auto simp: ramfs_mkdir_def ramfs_sb_root_def split: bind_splits if_splits)
  qed
qed

lemma ramfs_rmdir_rel:
  assumes rel: "ramfs_rel kids s" and m: "ramfs_rmdir r path s = Some (v, s')"
  shows "ramfs_wf s'"
proof -
  obtain res where w: "lookup_walk (sb_root_node s) (skip_slashes path) s = Some res"
    "\<forall>n. res = Some n \<longrightarrow> in_tree kids s n"
    using lookup_walk_rel [OF rel root_in_tree] by blast
  have "ramfs_wf (ramfs_free_node n s)" if r: "res = Some n" "n_children (ramfs_nodes s n) = NULL" for n
  proof (cases "n = sb_root_node s")
    case True
    then have "kids n = []" using ramfs_relD(3) [OF rel ramfs_relD(2) [OF rel]] r(2) by (cases "kids n") auto
    then show ?thesis using free_node_root_rel [OF rel] True by (auto simp: ramfs_wf_def)
  next
    case False
    then obtain d where "n \<in> set (kids d)" using w(2) r(1) unfolding in_tree_def by blast
    then show ?thesis using free_node_rel [OF rel] by (auto simp: ramfs_wf_def)
  qed
  then show ?thesis using m w rel
    by (auto simp: ramfs_rmdir_def ramfs_sb_root_def ramfs_wf_def split: bind_splits if_splits option.splits)
qed

lemma ramfs_unlink_rel:
  assumes rel: "ramfs_rel kids s" and m: "ramfs_unlink r path s = Some (v, s')"
  shows "ramfs_wf s'"
proof -
  obtain res where w: "last_walk (sb_root_node s) (skip_slashes path) s = Some res"
    "\<forall>n nm. res = Some (n, nm) \<longrightarrow> (\<exists>d. n \<in> set (kids d))"
    using last_walk_rel [OF rel root_in_tree] by blast
  have "ramfs_wf (ramfs_free_node n s)" if "res = Some (n, nm)" for n nm
    using that w(2) free_node_rel [OF rel] by (auto simp: ramfs_wf_def)
  then show ?thesis using m w rel
    by (auto simp: ramfs_unlink_def ramfs_sb_root_def ramfs_wf_def split: bind_splits if_splits option.splits)
qed


text \<open>Renaming.  When the directory of the old node was the file that the rename replaces, the old node is
  in no list any more and only neighbours outside all lists are touched.\<close>

lemma drop_orphan_rel:
  assumes rel: "ramfs_rel kids s" and p: "\<forall>d. p \<notin> set (kids d)" "n_children (ramfs_nodes s d) \<noteq> p"
    and nb: "\<forall>d. nprev s p \<notin> set (kids d) \<and> nnext s p \<notin> set (kids d)"
      "nprev s p \<noteq> sb_root_node s" "nnext s p \<noteq> sb_root_node s" "nprev s p \<noteq> p"
  shows "ramfs_rel kids (drop_child d p s)"
proof -
  have dc: "n_children (ramfs_nodes (drop_child d p s) x) = n_children (ramfs_nodes s x)" for x
    using p(2) by (auto simp: drop_child_fields)
  have other: "nnext (drop_child d p s) x = nnext s x" "nprev (drop_child d p s) x = nprev s x"
    if "x \<in> set (kids d') \<or> x = sb_root_node s" for x d'
    using detach_other [of x s p] nb that by (auto simp: drop_child_fields)
  have "dll (nnext (drop_child d p s)) (nprev (drop_child d p s)) NULL (n_children (ramfs_nodes s x)) (kids x)
      = dll (nnext s) (nprev s) NULL (n_children (ramfs_nodes s x)) (kids x)" for x
    by (rule dll_cong) (use other in auto)
  then show ?thesis using rel other [of "sb_root_node s"]
    by (simp add: ramfs_rel_def dc drop_child_fields(1,7,8,12))
qed

lemma free_node_fields:
  assumes "x \<noteq> p"
  shows "n_parent (ramfs_nodes (ramfs_free_node p s) x) = n_parent (ramfs_nodes s x)"
    "n_name (ramfs_nodes (ramfs_free_node p s) x) = n_name (ramfs_nodes s x)"
    "n_mode (ramfs_nodes (ramfs_free_node p s) x) = n_mode (ramfs_nodes s x)"
  using assms by (auto simp: ramfs_free_node_def Let_def detach_fields)

lemma free_node_frame [simp]:
  "sb_root_node (ramfs_free_node p s) = sb_root_node s" "ramfs_node_count (ramfs_free_node p s) = ramfs_node_count s"
  "allocated (ramfs_free_node p s) = allocated s" "mem (ramfs_free_node p s) = mem s"
  "open_files (ramfs_free_node p s) = open_files s" "heap_files (ramfs_free_node p s) = heap_files s"
  by (auto simp: ramfs_free_node_def Let_def detach_fields allocated_def)

lemma free_node_self: "n_children (ramfs_nodes (ramfs_free_node p s) p) = NULL"
  by (simp add: ramfs_free_node_def Let_def)

lemma free_node_links:
  assumes "x \<noteq> p" "x \<noteq> nprev s p" "x \<noteq> nnext s p" "p \<noteq> nprev s p"
  shows "nnext (ramfs_free_node p s) x = nnext s x" "nprev (ramfs_free_node p s) x = nprev s x"
proof -
  define s0 where "s0 = (if n_data (ramfs_nodes s p) \<noteq> NULL
     then upd_node p (\<lambda>n. n\<lparr>n_data := NULL\<rparr>) (s\<lparr>ramfs_data_used := ramfs_data_used s - n_size (ramfs_nodes s p)\<rparr>) else s)"
  have n0: "nnext s0 = nnext s" "nprev s0 = nprev s" by (auto simp: s0_def nnext_def nprev_def fun_eq_iff)
  have "nnext (ramfs_free_node p s) x = nnext (detach p s0) x" "nprev (ramfs_free_node p s) x = nprev (detach p s0) x"
    using assms(1) unfolding ramfs_free_node_def s0_def [symmetric] Let_def by (auto simp: nnext_def nprev_def)
  then show "nnext (ramfs_free_node p s) x = nnext s x" "nprev (ramfs_free_node p s) x = nprev s x"
    using detach_other [of x s0 p] assms(2-4) n0 by simp_all
qed

text \<open>Replacing an entry: free it, then take \<open>p\<close> out of the directory it is in.\<close>

lemma free_then_unlink_rel:
  assumes rel: "ramfs_rel kids s" and e: "e \<in> set (kids np)" and p: "p \<in> set (kids d)" and ne: "e \<noteq> p"
  defines "t \<equiv> unlink_child p (ramfs_free_node e s)"
  shows "\<exists>kids'. ramfs_rel kids' t \<and> (\<forall>x. p \<notin> set (kids' x))"
proof -
  let ?s1 = "ramfs_free_node e s" and ?k1 = "kids(np := remove1 e (kids np), e := [])"
  note rel1 = free_node_rel [OF rel e]
  have d: "d \<noteq> NULL" using ramfs_rel_parent [OF rel p] allocated_nonnull by blast
  have "n_parent (ramfs_nodes ?s1 p) = d" using free_node_fields(1) [of p e s] ne ramfs_relD(6) [OF rel p] by simp
  then have t: "t = drop_child d p ?s1" using unlink_child_drop [of ?s1 p] d by (simp add: t_def)
  have dist: "distinct (kids x)" for x
    using dll_distinct [OF ramfs_relD(3) [OF rel]] ramfs_relD(4) [OF rel, of x] by (cases "x \<in> allocated s") auto
  have uniq: "x = d" if "p \<in> set (kids x)" for x using kids_disjoint [OF rel that p] .
  show ?thesis
  proof (cases "d = e")
    case False
    then have p1: "p \<in> set (?k1 d)" using p ne by auto
    let ?k2 = "?k1(d := remove1 p (?k1 d))"
    have "p \<notin> set (?k2 x)" for x
      using uniq dist [of d] False by (auto simp: set_remove1_eq distinct_remove1 dist split: if_splits)
    then show ?thesis using drop_child_rel [OF rel1 p1] t by blast
  next
    case True
    have chain: "dll (nnext s) (nprev s) NULL (n_children (ramfs_nodes s e)) (kids e)"
      using ramfs_relD(3) [OF rel ramfs_rel_parent [OF rel p]] True by simp
    note N = chain_neighbours [OF chain, of p] chain_neighbours [OF ramfs_relD(3) [OF rel ramfs_rel_parent [OF rel e]] e]
    have enp: "e \<noteq> np" using ramfs_relD(7) [OF rel e] .
    have notnp: "x \<notin> set (kids np)" if "x \<in> set (kids e)" for x using kids_disjoint [OF rel that] enp by blast
    have nn: "NULL \<notin> set (kids x)" for x using ramfs_relD(5) [OF rel] allocated_nonnull by blast
    have pn: "p \<noteq> nprev s e" "p \<noteq> nnext s e" using N(4,5) notnp [of p] p True nn by auto
    have links: "nnext ?s1 p = nnext s p" "nprev ?s1 p = nprev s p"
      using free_node_links [of p e s] ne pn N(6) by simp_all
    have out: "\<forall>x. y \<notin> set (?k1 x)" if "y \<in> set (kids e) \<or> y = NULL" for y
      using that kids_disjoint [OF rel, of y e] nn notnp [of y] by (auto simp: set_remove1_eq dist split: if_splits)
    have inS: "nprev s p \<in> set (kids e) \<or> nprev s p = NULL" "nnext s p \<in> set (kids e) \<or> nnext s p = NULL"
      using N(1,2) p True by auto
    have nr: "y \<noteq> sb_root_node s" if "y \<in> set (kids e) \<or> y = NULL" for y
      using that ramfs_relD(8) [OF rel] ramfs_relD(2) [OF rel] allocated_nonnull by blast
    have "n_children (ramfs_nodes ?s1 d) \<noteq> p" using free_node_self [of e s] True p nn by auto
    then have "ramfs_rel ?k1 (drop_child d p ?s1)"
      using drop_orphan_rel [OF rel1, of p d] out [of p] p True links out [OF inS(1)] out [OF inS(2)]
        nr [OF inS(1)] nr [OF inS(2)] N(3) by simp
    then show ?thesis using t out [of p] p True by blast
  qed
qed

lemma rename_tail:
  fixes nb :: "u8 list" and s :: "'a ramfs_state_scheme"
  assumes "p \<noteq> d"
  defines "s1 \<equiv> upd_node p (\<lambda>n. n\<lparr>n_parent := d\<rparr>) (upd_node p (\<lambda>n. n\<lparr>n_name := arr_strncpy (n_name n) nb 255\<rparr>) s)"
  defines "s2 \<equiv> upd_node p (\<lambda>n. n\<lparr>n_next := n_children (ramfs_nodes s1 d), n_prev := NULL\<rparr>) s1"
  defines "h \<equiv> n_children (ramfs_nodes s2 d)"
  shows "upd_node d (\<lambda>n. n\<lparr>n_children := p\<rparr>) (if h \<noteq> NULL then upd_node h (\<lambda>n. n\<lparr>n_prev := p\<rparr>) s2 else s2)
     = push_child d p (\<lambda>n. n\<lparr>n_name := arr_strncpy (n_name n) nb 255, n_parent := d\<rparr>) s"
proof -
  have h: "n_children (ramfs_nodes s1 d) = n_children (ramfs_nodes s d)" "h = n_children (ramfs_nodes s d)"
    using assms(1) by (simp_all add: h_def s2_def s1_def)
  have "s2 = set_nprev p NULL (set_nnext p (n_children (ramfs_nodes s d))
     (upd_node p (\<lambda>n. n\<lparr>n_name := arr_strncpy (n_name n) nb 255, n_parent := d\<rparr>) s))"
    unfolding s2_def h by (simp add: s1_def set_nnext_def set_nprev_def upd_node_comp)
  then show ?thesis unfolding push_child_def Let_def h(2) by (simp add: set_nprev_def cong: if_cong)
qed

lemma unlink_child_frame [simp]:
  "sb_root_node (unlink_child p s) = sb_root_node s" "allocated (unlink_child p s) = allocated s"
  by (simp_all add: unlink_child_def Let_def detach_fields allocated_def)

lemma rename_core_rel:
  assumes rel: "ramfs_rel kids s" and p: "p \<in> set (kids d)" and np: "in_tree kids s np" "np \<noteq> p"
    and e: "e = NULL \<or> e \<in> set (kids np) \<and> e \<noteq> p"
  defines "t \<equiv> unlink_child p (if e \<noteq> NULL then ramfs_free_node e s else s)"
  shows "ramfs_wf (push_child np p (\<lambda>n. n\<lparr>n_name := nm n, n_parent := np\<rparr>) t)"
proof -
  have "\<exists>kids'. ramfs_rel kids' t \<and> (\<forall>x. p \<notin> set (kids' x))"
  proof (cases "e = NULL")
    case False
    then show ?thesis using free_then_unlink_rel [OF rel _ p] e by (auto simp: t_def)
  next
    case True
    have d: "d \<noteq> NULL" using ramfs_rel_parent [OF rel p] allocated_nonnull by blast
    have t: "t = drop_child d p s"
      using unlink_child_drop [of s p] ramfs_relD(6) [OF rel p] d True by (simp add: t_def)
    have "distinct (kids d)" using dll_distinct [OF ramfs_relD(3) [OF rel ramfs_rel_parent [OF rel p]]] .
    then have "\<forall>x. p \<notin> set ((kids(d := remove1 p (kids d))) x)"
      using kids_disjoint [OF rel _ p] by (auto simp: set_remove1_eq)
    then show ?thesis using drop_child_rel [OF rel p] t by blast
  qed
  then obtain kids' where r: "ramfs_rel kids' t" "\<forall>x. p \<notin> set (kids' x)" by blast
  have fr: "allocated t = allocated s" "sb_root_node t = sb_root_node s" by (simp_all add: t_def)
  have "ramfs_rel (kids'(np := p # kids' np)) (push_child np p (\<lambda>n. n\<lparr>n_name := nm n, n_parent := np\<rparr>) t)"
    by (rule push_child_rel [OF r(1) _ r(2)])
      (use fr ramfs_relD(5,8) [OF rel] p np in_tree_allocated [OF rel] in auto)
  then show ?thesis by (auto simp: ramfs_wf_def)
qed

lemma child_named_other:
  assumes rel: "ramfs_rel kids s" and p: "\<exists>d. p \<in> set (kids d)" "name_of s p = nm0"
    and ne: "\<not> (nm0 = nm \<and> np = n_parent (ramfs_nodes s p))"
  shows "child_named s (kids np) nm = NULL \<or> child_named s (kids np) nm \<in> set (kids np) \<and> child_named s (kids np) nm \<noteq> p"
  by (cases rule: child_named_cases [OF rel, of np nm]) (use p ne ramfs_relD(6) [OF rel] in auto)

lemma rename_move_rel:
  assumes rel: "ramfs_rel kids s" and p: "p \<in> set (kids d)" and np: "in_tree kids s np" "np \<noteq> p"
    and e: "e = NULL \<or> e \<in> set (kids np) \<and> e \<noteq> p"
  shows "ramfs_wf (rename_move p np nb e s)"
  unfolding rename_move_def Let_def rename_tail [OF np(2) [symmetric]]
  by (rule rename_core_rel [OF assms])

lemma ramfs_rename_rel:
  assumes rel: "ramfs_rel kids s" and m: "ramfs_rename old new s = Some (v, s')"
  shows "ramfs_wf s'"
proof -
  obtain res where w: "last_walk (sb_root_node s) (skip_slashes old) s = Some res"
    "\<forall>n nm. res = Some (n, nm) \<longrightarrow> (\<exists>d. n \<in> set (kids d)) \<and> name_of s n = nm"
    using last_walk_rel [OF rel root_in_tree] by blast
  obtain np nb where q: "ramfs_resolve_parent new s = Some (np, nb)" "np \<noteq> NULL \<longrightarrow> in_tree kids s np"
    using resolve_walk_rel [OF rel root_in_tree] unfolding ramfs_resolve_parent_def by blast
  have f: "ramfs_find_child np x s = Some (child_named s (kids np) x)" if "np \<noteq> NULL" for x
    using ramfs_find_child_rel [OF rel] in_tree_allocated [OF rel] q that by blast
  have move: "ramfs_wf (rename_move p np nb' (child_named s (kids np) nb') s)"
    if h: "res = Some (p, nm0)" "np \<noteq> NULL" "np \<noteq> p" "nm0 = nb' \<longrightarrow> np \<noteq> n_parent (ramfs_nodes s p)" for p nm0 nb'
  proof -
    obtain d where d: "p \<in> set (kids d)" using w(2) h(1) by blast
    have t: "in_tree kids s np" using q(2) h(2) by blast
    have "child_named s (kids np) nb' = NULL \<or> child_named s (kids np) nb' \<in> set (kids np) \<and> child_named s (kids np) nb' \<noteq> p"
      by (rule child_named_other [OF rel]) (use w(2) h in auto)
    then show ?thesis by (rule rename_move_rel [OF rel d t h(3)])
  qed
  have wf: "ramfs_wf s" using rel by (auto simp: ramfs_wf_def)
  note [simp] = w(1) q(1) f
  show ?thesis
  proof (cases "res = None \<or> np = NULL \<or> s' = s")
    case True
    then show ?thesis using m wf by (auto simp: ramfs_rename_def split: option.splits if_splits prod.splits)
  next
    case False
    then obtain p nm0 where p: "res = Some (p, nm0)" by fastforce
    obtain nb' where nb: "nb = Some nb'" "local_name nm0 = Some nm0"
      using m False p by (cases nb) (auto simp: ramfs_rename_def local_name_def split: if_splits bind_splits)
    have "np \<noteq> p" "nm0 = nb' \<longrightarrow> np \<noteq> n_parent (ramfs_nodes s p)"
      "s' = rename_move p np nb' (child_named s (kids np) nb') s"
      using m False p nb by (simp_all add: ramfs_rename_def split: if_splits)
    then show ?thesis using move [OF p] False by simp
  qed
qed

text \<open>The arguments with which a call of the file system is defined: the file is an open one whose private
  data is what the operation expects, a new directory has a name, and the names of a rename fit the local
  buffers with their terminator.\<close>

definition node_file :: "file_ref \<Rightarrow> 'a ramfs_state_scheme \<Rightarrow> bool" where
  "node_file r s = (case get_file_obj r s of None \<Rightarrow> False
     | Some f \<Rightarrow> (case f_private f of PNull \<Rightarrow> True | PRamNode n \<Rightarrow> n \<in> allocated s | _ \<Rightarrow> False))"

definition sb_file :: "file_ref \<Rightarrow> 'a ramfs_state_scheme \<Rightarrow> bool" where
  "sb_file r s = (case get_file_obj r s of None \<Rightarrow> False | Some f \<Rightarrow> f_private f = PNull \<or> f_private f = PRamSb)"

definition has_comp :: "u8 list \<Rightarrow> bool" where
  "has_comp path \<longleftrightarrow> skip_slashes path \<noteq> []"

fun request_ok :: "ramfs_request \<Rightarrow> 'a ramfs_state_scheme \<Rightarrow> bool" where
  "request_ok (ROpen r path flags) s = sb_file r s"
| "request_ok (RClose r) s = True"
| "request_ok (RRead r buf count) s = node_file r s"
| "request_ok (RWrite r buf count) s = node_file r s"
| "request_ok (RLseek r offset whence) s = node_file r s"
| "request_ok (RPread r buf count offset) s = node_file r s"
| "request_ok (RPwrite r buf count offset) s = node_file r s"
| "request_ok (RReaddir r ent) s = node_file r s"
| "request_ok (RMkdir r path mode) s = (sb_file r s \<and> has_comp path)"
| "request_ok (RRmdir r path) s = sb_file r s"
| "request_ok (RUnlink r path) s = sb_file r s"
| "request_ok (RRename old new) s = (has_comp new \<and> length old < 255 \<and> length new < 255)"

lemma skip_slashes_comp: "skip_slashes p \<noteq> [] \<Longrightarrow> comp_of (skip_slashes p) \<noteq> []"
  using hd_dropWhile [of "\<lambda>c. c = 47" p] by (cases "skip_slashes p") (auto simp: skip_slashes_def comp_of_def)

lemma length_skip_slashes: "length (skip_slashes p) \<le> length p"
  by (simp add: skip_slashes_def length_dropWhile_le)

lemma length_comp_name: "length (comp_name p) \<le> length p"
  using length_takeWhile_le [of "\<lambda>b. b \<noteq> SLASH" p] by (simp add: comp_name_def comp_of_def)

lemma last_walk_name_length:
  assumes "last_walk node p s = Some (Some (n, nm))" shows "length nm \<le> length p"
  using assms
proof (induction "length p" arbitrary: node p rule: less_induct)
  case less
  have c: "p \<noteq> []" "comp_of p \<noteq> []" using less.prems by (auto simp: last_walk.simps [of node p] split: if_splits)
  have l: "length (next_comp p) < length p" using length_next_comp [OF c(2)] .
  show ?case using less.prems c length_comp_name [of p] less.hyps [OF l] l
    by (auto simp: last_walk.simps [of node p] split: bind_splits if_splits) (meson le_trans less_imp_le_nat)
qed

lemma resolve_walk_name:
  assumes "resolve_walk node p s = Some (d, nm)" "d \<noteq> NULL" "p \<noteq> []" "comp_of p \<noteq> []" "length p < 255"
  shows "nm \<noteq> None"
  using assms
proof (induction "length p" arbitrary: node p rule: less_induct)
  case less
  have l: "length (next_comp p) < length p" using length_next_comp [OF less.prems(4)] .
  have "comp_of (next_comp p) \<noteq> []" if "next_comp p \<noteq> []"
    using skip_slashes_comp that unfolding next_comp_def .
  then show ?case using less.prems length_comp_name [of p] less.hyps [OF l] l
    by (auto simp: resolve_walk.simps [of node p] local_name_def split: bind_splits if_splits)
qed

lemma file_ops_return:
  assumes "node_file r s"
  shows "ramfs_read r buf count s \<noteq> None" "ramfs_write pool r buf count s \<noteq> None"
    "ramfs_lseek r off wh s \<noteq> None" "ramfs_pread r buf count off s \<noteq> None"
    "ramfs_pwrite pool r buf count off s \<noteq> None" "ramfs_readdir r ent s \<noteq> None"
  using assms
  by (auto simp: node_file_def ramfs_read_def ramfs_write_def ramfs_lseek_def ramfs_pread_def ramfs_pwrite_def
      ramfs_readdir_def readdir_climb.simps file_node_def Let_def split: option.splits priv.splits)

lemma sb_file_root: "sb_file r s \<Longrightarrow> ramfs_sb_root r s = Some (sb_root_node s)"
  by (auto simp: sb_file_def ramfs_sb_root_def split: option.splits)

lemma ramfs_mkdir_returns:
  assumes rel: "ramfs_rel kids s" and r: "sb_file r s" "has_comp path"
  shows "ramfs_mkdir r path mode s \<noteq> None"
proof -
  have c: "skip_slashes path \<noteq> []" "comp_of (skip_slashes path) \<noteq> []"
    using r(2) skip_slashes_comp by (auto simp: has_comp_def)
  obtain res t kids' where w: "mkdir_walk (sb_root_node s) (skip_slashes path) None s = Some (res, t)"
    "ramfs_rel kids' t" "\<forall>n nm'. res = Some (n, nm') \<longrightarrow> in_tree kids' t n \<and> nm' \<noteq> None"
    using mkdir_walk_rel [OF rel root_in_tree, of "skip_slashes path" None] c by blast
  have "in_tree kids' t n \<Longrightarrow> ramfs_find_child n x t = Some (child_named t (kids' n) x)" for n x
    using ramfs_find_child_rel [OF w(2) in_tree_allocated [OF w(2)]] .
  then show ?thesis using w(1,3) sb_file_root [OF r(1)]
    by (auto simp: ramfs_mkdir_def split: option.splits prod.splits bind_splits)
qed

lemma ramfs_rename_returns:
  assumes rel: "ramfs_rel kids s" and n: "has_comp new" "length old < 255" "length new < 255"
  shows "ramfs_rename old new s \<noteq> None"
proof -
  obtain res where w: "last_walk (sb_root_node s) (skip_slashes old) s = Some res"
    using last_walk_rel [OF rel root_in_tree] by blast
  obtain np nb where q: "ramfs_resolve_parent new s = Some (np, nb)" "np \<noteq> NULL \<longrightarrow> in_tree kids s np"
    using resolve_walk_rel [OF rel root_in_tree] unfolding ramfs_resolve_parent_def by blast
  have f: "ramfs_find_child np x s = Some (child_named s (kids np) x)" if "np \<noteq> NULL" for x
    using ramfs_find_child_rel [OF rel] in_tree_allocated [OF rel] q that by blast
  have nb: "\<exists>y. nb = Some y" if "np \<noteq> NULL"
    using resolve_walk_name [OF q(1) [unfolded ramfs_resolve_parent_def] that] n(1,3)
      skip_slashes_comp [of new] length_skip_slashes [of new] by (auto simp: has_comp_def)
  have ol: "local_name nm = Some nm" if "res = Some (p, nm)" for p nm
    using last_walk_name_length [of "sb_root_node s" "skip_slashes old" s p nm] w that n(2)
      length_skip_slashes [of old] by (auto simp: local_name_def)
  show ?thesis
  proof (cases "res = None \<or> np = NULL")
    case True
    then show ?thesis using w q(1) by (auto simp: ramfs_rename_def split: option.splits prod.splits)
  next
    case False
    then obtain p nm y where "res = Some (p, nm)" "nb = Some y" using nb by (cases res) auto
    then show ?thesis using False w q(1) f ol by (simp add: ramfs_rename_def split: if_splits)
  qed
qed


section \<open>A mounted file system\<close>

definition file_boot :: "dstate \<Rightarrow> file_state" where
  "file_boot s = dstate.extend s (file_state.fields (replicate 16 mount_zero) 0 (replicate 128 file_zero) (arr_zero 256)
     (\<lambda>_. \<lparr>sb_fops = RamfsFops, sb_private = PNull, sb_root = NULL\<rparr>) (\<lambda>_. file_zero))"

text \<open>The nodes that \<^verbatim>\<open>ramfs_mount\<close> makes: the root and its entry \<^verbatim>\<open>bin\<close>; slot 0 of the open files is in use
  for a file of the file system.\<close>

definition demo_nodes :: "u32 \<Rightarrow> ramfs_node" where
  "demo_nodes = (\<lambda>_. ramfs_node_zero)
     (1 := ramfs_node_zero\<lparr>n_name := bytes ''/'' @ arr_zero 255, n_mode := S_IFDIR OR 0x1ED, n_children := 2\<rparr>,
      2 := ramfs_node_zero\<lparr>n_name := bytes ''bin'' @ arr_zero 253, n_mode := S_IFDIR OR 0x1ED, n_parent := 1\<rparr>)"

definition demo_ramfs :: "ramfs_state" where
  "demo_ramfs = file_state.extend (file_boot demo_board) (ramfs_state.fields demo_nodes 2 0 1 1 0)"

lemma demo_ramfs_simps [simp]:
  "ramfs_nodes demo_ramfs = demo_nodes" "ramfs_node_count demo_ramfs = 2" "sb_root_node demo_ramfs = 1"
  "ramfs_data_used demo_ramfs = 0" "open_files demo_ramfs = replicate 128 file_zero" "mem demo_ramfs = (\<lambda>_. 0)"
  by (simp_all add: demo_ramfs_def file_boot_def demo_board_def mstate_boot_def dstate.defs file_state.defs
      ramfs_state.defs mstate.defs kstate.defs)

lemma allocated_demo: "allocated demo_ramfs = {1, 2}"
proof -
  have "x = 1 \<or> x = 2" if "x \<noteq> NULL" "x \<le> (2 :: u32)" for x
  proof -
    have "unat x \<le> 2" "unat x \<noteq> 0" using that by (simp_all add: word_le_nat_alt unat_eq_0)
    then have "unat x = unat (1 :: u32) \<or> unat x = unat (2 :: u32)" by auto
    then show ?thesis by (simp add: word_unat_eq_iff)
  qed
  then show ?thesis by (auto simp: allocated_def)
qed

lemma demo_ramfs_rel: "ramfs_rel (\<lambda>d. if d = 1 then [2] else []) demo_ramfs"
  by (rule ramfs_relI)
    (auto simp: allocated_demo demo_nodes_def nnext_def nprev_def ramfs_node_zero_def split: if_splits)


section \<open>What is written is read back\<close>

lemma memcpy_range:
  assumes "\<And>i j. i < unat n \<Longrightarrow> j < unat n \<Longrightarrow> d + of_nat i \<noteq> s + of_nat j"
  shows "mem_read (memcpy d s n m) d (unat n) = mem_read m s (unat n)"
  using memcpy_at [of n d s m] assms by (auto simp: mem_read_def unat_of_nat unat_u32_less intro!: map_cong)

lemma mem_read_slice: "i + k \<le> n \<Longrightarrow> mem_read m (a + of_nat i) k = take k (drop i (mem_read m a n))"
  by (rule nth_equalityI) (simp_all add: length_mem_read nth_mem_read add.assoc)


definition demo_file :: "u32 \<Rightarrow> ramfs_state" where
  "demo_file sz = demo_ramfs\<lparr>open_files := [file_zero\<lparr>f_private := PRamNode 2, f_offset := sz\<rparr>]\<rparr>"

lemma less_2_cases: "i < unat (2 :: u32) \<Longrightarrow> i = 0 \<or> i = 1"
  by auto


text \<open>C40: A write that extends a file reserves room for the new bytes only, although it copies the old ones
  as well: after it the contents of the file run as many bytes past the used part of the pool as the file had
  before.  The next file that is written starts inside them.\<close>

theorem ramfs_extend_overlaps_pool:
  assumes f: "get_file_obj r s = Some f" "f_private f = PRamNode n" "n \<noteq> NULL"
    and n: "n_data (ramfs_nodes s n) \<noteq> NULL" "f_offset f = n_size (ramfs_nodes s n)"
      "unat (n_size (ramfs_nodes s n)) + unat count < 2 ^ 32" "0 < count"
    and room: "ramfs_data_used s + count \<le> RAMFS_MAX_DATA"
  shows "\<exists>s'. ramfs_write pool r buf count s = Some (sint count, s')
    \<and> n_data (ramfs_nodes s' n) = pool + ramfs_data_used s
    \<and> n_size (ramfs_nodes s' n) = n_size (ramfs_nodes s n) + count
    \<and> n_data (ramfs_nodes s' n) + n_size (ramfs_nodes s' n) = pool + ramfs_data_used s' + n_size (ramfs_nodes s n)"
proof -
  let ?z = "n_size (ramfs_nodes s n)" and ?d = "pool + ramfs_data_used s"
  have gt: "?z + count > ?z"
    using n(3,4) unat_add_lem [of ?z count] by (simp add: word_less_nat_alt)
  define s1 where "s1 = (upd_node n (\<lambda>n. n\<lparr>n_data := ?d\<rparr>)
     (s\<lparr>mem := memcpy ?d (n_data (ramfs_nodes s n)) ?z (mem s)\<rparr>))\<lparr>ramfs_data_used := ramfs_data_used s + count\<rparr>"
  have r1: "reserve_data pool n (f_offset f) count s = Some s1"
    using n(1,2) gt room by (simp add: reserve_data_def s1_def Let_def)
  show ?thesis using f r1 gt n(2)
    by (simp add: ramfs_write_def file_node_def s1_def Let_def algebra_simps)
qed

theorem ramfs_extend_overlaps_pool_witness:
  "\<exists>s'. ramfs_write 0x3FC90000 (OpenFile 0) 0x100 4
       ((demo_file 8)\<lparr>ramfs_nodes := demo_nodes(2 := (demo_nodes 2)\<lparr>n_data := 0x3FC90000, n_size := 8\<rparr>), ramfs_data_used := 8\<rparr>)
       = Some (4, s')
    \<and> n_data (ramfs_nodes s' 2) + n_size (ramfs_nodes s' 2) = 0x3FC90000 + ramfs_data_used s' + 8"
  using ramfs_extend_overlaps_pool [of "OpenFile 0" "(demo_file 8)\<lparr>ramfs_nodes := demo_nodes(2 := (demo_nodes 2)\<lparr>n_data := 0x3FC90000, n_size := 8\<rparr>), ramfs_data_used := 8\<rparr>" "file_zero\<lparr>f_private := PRamNode 2, f_offset := 8\<rparr>" 2 4 "0x3FC90000" "0x100"]
  by (auto simp: demo_file_def)

end
