(* ===== verification/Devfs.thy ===== *)
theory Devfs
  imports Ramfs
begin

text \<open>
  \<^verbatim>\<open>src/fs/devfs/devfs.c\<close> and \<^verbatim>\<open>src/fs/flashfs/flashfs.c\<close>.  The device operations read and write the byte
  memory and the device registers.  The function pointers of \<^verbatim>\<open>null_fops\<close> and its siblings are null until
  \<^verbatim>\<open>devfs_mount\<close> sets them: \<open>dev_ops_set\<close>.  \<^verbatim>\<open>flashfs_sb\<close> is in memory at the address \<open>fsb\<close>; the locals whose
  address the code passes on are at \<open>loc\<close>.
\<close>

unbundle bit_operations_syntax

section \<open>Character devices\<close>

record devfs_node =
  dn_name :: "u8 list"
  dn_fops :: fops
  dn_private :: priv
  dn_mode :: u32

definition devfs_node_zero :: devfs_node where
  "devfs_node_zero = \<lparr>dn_name = arr_zero 32, dn_fops = NullFops, dn_private = PNull, dn_mode = 0\<rparr>"

record devfs_state = ramfs_state +
  devfs_devices :: "devfs_node list"
  devfs_count :: u32
  devfs_idx :: u32
  dev_ops_set :: bool
  flashfs_mounted :: int

abbreviation (input) DEVFS_MAX_DEVICES :: u32 where "DEVFS_MAX_DEVICES \<equiv> 32"
abbreviation (input) DT_CHR :: u8 where "DT_CHR \<equiv> 2"

definition null_read :: "u32 \<Rightarrow> u32 \<Rightarrow> 'a devfs_state_scheme \<Rightarrow> (int \<times> 'a devfs_state_scheme) option" where
  "null_read buf count s = Some (0, s)"

definition null_write :: "u32 \<Rightarrow> u32 \<Rightarrow> 'a devfs_state_scheme \<Rightarrow> (int \<times> 'a devfs_state_scheme) option" where
  "null_write buf count s = Some (sint count, s)"

definition zero_read :: "u32 \<Rightarrow> u32 \<Rightarrow> 'a devfs_state_scheme \<Rightarrow> (int \<times> 'a devfs_state_scheme) option" where
  "zero_read buf count s = Some (sint count, s\<lparr>mem := memset buf 0 count (mem s)\<rparr>)"

definition zero_write :: "u32 \<Rightarrow> u32 \<Rightarrow> 'a devfs_state_scheme \<Rightarrow> (int \<times> 'a devfs_state_scheme) option" where
  "zero_write buf count s = Some (sint count, s)"

fun random_fill :: "nat \<Rightarrow> u32 \<Rightarrow> u32 \<Rightarrow> mem \<Rightarrow> mem" where
  "random_fill 0 dst v m = m"
| "random_fill (Suc n) dst v m = random_fill n (dst + 4) v (st32 m dst v)"

definition random_read :: "u32 \<Rightarrow> u32 \<Rightarrow> 'a devfs_state_scheme \<Rightarrow> (int \<times> 'a devfs_state_scheme) option" where
  "random_read buf count s =
     Some (sint count, s\<lparr>mem := random_fill (unat (count div 4)) buf (tick_count (cpu0 s) * 1664525 + 1013904223) (mem s)\<rparr>)"

fun uart_read_loop :: "nat \<Rightarrow> u32 \<Rightarrow> u32 \<Rightarrow> 'a devfs_state_scheme \<Rightarrow> u32 \<times> 'a devfs_state_scheme" where
  "uart_read_loop 0 dst rd s = (rd, s)"
| "uart_read_loop (Suc n) dst rd s =
     (let (c, s) = uart_getc s
      in if c < 0 then (rd, s)
         else let s = s\<lparr>mem := (mem s)(dst := word_of_int c)\<rparr>
              in if c = 10 then (rd + 1, s) else uart_read_loop n (dst + 1) (rd + 1) s)"

definition uart_read :: "u32 \<Rightarrow> u32 \<Rightarrow> 'a devfs_state_scheme \<Rightarrow> (int \<times> 'a devfs_state_scheme) option" where
  "uart_read buf count s = (let (rd, s) = uart_read_loop (unat count) buf 0 s in Some (sint rd, s))"

definition uart_write :: "u32 \<Rightarrow> u32 \<Rightarrow> 'a devfs_state_scheme \<Rightarrow> (int \<times> 'a devfs_state_scheme) option" where
  "uart_write buf count s = do {
     s \<leftarrow> put_all (mem_read (mem s) buf (unat count)) s;
     Some (sint count, s) }"

text \<open>The search loop of \<^verbatim>\<open>devfs_open\<close>.  For an empty rest of the path \<^verbatim>\<open>path + 1\<close> is past the terminator, in
  the part of the caller's buffer that nothing has written: the result is \<open>None\<close>.\<close>

fun find_device :: "nat \<Rightarrow> u8 list \<Rightarrow> devfs_node list \<Rightarrow> devfs_node option" where
  "find_device 0 name ds = None"
| "find_device (Suc n) name ds =
     (case ds of [] \<Rightarrow> None | d # ds \<Rightarrow> if arr_str (dn_name d) = name then Some d else find_device n name ds)"

definition devfs_open :: "file_ref \<Rightarrow> u8 list \<Rightarrow> u32 \<Rightarrow> 'a devfs_state_scheme \<Rightarrow> (int \<times> 'a devfs_state_scheme) option" where
  "devfs_open r path flags s =
     (if devfs_count s = 0 then Some (-1, s)
      else if path = [] then None
      else case find_device (unat (devfs_count s)) (tl path) (devfs_devices s) of
        None \<Rightarrow> Some (-1, s)
      | Some d \<Rightarrow> Some (0, upd_file r (\<lambda>f. f\<lparr>f_fops := Some (dn_fops d), f_private := dn_private d\<rparr>) s))"

definition devfs_readdir :: "dirent \<Rightarrow> 'a devfs_state_scheme \<Rightarrow> (int \<times> dirent \<times> 'a devfs_state_scheme) option" where
  "devfs_readdir ent s =
     (if devfs_idx s \<ge> devfs_count s then Some (0, ent, s\<lparr>devfs_idx := 0\<rparr>)
      else let d = devfs_devices s ! unat (devfs_idx s)
           in Some (1, ent\<lparr>d_name := arr_strncpy (d_name ent) (arr_str (dn_name d)) 255, d_type := DT_CHR\<rparr>,
                    s\<lparr>devfs_idx := devfs_idx s + 1\<rparr>))"

definition devfs_register :: "u8 list \<Rightarrow> fops \<Rightarrow> priv \<Rightarrow> u32 \<Rightarrow> 'a devfs_state_scheme \<Rightarrow> 'a devfs_state_scheme" where
  "devfs_register name fo data mode s =
     (if devfs_count s \<ge> DEVFS_MAX_DEVICES then s
      else let i = unat (devfs_count s); d = devfs_devices s ! i
           in s\<lparr>devfs_devices := (devfs_devices s)[i := d\<lparr>dn_name := arr_strncpy (dn_name d) name 31, dn_fops := fo,
                  dn_private := data, dn_mode := mode\<rparr>],
                devfs_count := devfs_count s + 1\<rparr>)"

definition register_devices :: "'a devfs_state_scheme \<Rightarrow> 'a devfs_state_scheme" where
  "register_devices s =
     (let s = s\<lparr>dev_ops_set := True\<rparr>;
          s = devfs_register (bytes ''null'') NullFops PNull (S_IFCHR OR 0x1B6) s;
          s = devfs_register (bytes ''zero'') ZeroFops PNull (S_IFCHR OR 0x1B6) s;
          s = devfs_register (bytes ''random'') RandomFops PNull (S_IFCHR OR 0x124) s;
          s = devfs_register (bytes ''uart0'') UartFops PNull (S_IFCHR OR 0x1B6) s
      in devfs_register (bytes ''console'') UartFops PNull (S_IFCHR OR 0x1B6) s)"

definition devfs_mount ::
  "('a devfs_state_ext ramfs_state_ext file_state_ext dstate_ext) switch \<Rightarrow> u8 list \<Rightarrow> 'a devfs_state_scheme \<Rightarrow>
   (int \<times> 'a devfs_state_scheme) option" where
  "devfs_mount sw target s = vfs_register_fs sw target DevfsFops PNull (register_devices s)"


section \<open>The flash file system\<close>

abbreviation (input) FLASH_BLOCK_SIZE :: u32 where "FLASH_BLOCK_SIZE \<equiv> 4096"
abbreviation (input) FLASHFS_MAGIC :: u32 where "FLASHFS_MAGIC \<equiv> 0x46534146"
abbreviation (input) FLASHFS_VERSION :: u32 where "FLASHFS_VERSION \<equiv> 1"
abbreviation (input) FLASHFS_INODE_TABLE_OFFSET :: u32 where "FLASHFS_INODE_TABLE_OFFSET \<equiv> 1"
abbreviation (input) FLASHFS_BITMAP_OFFSET :: u32 where "FLASHFS_BITMAP_OFFSET \<equiv> 33"
abbreviation (input) FLASHFS_DATA_OFFSET :: u32 where "FLASHFS_DATA_OFFSET \<equiv> 34"
abbreviation (input) FLASHFS_SB_SIZE :: u32 where "FLASHFS_SB_SIZE \<equiv> 40"
abbreviation (input) FLASHFS_INODE_BYTES :: u32 where "FLASHFS_INODE_BYTES \<equiv> 72"

type_synonym 'a dev_switch = "('a devfs_state_ext ramfs_state_ext file_state_ext dstate_ext) switch"

text \<open>The fields of the superblock in memory: \<^verbatim>\<open>struct flashfs_superblock\<close>, then \<^verbatim>\<open>bitmap\<close>.\<close>

record flashfs_superblock =
  fs_magic :: u32
  fs_version :: u32
  fs_block_size :: u32
  fs_total_blocks :: u32
  fs_inode_count :: u32
  fs_inode_table_blocks :: u32
  fs_bitmap_blocks :: u32
  fs_data_offset :: u32
  fs_free_blocks :: u32
  fs_free_inodes :: u32

definition load_sb :: "mem \<Rightarrow> u32 \<Rightarrow> flashfs_superblock" where
  "load_sb m a = \<lparr>fs_magic = ld32 m a, fs_version = ld32 m (a + 4), fs_block_size = ld32 m (a + 8),
     fs_total_blocks = ld32 m (a + 12), fs_inode_count = ld32 m (a + 16), fs_inode_table_blocks = ld32 m (a + 20),
     fs_bitmap_blocks = ld32 m (a + 24), fs_data_offset = ld32 m (a + 28), fs_free_blocks = ld32 m (a + 32),
     fs_free_inodes = ld32 m (a + 36)\<rparr>"

definition store_sb :: "mem \<Rightarrow> u32 \<Rightarrow> flashfs_superblock \<Rightarrow> mem" where
  "store_sb m a b =
     (let m = st32 m a (fs_magic b);
          m = st32 m (a + 4) (fs_version b);
          m = st32 m (a + 8) (fs_block_size b);
          m = st32 m (a + 12) (fs_total_blocks b);
          m = st32 m (a + 16) (fs_inode_count b);
          m = st32 m (a + 20) (fs_inode_table_blocks b);
          m = st32 m (a + 24) (fs_bitmap_blocks b);
          m = st32 m (a + 28) (fs_data_offset b);
          m = st32 m (a + 32) (fs_free_blocks b)
      in st32 m (a + 36) (fs_free_inodes b))"

definition block_to_addr :: "u32 \<Rightarrow> u32" where
  "block_to_addr block = block * FLASH_BLOCK_SIZE"

definition flashfs_read_block :: "u32 \<Rightarrow> u32 \<Rightarrow> 'a dstate_scheme \<Rightarrow> (int \<times> 'a dstate_scheme) option" where
  "flashfs_read_block block buf s = flash_read (block * FLASH_BLOCK_SIZE) buf FLASH_BLOCK_SIZE s"

definition flashfs_write_block :: "u32 \<Rightarrow> u32 \<Rightarrow> 'a dstate_scheme \<Rightarrow> (int \<times> 'a dstate_scheme) option" where
  "flashfs_write_block block buf s = flash_write (block * FLASH_BLOCK_SIZE) buf FLASH_BLOCK_SIZE s"

definition flashfs_read_superblock :: "u32 \<Rightarrow> 'a dstate_scheme \<Rightarrow> (int \<times> 'a dstate_scheme) option" where
  "flashfs_read_superblock fsb s = do {
     (v, s) \<leftarrow> flash_read 0 fsb FLASHFS_SB_SIZE s;
     if v \<noteq> 0 then Some (-1, s)
     else if fs_magic (load_sb (mem s) fsb) \<noteq> FLASHFS_MAGIC then Some (-1, s)
     else if fs_version (load_sb (mem s) fsb) \<noteq> FLASHFS_VERSION then Some (-1, s)
     else Some (0, s) }"

definition flashfs_write_superblock :: "u32 \<Rightarrow> 'a dstate_scheme \<Rightarrow> (int \<times> 'a dstate_scheme) option" where
  "flashfs_write_superblock fsb s = flash_write 0 fsb FLASHFS_SB_SIZE s"

definition fs_bitmap :: "u32 \<Rightarrow> 'a dstate_scheme \<Rightarrow> u32" where
  "fs_bitmap fsb s = ld32 (mem s) (fsb + 40)"

partial_function (option) read_bitmap_loop ::
  "'a dev_switch \<Rightarrow> u32 \<Rightarrow> u32 \<Rightarrow> 'a devfs_state_scheme \<Rightarrow> (int \<times> 'a devfs_state_scheme) option" where
  "read_bitmap_loop sw fsb i s =
     (if i < fs_bitmap_blocks (load_sb (mem s) fsb)
      then do {
        (v, s) \<leftarrow> flashfs_read_block (FLASHFS_BITMAP_OFFSET + i) (fs_bitmap fsb s + i * FLASH_BLOCK_SIZE) s;
        if v \<noteq> 0 then do { s \<leftarrow> kfree sw (fs_bitmap fsb s) s; Some (-1, s) }
        else read_bitmap_loop sw fsb (i + 1) s }
      else Some (0, s))"

definition flashfs_read_bitmap :: "'a dev_switch \<Rightarrow> u32 \<Rightarrow> 'a devfs_state_scheme \<Rightarrow> (int \<times> 'a devfs_state_scheme) option" where
  "flashfs_read_bitmap sw fsb s = do {
     (b, s) \<leftarrow> kmalloc sw (fs_total_blocks (load_sb (mem s) fsb) div 8) s;
     let s = s\<lparr>mem := st32 (mem s) (fsb + 40) b\<rparr>;
     if b = NULL then Some (-1, s) else read_bitmap_loop sw fsb 0 s }"

partial_function (option) write_bitmap_loop ::
  "u32 \<Rightarrow> u32 \<Rightarrow> 'a devfs_state_scheme \<Rightarrow> (int \<times> 'a devfs_state_scheme) option" where
  "write_bitmap_loop fsb i s =
     (if i < fs_bitmap_blocks (load_sb (mem s) fsb)
      then do {
        (v, s) \<leftarrow> flashfs_write_block (FLASHFS_BITMAP_OFFSET + i) (fs_bitmap fsb s + i * FLASH_BLOCK_SIZE) s;
        if v \<noteq> 0 then Some (-1, s) else write_bitmap_loop fsb (i + 1) s }
      else Some (0, s))"

definition flashfs_write_bitmap :: "u32 \<Rightarrow> 'a devfs_state_scheme \<Rightarrow> (int \<times> 'a devfs_state_scheme) option" where
  "flashfs_write_bitmap fsb s = write_bitmap_loop fsb 0 s"

text \<open>\<open>inode\<close> is the address of the inode to store.\<close>

definition flashfs_write_inode ::
  "'a dev_switch \<Rightarrow> u32 \<Rightarrow> u32 \<Rightarrow> u32 \<Rightarrow> 'a devfs_state_scheme \<Rightarrow> (int \<times> 'a devfs_state_scheme) option" where
  "flashfs_write_inode sw fsb ino inode s =
     (if ino = 0 \<or> ino \<ge> fs_inode_count (load_sb (mem s) fsb) then Some (-1, s)
      else do {
        let inodes_per_block = FLASH_BLOCK_SIZE div FLASHFS_INODE_BYTES;
        let block = FLASHFS_INODE_TABLE_OFFSET + ino div inodes_per_block;
        let index = ino mod inodes_per_block;
        (tbl, s) \<leftarrow> kmalloc sw FLASH_BLOCK_SIZE s;
        if tbl = NULL then Some (-1, s)
        else do {
          (v, s) \<leftarrow> flashfs_read_block block tbl s;
          if v \<noteq> 0 then do { s \<leftarrow> kfree sw tbl s; Some (-1, s) }
          else do {
            let s = s\<lparr>mem := memcpy (tbl + index * FLASHFS_INODE_BYTES) inode FLASHFS_INODE_BYTES (mem s)\<rparr>;
            (ret, s) \<leftarrow> flashfs_write_block block tbl s;
            s \<leftarrow> kfree sw tbl s;
            Some (ret, s) } } })"

fun set_bits :: "nat \<Rightarrow> nat \<Rightarrow> u32 \<Rightarrow> mem \<Rightarrow> mem" where
  "set_bits i 0 b m = m"
| "set_bits i (Suc n) b m =
     (let a = b + of_nat (i div 8) in set_bits (Suc i) n b (m(a := m a OR push_bit (i mod 8) 1)))"

definition flashfs_new_sb :: flashfs_superblock where
  "flashfs_new_sb = \<lparr>fs_magic = FLASHFS_MAGIC, fs_version = FLASHFS_VERSION, fs_block_size = FLASH_BLOCK_SIZE,
     fs_total_blocks = 2048, fs_inode_count = 1024, fs_inode_table_blocks = 32, fs_bitmap_blocks = 1,
     fs_data_offset = FLASHFS_DATA_OFFSET, fs_free_blocks = 2048 - FLASHFS_DATA_OFFSET, fs_free_inodes = 1023\<rparr>"

text \<open>\<open>loc\<close> is the address of the local \<^verbatim>\<open>sb\<close>, \<open>loc2\<close> that of \<^verbatim>\<open>root_inode\<close>.\<close>

definition flashfs_format ::
  "'a dev_switch \<Rightarrow> u32 \<Rightarrow> u32 \<Rightarrow> u32 \<Rightarrow> 'a devfs_state_scheme \<Rightarrow> (int \<times> 'a devfs_state_scheme) option" where
  "flashfs_format sw fsb loc loc2 s = do {
     let s = s\<lparr>mem := store_sb (mem s) loc flashfs_new_sb\<rparr>;
     (v, s) \<leftarrow> flash_write 0 loc FLASHFS_SB_SIZE s;
     if v \<noteq> 0 then Some (-1, s)
     else do {
       (bm, s) \<leftarrow> kzalloc sw 256 s;
       if bm = NULL then Some (-1, s)
       else do {
         let s = s\<lparr>mem := set_bits 0 (unat FLASHFS_DATA_OFFSET) bm (mem s)\<rparr>;
         (v, s) \<leftarrow> flash_write FLASH_BLOCK_SIZE bm FLASH_BLOCK_SIZE s;
         if v \<noteq> 0 then do { s \<leftarrow> kfree sw bm s; Some (-1, s) }
         else do {
           s \<leftarrow> kfree sw bm s;
           let m = memset loc2 0 FLASHFS_INODE_BYTES (mem s);
           let s = s\<lparr>mem := st16 (st16 m loc2 2) (loc2 + 2) 2\<rparr>;
           (v, s) \<leftarrow> flashfs_write_inode sw fsb 1 loc2 s;
           if v \<noteq> 0 then Some (-1, s) else Some (0, s) } } } }"

definition flashfs_mount ::
  "'a dev_switch \<Rightarrow> u32 \<Rightarrow> u8 list \<Rightarrow> 'a devfs_state_scheme \<Rightarrow> (int \<times> 'a devfs_state_scheme) option" where
  "flashfs_mount sw fsb target s = do {
     (v, s) \<leftarrow> flashfs_read_superblock fsb s;
     if v \<noteq> 0 then Some (-1, s)
     else do {
       (v, s) \<leftarrow> flashfs_read_bitmap sw fsb s;
       if v \<noteq> 0 then Some (-1, s)
       else vfs_register_fs sw target FlashfsFops PNull (s\<lparr>flashfs_mounted := 1\<rparr>) } }"

definition flashfs_unmount :: "'a dev_switch \<Rightarrow> u32 \<Rightarrow> 'a devfs_state_scheme \<Rightarrow> (int \<times> 'a devfs_state_scheme) option" where
  "flashfs_unmount sw fsb s = do {
     (v, s) \<leftarrow> flashfs_write_bitmap fsb s;
     (v, s) \<leftarrow> flashfs_write_superblock fsb s;
     s \<leftarrow> (if fs_bitmap fsb s \<noteq> NULL
           then do { s \<leftarrow> kfree sw (fs_bitmap fsb s) s; Some (s\<lparr>mem := st32 (mem s) (fsb + 40) NULL\<rparr>) }
           else Some s);
     Some (0, s\<lparr>flashfs_mounted := 0\<rparr>) }"

text \<open>The file operations of the flash file system are stubs.\<close>

definition flashfs_open :: "file_ref \<Rightarrow> u8 list \<Rightarrow> u32 \<Rightarrow> int" where "flashfs_open r path flags = 0"
definition flashfs_close :: "file_ref \<Rightarrow> int" where "flashfs_close r = 0"
definition flashfs_read :: "file_ref \<Rightarrow> u32 \<Rightarrow> u32 \<Rightarrow> int" where "flashfs_read r buf count = 0"
definition flashfs_write :: "file_ref \<Rightarrow> u32 \<Rightarrow> u32 \<Rightarrow> int" where "flashfs_write r buf count = 0"
definition flashfs_lseek :: "file_ref \<Rightarrow> u32 \<Rightarrow> int \<Rightarrow> int" where "flashfs_lseek r offset whence = 0"
definition flashfs_stat :: "file_ref \<Rightarrow> int" where "flashfs_stat r = 0"
definition flashfs_readdir :: "file_ref \<Rightarrow> int" where "flashfs_readdir r = 0"
definition flashfs_mkdir :: "file_ref \<Rightarrow> u8 list \<Rightarrow> u32 \<Rightarrow> int" where "flashfs_mkdir r path mode = -1"
definition flashfs_rmdir :: "file_ref \<Rightarrow> u8 list \<Rightarrow> int" where "flashfs_rmdir r path = -1"
definition flashfs_unlink :: "file_ref \<Rightarrow> u8 list \<Rightarrow> int" where "flashfs_unlink r path = -1"
definition flashfs_rename :: "u8 list \<Rightarrow> u8 list \<Rightarrow> int" where "flashfs_rename oldpath newpath = -1"

end
