(* ===== verification/Net.thy ===== *)
theory Net
  imports Devfs
begin

text \<open>
  \<^verbatim>\<open>src/kernel/net/net.c\<close>: packet buffers, interfaces, the loopback device, IPv4, ICMP, ARP and UDP input and
  output, and sockets.  Packet buffers, interfaces and sockets live in typed stores at the address the heap
  returns; packet bytes are in the byte memory.

  A packet that is looped back is processed inside the call that sends it, and may be looped back again.
  \<open>loopback_xmit n\<close> is the function with \<open>n\<close> the number of nested calls it may make; it gives \<open>None\<close> when that
  is not enough.  The protocol handlers take the transmit function as an argument.
\<close>

unbundle bit_operations_syntax

section \<open>State\<close>

record pbuf =
  pb_data :: u32
  pb_len :: u32
  pb_cap :: u32
  pb_head :: u32
  pb_next :: u32
  pb_iface :: u32
  pb_ref :: u8

definition pbuf_zero :: pbuf where
  "pbuf_zero = \<lparr>pb_data = NULL, pb_len = 0, pb_cap = 0, pb_head = NULL, pb_next = NULL, pb_iface = NULL, pb_ref = 0\<rparr>"

datatype xmit_fn = XNone | XLoopback | XWifi

record net_iface =
  if_name :: "u8 list"
  if_mac :: "u8 list"
  if_ip_addr :: u32
  if_netmask :: u32
  if_gateway :: u32
  if_mtu :: u16
  if_flags :: u8
  if_transmit :: xmit_fn

definition net_iface_zero :: net_iface where
  "net_iface_zero = \<lparr>if_name = arr_zero 16, if_mac = arr_zero 6, if_ip_addr = 0, if_netmask = 0, if_gateway = 0,
     if_mtu = 0, if_flags = 0, if_transmit = XNone\<rparr>"

record socket =
  so_domain :: int
  so_type :: int
  so_protocol :: int
  so_fd :: int
  so_proc :: u32
  so_local_port :: u16
  so_local_addr :: u32
  so_remote_port :: u16
  so_remote_addr :: u32
  so_bound :: u8
  so_connected :: u8
  so_rx_queue :: u32
  so_next :: u32
  so_rx_wait :: semaphore
  so_lock :: mutex
  so_ref_count :: int

definition socket_zero :: socket where
  "socket_zero = \<lparr>so_domain = 0, so_type = 0, so_protocol = 0, so_fd = 0, so_proc = NULL, so_local_port = 0,
     so_local_addr = 0, so_remote_port = 0, so_remote_addr = 0, so_bound = 0, so_connected = 0, so_rx_queue = NULL,
     so_next = NULL, so_rx_wait = \<lparr>sem_count = 0, sem_waiters = NULL\<rparr>, so_lock = mutex_zero, so_ref_count = 0\<rparr>"

record net_state = devfs_state +
  ifaces :: "u32 list"
  num_ifaces :: int
  iface_objs :: "u32 \<Rightarrow> net_iface"
  pbufs :: "u32 \<Rightarrow> pbuf"
  sock_objs :: "u32 \<Rightarrow> socket"
  sockets :: u32
  next_port :: int
  ip_id :: u16

type_synonym 'a net_switch = "('a net_state_ext devfs_state_ext ramfs_state_ext file_state_ext dstate_ext) switch"
type_synonym 'a xmit = "u32 \<Rightarrow> u32 \<Rightarrow> 'a net_state_scheme \<Rightarrow> (int \<times> 'a net_state_scheme) option"

definition upd_pbuf :: "u32 \<Rightarrow> (pbuf \<Rightarrow> pbuf) \<Rightarrow> 'a net_state_scheme \<Rightarrow> 'a net_state_scheme" where
  "upd_pbuf p f s = s\<lparr>pbufs := (pbufs s)(p := f (pbufs s p))\<rparr>"

definition upd_iface :: "u32 \<Rightarrow> (net_iface \<Rightarrow> net_iface) \<Rightarrow> 'a net_state_scheme \<Rightarrow> 'a net_state_scheme" where
  "upd_iface p f s = s\<lparr>iface_objs := (iface_objs s)(p := f (iface_objs s p))\<rparr>"

definition upd_sock :: "u32 \<Rightarrow> (socket \<Rightarrow> socket) \<Rightarrow> 'a net_state_scheme \<Rightarrow> 'a net_state_scheme" where
  "upd_sock p f s = s\<lparr>sock_objs := (sock_objs s)(p := f (sock_objs s p))\<rparr>"

definition poke :: "u32 \<Rightarrow> u8 \<Rightarrow> 'a mstate_scheme \<Rightarrow> 'a mstate_scheme" where
  "poke a v s = s\<lparr>mem := (mem s)(a := v)\<rparr>"

definition poke16 :: "u32 \<Rightarrow> u16 \<Rightarrow> 'a mstate_scheme \<Rightarrow> 'a mstate_scheme" where
  "poke16 a v s = s\<lparr>mem := st16 (mem s) a v\<rparr>"

definition poke32 :: "u32 \<Rightarrow> u32 \<Rightarrow> 'a mstate_scheme \<Rightarrow> 'a mstate_scheme" where
  "poke32 a v s = s\<lparr>mem := st32 (mem s) a v\<rparr>"

definition poke_list :: "u32 \<Rightarrow> u8 list \<Rightarrow> 'a mstate_scheme \<Rightarrow> 'a mstate_scheme" where
  "poke_list a vs s = s\<lparr>mem := mem_write (mem s) a vs\<rparr>"

abbreviation (input) ETH_HDR :: u32 where "ETH_HDR \<equiv> 14"
abbreviation (input) IPV4_HDR :: u32 where "IPV4_HDR \<equiv> 20"
abbreviation (input) UDP_HDR :: u32 where "UDP_HDR \<equiv> 8"
abbreviation (input) ICMP_HDR :: u32 where "ICMP_HDR \<equiv> 8"
abbreviation (input) ARP_HDR :: u32 where "ARP_HDR \<equiv> 28"
abbreviation (input) ETH_P_IP :: u16 where "ETH_P_IP \<equiv> 0x0800"
abbreviation (input) ETH_P_ARP :: u16 where "ETH_P_ARP \<equiv> 0x0806"
abbreviation (input) IP_PROTO_ICMP :: u8 where "IP_PROTO_ICMP \<equiv> 1"
abbreviation (input) IP_PROTO_UDP :: u8 where "IP_PROTO_UDP \<equiv> 17"
abbreviation (input) ICMP_ECHO_REQUEST :: u8 where "ICMP_ECHO_REQUEST \<equiv> 8"
abbreviation (input) ICMP_ECHO_REPLY :: u8 where "ICMP_ECHO_REPLY \<equiv> 0"
abbreviation (input) ARP_OP_REQUEST :: u16 where "ARP_OP_REQUEST \<equiv> 1"
abbreviation (input) ARP_OP_REPLY :: u16 where "ARP_OP_REPLY \<equiv> 2"
abbreviation (input) IFF_UP :: u8 where "IFF_UP \<equiv> 1"
abbreviation (input) IFF_LOOPBACK :: u8 where "IFF_LOOPBACK \<equiv> 2"
abbreviation (input) IFF_RUNNING :: u8 where "IFF_RUNNING \<equiv> 4"
abbreviation (input) NET_MAX_IFACES :: int where "NET_MAX_IFACES \<equiv> 8"
abbreviation (input) NET_MAX_PAYLOAD :: u32 where "NET_MAX_PAYLOAD \<equiv> 1500"


section \<open>Packet buffers\<close>

definition kzalloc_pbuf :: "'a net_switch \<Rightarrow> 'a net_state_scheme \<Rightarrow> (u32 \<times> 'a net_state_scheme) option" where
  "kzalloc_pbuf sw s =
     do { (p, s) \<leftarrow> kzalloc sw 28 s; Some (p, if p \<noteq> NULL then upd_pbuf p (\<lambda>_. pbuf_zero) s else s) }"

definition pbuf_alloc :: "'a net_switch \<Rightarrow> u32 \<Rightarrow> 'a net_state_scheme \<Rightarrow> (u32 \<times> 'a net_state_scheme) option" where
  "pbuf_alloc sw sz s = do {
     (p, s) \<leftarrow> kzalloc_pbuf sw s;
     if p = NULL then Some (NULL, s)
     else do {
       let total = sz + ETH_HDR + 4;
       (h, s) \<leftarrow> kmalloc sw total s;
       let s = upd_pbuf p (\<lambda>b. b\<lparr>pb_head := h\<rparr>) s;
       if h = NULL then do { s \<leftarrow> kfree sw p s; Some (NULL, s) }
       else Some (p, upd_pbuf p (\<lambda>b. b\<lparr>pb_data := pb_head b + ETH_HDR + 4, pb_len := 0, pb_cap := sz, pb_ref := 1\<rparr>) s) } }"

definition pbuf_free :: "'a net_switch \<Rightarrow> u32 \<Rightarrow> 'a net_state_scheme \<Rightarrow> 'a net_state_scheme option" where
  "pbuf_free sw p s =
     (if p = NULL then Some s
      else if pb_ref (pbufs s p) > 0
      then let s = upd_pbuf p (\<lambda>b. b\<lparr>pb_ref := pb_ref b - 1\<rparr>) s
           in if pb_ref (pbufs s p) = 0
              then do {
                s \<leftarrow> (if pb_head (pbufs s p) \<noteq> NULL then kfree sw (pb_head (pbufs s p)) s else Some s);
                kfree sw p s }
              else Some s
      else Some s)"

definition pbuf_prepend :: "u32 \<Rightarrow> u32 \<Rightarrow> 'a net_state_scheme \<Rightarrow> u32 \<times> 'a net_state_scheme" where
  "pbuf_prepend p sz s =
     (if p = NULL then (NULL, s)
      else let offset = pb_data (pbufs s p) - pb_head (pbufs s p)
           in if offset <s sz then (NULL, s)
              else (p, upd_pbuf p (\<lambda>b. b\<lparr>pb_data := pb_data b - sz, pb_len := pb_len b + sz\<rparr>) s))"

definition pbuf_append :: "u32 \<Rightarrow> u32 \<Rightarrow> 'a net_state_scheme \<Rightarrow> u32 \<times> 'a net_state_scheme" where
  "pbuf_append p sz s =
     (let b = pbufs s p
      in if p = NULL \<or> pb_data b + pb_len b + sz > pb_head b + pb_cap b + ETH_HDR + 4 then (NULL, s)
         else (p, upd_pbuf p (\<lambda>b. b\<lparr>pb_len := pb_len b + sz\<rparr>) s))"

definition pbuf_trim :: "u32 \<Rightarrow> u32 \<Rightarrow> 'a net_state_scheme \<Rightarrow> 'a net_state_scheme" where
  "pbuf_trim p new_len s =
     (if p = NULL \<or> new_len > pb_len (pbufs s p) then s else upd_pbuf p (\<lambda>b. b\<lparr>pb_len := new_len\<rparr>) s)"


section \<open>Interfaces\<close>

definition kzalloc_iface :: "'a net_switch \<Rightarrow> 'a net_state_scheme \<Rightarrow> (u32 \<times> 'a net_state_scheme) option" where
  "kzalloc_iface sw s =
     do { (p, s) \<leftarrow> kzalloc sw 56 s; Some (p, if p \<noteq> NULL then upd_iface p (\<lambda>_. net_iface_zero) s else s) }"

definition net_iface_create ::
  "'a net_switch \<Rightarrow> u8 list \<Rightarrow> u32 \<Rightarrow> u32 \<Rightarrow> u16 \<Rightarrow> 'a net_state_scheme \<Rightarrow> (u32 \<times> 'a net_state_scheme) option" where
  "net_iface_create sw name ip msk mtu s =
     (if num_ifaces s \<ge> NET_MAX_IFACES then Some (NULL, s)
      else do {
        (i, s) \<leftarrow> kzalloc_iface sw s;
        if i = NULL then Some (NULL, s)
        else do {
          let s = upd_iface i (\<lambda>n. n\<lparr>if_name := (arr_strncpy (if_name n) name 15)[15 := 0], if_ip_addr := ip,
                    if_netmask := msk, if_mtu := mtu, if_flags := 0\<rparr>) s;
          Some (i, s\<lparr>ifaces := (ifaces s)[nat (num_ifaces s) := i], num_ifaces := num_ifaces s + 1\<rparr>) } })"

definition net_iface_up :: "u32 \<Rightarrow> 'a net_state_scheme \<Rightarrow> 'a net_state_scheme" where
  "net_iface_up i s = (if i = NULL then s else upd_iface i (\<lambda>n. n\<lparr>if_flags := if_flags n OR (IFF_UP OR IFF_RUNNING)\<rparr>) s)"

definition net_iface_down :: "u32 \<Rightarrow> 'a net_state_scheme \<Rightarrow> 'a net_state_scheme" where
  "net_iface_down i s =
     (if i = NULL then s else upd_iface i (\<lambda>n. n\<lparr>if_flags := if_flags n AND NOT (IFF_UP OR IFF_RUNNING)\<rparr>) s)"

definition iface_list :: "'a net_state_scheme \<Rightarrow> u32 list" where
  "iface_list s = take (nat (num_ifaces s)) (ifaces s)"

definition net_iface_get_by_name :: "u8 list \<Rightarrow> 'a net_state_scheme \<Rightarrow> u32" where
  "net_iface_get_by_name name s =
     (case find (\<lambda>i. arr_str (if_name (iface_objs s i)) = name) (iface_list s) of None \<Rightarrow> NULL | Some i \<Rightarrow> i)"

definition net_iface_get_by_ip :: "u32 \<Rightarrow> 'a net_state_scheme \<Rightarrow> u32" where
  "net_iface_get_by_ip ip s =
     (case find (\<lambda>i. if_ip_addr (iface_objs s i) = ip) (iface_list s) of None \<Rightarrow> NULL | Some i \<Rightarrow> i)"

definition net_init :: "'a net_switch \<Rightarrow> 'a net_state_scheme \<Rightarrow> 'a net_state_scheme option" where
  "net_init sw s = do {
     (lo, s) \<leftarrow> net_iface_create sw (bytes ''lo'') 0x7F000001 0xFF000000 1536 s;
     let s = (if lo \<noteq> NULL
              then net_iface_up lo (upd_iface lo (\<lambda>n. n\<lparr>if_flags := if_flags n OR (IFF_LOOPBACK OR IFF_UP OR IFF_RUNNING),
                     if_mac := [0, 0, 0, 0, 0, 0], if_transmit := XLoopback\<rparr>) s)
              else s);
     Some (s\<lparr>arp_table := map (\<lambda>e. e\<lparr>ae_used := 0\<rparr>) (arp_table s)\<rparr>) }"


section \<open>Checksums\<close>

fun csum_loop :: "nat \<Rightarrow> u32 \<Rightarrow> u32 \<Rightarrow> mem \<Rightarrow> u32" where
  "csum_loop 0 data acc m = acc"
| "csum_loop (Suc 0) data acc m = acc + ucast (m data)"
| "csum_loop (Suc (Suc n)) data acc m = csum_loop n (data + 2) (acc + ucast (ld16 m data)) m"

function fold_sum :: "u32 \<Rightarrow> u32" where
  "fold_sum x = (if drop_bit 16 x \<noteq> 0 then fold_sum ((x AND 0xFFFF) + drop_bit 16 x) else x)"
  by pat_completeness auto

lemma unat_low16: "unat (x AND 0xFFFF) = unat (x :: u32) mod 65536"
proof -
  have "(0xFFFF :: u32) = mask 16" by (simp add: mask_eq_exp_minus_1)
  then have "x AND 0xFFFF = take_bit 16 x" by (simp add: take_bit_eq_mask)
  then show ?thesis by (simp add: take_bit_eq_mod unat_mod_distrib)
qed

lemma unat_high16: "unat (drop_bit 16 x) = unat (x :: u32) div 65536"
  by (simp add: drop_bit_eq_div unat_div_distrib)

lemma unat_fold_step: "unat ((x AND 0xFFFF) + drop_bit 16 x) = unat (x :: u32) mod 65536 + unat x div 65536"
proof -
  have "unat x div 65536 < 65536" using unat_u32_less [of x] by (simp add: div_less_iff_less_mult)
  moreover have "unat x mod 65536 < 65536" by simp
  ultimately have "unat (x AND 0xFFFF) + unat (drop_bit 16 x) < 2 ^ 32" by (simp add: unat_low16 unat_high16)
  then show ?thesis using unat_add_lem [of "x AND 0xFFFF" "drop_bit 16 x"] by (simp add: unat_low16 unat_high16)
qed

lemma fold_sum_decreases:
  assumes "drop_bit 16 (x :: u32) \<noteq> 0"
  shows "unat ((x AND 0xFFFF) + drop_bit 16 x) < unat x"
proof -
  have "0 < unat x div 65536" using assms unat_high16 [of x] by (metis gr0I unat_eq_0)
  then show ?thesis unfolding unat_fold_step using div_mult_mod_eq [of "unat x" 65536] by linarith
qed

termination fold_sum
  by (relation "measure unat") (auto dest: fold_sum_decreases)

declare fold_sum.simps [simp del]

definition checksum16 :: "u32 \<Rightarrow> u32 \<Rightarrow> mem \<Rightarrow> u16" where
  "checksum16 data len m = ucast (NOT (fold_sum (csum_loop (unat len) data 0 m)))"

definition ipv4_checksum :: "u32 \<Rightarrow> u32 \<Rightarrow> mem \<Rightarrow> u16" where
  "ipv4_checksum data len m = checksum16 data len m"

definition udp_checksum :: "u32 \<Rightarrow> u32 \<Rightarrow> u32 \<Rightarrow> 'a net_state_scheme \<Rightarrow> u16" where
  "udp_checksum p saddr daddr s =
     (let b = pbufs s p;
          sum = csum_loop (unat (pb_len b)) (pb_data b) 0 (mem s);
          sum = sum + (drop_bit 16 saddr AND 0xFFFF);
          sum = sum + (saddr AND 0xFFFF);
          sum = sum + (drop_bit 16 daddr AND 0xFFFF);
          sum = sum + (daddr AND 0xFFFF);
          sum = sum + ucast (bswap16 (ucast IP_PROTO_UDP));
          sum = sum + ucast (bswap16 (ucast (pb_len b)));
          check = (ucast (NOT (fold_sum sum)) :: u16)
      in if check = 0 then 0xFFFF else check)"


section \<open>Protocol input\<close>

text \<open>\<^verbatim>\<open>icmp_input\<close>.  The echo reply is written into the packet and the packet is looped back without its IPv4
  header.\<close>

definition icmp_input ::
  "'a net_switch \<Rightarrow> 'a xmit \<Rightarrow> u32 \<Rightarrow> u32 \<Rightarrow> 'a net_state_scheme \<Rightarrow> 'a net_state_scheme option" where
  "icmp_input sw xmit iface p s =
     (if p = NULL \<or> pb_len (pbufs s p) < ICMP_HDR then pbuf_free sw p s
      else let data = pb_data (pbufs s p); len = pb_len (pbufs s p);
               check = ld16 (mem s) (data + 2);
               s = poke16 (data + 2) 0 s
           in if check \<noteq> ipv4_checksum data len (mem s) then pbuf_free sw p s
              else if mem s data = ICMP_ECHO_REQUEST
              then let s = poke data ICMP_ECHO_REPLY s;
                       s = poke16 (data + 2) 0 s;
                       s = poke16 (data + 2) (ipv4_checksum data len (mem s)) s;
                       saddr = if_ip_addr (iface_objs s iface);
                       iph = data - IPV4_HDR;
                       s = poke32 (iph + 16) (ld32 (mem s) (iph + 12)) s;
                       s = poke32 (iph + 12) (bswap32 saddr) s;
                       s = poke16 (iph + 10) 0 s;
                       s = poke16 (iph + 10) (ipv4_checksum iph IPV4_HDR (mem s)) s
                   in map_option snd (xmit iface p s)
              else pbuf_free sw p s)"

definition icmp_send_echo_reply :: "u32 \<Rightarrow> u32 \<Rightarrow> int" where
  "icmp_send_echo_reply iface p = 0"

text \<open>The reply that \<^verbatim>\<open>arp_input\<close> writes at \<open>rd\<close>: an Ethernet header and an ARP packet.\<close>

definition arp_reply :: "u32 \<Rightarrow> u32 \<Rightarrow> u32 \<Rightarrow> net_iface \<Rightarrow> 'a net_state_scheme \<Rightarrow> 'a net_state_scheme" where
  "arp_reply rd arp spa ifc s =
     (let s = poke_list rd (mem_read (mem s) (arp + 8) 6) s;
          s = poke_list (rd + 6) (if_mac ifc) s;
          s = poke16 (rd + 12) (bswap16 ETH_P_ARP) s;
          r = rd + ETH_HDR;
          s = poke16 r (bswap16 1) s;
          s = poke16 (r + 2) (bswap16 0x0800) s;
          s = poke (r + 4) 6 s;
          s = poke (r + 5) 4 s;
          s = poke16 (r + 6) (bswap16 ARP_OP_REPLY) s;
          s = poke_list (r + 8) (if_mac ifc) s;
          s = poke32 (r + 14) (bswap32 (if_ip_addr ifc)) s;
          s = poke_list (r + 18) (mem_read (mem s) (arp + 8) 6) s
      in poke32 (r + 24) (bswap32 spa) s)"

text \<open>The sender's entry is recorded after the reply, from the bytes of the request at that time; the result
  of the reply's transmission is not used.\<close>

definition arp_input ::
  "'a net_switch \<Rightarrow> 'a xmit \<Rightarrow> u32 \<Rightarrow> u32 \<Rightarrow> 'a net_state_scheme \<Rightarrow> 'a net_state_scheme option" where
  "arp_input sw xmit iface p s =
     (if p = NULL \<or> pb_len (pbufs s p) < ARP_HDR then pbuf_free sw p s
      else do {
        let arp = pb_data (pbufs s p);
        let op = bswap16 (ld16 (mem s) (arp + 6));
        let spa = bswap32 (ld32 (mem s) (arp + 14));
        let tpa = bswap32 (ld32 (mem s) (arp + 24));
        (ok, s) \<leftarrow>
          (if op = ARP_OP_REQUEST \<and> tpa = if_ip_addr (iface_objs s iface)
           then do {
             (reply, s) \<leftarrow> pbuf_alloc sw (ARP_HDR + ETH_HDR) s;
             if reply = NULL then Some (False, s)
             else do {
               let s = arp_reply (pb_data (pbufs s reply)) arp spa (iface_objs s iface) s;
               let s = upd_pbuf reply (\<lambda>b. b\<lparr>pb_len := ETH_HDR + ARP_HDR\<rparr>) s;
               (v, s) \<leftarrow> xmit iface reply s;
               Some (True, s) } }
           else Some (True, s));
        let s = (if ok \<and> (op = ARP_OP_REQUEST \<or> op = ARP_OP_REPLY) \<and> spa \<noteq> 0
                 then s\<lparr>arp_table := arp_learn spa (mem_read (mem s) (arp + 8) 6) (arp_tick s) (arp_table s)\<rparr>
                 else s);
        pbuf_free sw p s })"

text \<open>\<^verbatim>\<open>arp_resolve\<close> on the kernel's table: the result and the bytes stored at \<open>mac\<close>.\<close>

definition arp_resolve_at :: "u32 \<Rightarrow> u32 \<Rightarrow> 'a net_state_scheme \<Rightarrow> int \<times> 'a net_state_scheme" where
  "arp_resolve_at ip mac s =
     (case arp_resolve ip (arp_table s) of None \<Rightarrow> (-1, s) | Some m \<Rightarrow> (0, poke_list mac m s))"

partial_function (option) find_udp :: "u32 \<Rightarrow> u32 \<Rightarrow> u16 \<Rightarrow> 'a net_state_scheme \<Rightarrow> u32 option" where
  "find_udp k laddr lport s =
     (if k = NULL then Some NULL
      else if so_bound (sock_objs s k) \<noteq> 0 \<and> so_local_addr (sock_objs s k) = laddr \<and> so_local_port (sock_objs s k) = lport
      then Some k
      else find_udp (so_next (sock_objs s k)) laddr lport s)"

definition sock_find_udp :: "u32 \<Rightarrow> u16 \<Rightarrow> 'a net_state_scheme \<Rightarrow> u32 option" where
  "sock_find_udp laddr lport s = find_udp (sockets s) laddr lport s"

definition sock_lock :: "'a net_switch \<Rightarrow> u32 \<Rightarrow> 'a net_state_scheme \<Rightarrow> 'a net_state_scheme option" where
  "sock_lock sw k s = mutex_lock sw (\<lambda>s. so_lock (sock_objs s k)) (\<lambda>f. upd_sock k (\<lambda>x. x\<lparr>so_lock := f (so_lock x)\<rparr>)) s"

definition sock_unlock :: "u32 \<Rightarrow> 'a net_state_scheme \<Rightarrow> 'a net_state_scheme" where
  "sock_unlock k s = mutex_unlock (\<lambda>s. so_lock (sock_objs s k)) (\<lambda>f. upd_sock k (\<lambda>x. x\<lparr>so_lock := f (so_lock x)\<rparr>)) s"

definition udp_input :: "'a net_switch \<Rightarrow> u32 \<Rightarrow> u32 \<Rightarrow> 'a net_state_scheme \<Rightarrow> 'a net_state_scheme option" where
  "udp_input sw iface p s =
     (if p = NULL \<or> pb_len (pbufs s p) < UDP_HDR then pbuf_free sw p s
      else do {
        let udph = pb_data (pbufs s p);
        let len = bswap16 (ld16 (mem s) (udph + 4));
        let dport = bswap16 (ld16 (mem s) (udph + 2));
        if ucast len > pb_len (pbufs s p) then pbuf_free sw p s
        else do {
          let s = upd_pbuf p (\<lambda>b. b\<lparr>pb_data := pb_data b + UDP_HDR, pb_len := pb_len b - UDP_HDR\<rparr>) s;
          k \<leftarrow> sock_find_udp (if_ip_addr (iface_objs s iface)) dport s;
          if k = NULL then pbuf_free sw p s
          else do {
            s \<leftarrow> sock_lock sw k s;
            let s = upd_pbuf p (\<lambda>b. b\<lparr>pb_next := so_rx_queue (sock_objs s k)\<rparr>) s;
            let s = upd_sock k (\<lambda>x. x\<lparr>so_rx_queue := p\<rparr>) s;
            let s = semaphore_signal (\<lambda>s. so_rx_wait (sock_objs s k)) (\<lambda>f. upd_sock k (\<lambda>x. x\<lparr>so_rx_wait := f (so_rx_wait x)\<rparr>)) s;
            Some (sock_unlock k s) } } })"

definition ipv4_input ::
  "'a net_switch \<Rightarrow> 'a xmit \<Rightarrow> u32 \<Rightarrow> u32 \<Rightarrow> 'a net_state_scheme \<Rightarrow> 'a net_state_scheme option" where
  "ipv4_input sw xmit iface p s =
     (if p = NULL \<or> pb_len (pbufs s p) < IPV4_HDR then pbuf_free sw p s
      else let iph = pb_data (pbufs s p);
               version_ihl = mem s iph;
               ihl = (version_ihl AND 0x0F) * 4;
               tot_len = bswap16 (ld16 (mem s) (iph + 2))
           in if drop_bit 4 version_ihl \<noteq> 4 then pbuf_free sw p s
              else if ihl < 20 then pbuf_free sw p s
              else if ucast tot_len > pb_len (pbufs s p) then pbuf_free sw p s
              else let check = ld16 (mem s) (iph + 10);
                       s = poke16 (iph + 10) 0 s
                   in if check \<noteq> ipv4_checksum iph (ucast ihl) (mem s) then pbuf_free sw p s
                      else let daddr = bswap32 (ld32 (mem s) (iph + 16))
                           in if daddr \<noteq> if_ip_addr (iface_objs s iface) \<and> daddr \<noteq> 0xFFFFFFFF then pbuf_free sw p s
                              else let s = upd_pbuf p (\<lambda>b. b\<lparr>pb_data := pb_data b + ucast ihl, pb_len := pb_len b - ucast ihl\<rparr>) s;
                                       proto = mem s (iph + 9)
                                   in if proto = IP_PROTO_ICMP then icmp_input sw xmit iface p s
                                      else if proto = IP_PROTO_UDP then udp_input sw iface p s
                                      else pbuf_free sw p s)"

definition net_iface_input ::
  "'a net_switch \<Rightarrow> 'a xmit \<Rightarrow> u32 \<Rightarrow> u32 \<Rightarrow> 'a net_state_scheme \<Rightarrow> 'a net_state_scheme option" where
  "net_iface_input sw xmit iface p s =
     (if iface = NULL \<or> p = NULL then Some s
      else let proto = bswap16 (ld16 (mem s) (pb_data (pbufs s p) + 12))
           in if proto = ETH_P_IP then ipv4_input sw xmit iface p s
              else if proto = ETH_P_ARP then arp_input sw xmit iface p s
              else pbuf_free sw p s)"

fun loopback_xmit :: "'a net_switch \<Rightarrow> nat \<Rightarrow> 'a xmit" where
  "loopback_xmit sw 0 iface p s = None"
| "loopback_xmit sw (Suc n) iface p s =
     (if iface = NULL \<or> p = NULL then Some (-1, s)
      else do {
        let s = upd_pbuf p (\<lambda>b. b\<lparr>pb_iface := iface\<rparr>) s;
        s \<leftarrow> net_iface_input sw (loopback_xmit sw n) iface p s;
        Some (0, s) })"


section \<open>Protocol output\<close>

text \<open>\<^verbatim>\<open>iface->transmit\<close>: the loopback function or that of the wireless driver, which is the parameter \<open>wxmit\<close>.\<close>

definition net_iface_output :: "'a net_switch \<Rightarrow> nat \<Rightarrow> 'a xmit \<Rightarrow> 'a xmit" where
  "net_iface_output sw n wxmit iface p s =
     (if iface = NULL \<or> p = NULL \<or> if_transmit (iface_objs s iface) = XNone then Some (-1, s)
      else if if_flags (iface_objs s iface) AND IFF_UP = 0 then Some (-1, s)
      else case if_transmit (iface_objs s iface) of
        XNone \<Rightarrow> Some (-1, s)
      | XLoopback \<Rightarrow> loopback_xmit sw n iface p s
      | XWifi \<Rightarrow> wxmit iface p s)"

definition ipv4_output ::
  "'a net_switch \<Rightarrow> nat \<Rightarrow> u32 \<Rightarrow> u32 \<Rightarrow> u8 \<Rightarrow> u32 \<Rightarrow> 'a net_state_scheme \<Rightarrow> (int \<times> 'a net_state_scheme) option" where
  "ipv4_output sw n iface daddr proto p s =
     (if p = NULL \<or> iface = NULL then Some (-1, s)
      else let (q, s) = pbuf_prepend p IPV4_HDR s
           in if q = NULL then Some (-1, s)
              else let iph = pb_data (pbufs s p);
                       s = poke iph 0x45 s;
                       s = poke (iph + 1) 0 s;
                       s = poke16 (iph + 2) (bswap16 (ucast (pb_len (pbufs s p)))) s;
                       s = poke16 (iph + 4) (bswap16 (ip_id s)) s;
                       s = s\<lparr>ip_id := ip_id s + 1\<rparr>;
                       s = poke16 (iph + 6) (bswap16 0x4000) s;
                       s = poke (iph + 8) 64 s;
                       s = poke (iph + 9) proto s;
                       s = poke16 (iph + 10) 0 s;
                       s = poke32 (iph + 12) (bswap32 (if_ip_addr (iface_objs s iface))) s;
                       s = poke32 (iph + 16) (bswap32 daddr) s;
                       s = poke16 (iph + 10) (ipv4_checksum iph IPV4_HDR (mem s)) s
                   in if if_flags (iface_objs s iface) AND IFF_LOOPBACK \<noteq> 0 then loopback_xmit sw n iface p s
                      else Some (-1, s))"

definition udp_output ::
  "'a net_switch \<Rightarrow> nat \<Rightarrow> u32 \<Rightarrow> u32 \<Rightarrow> 'a net_state_scheme \<Rightarrow> (int \<times> 'a net_state_scheme) option" where
  "udp_output sw n k p s =
     (if k = NULL \<or> p = NULL then Some (-1, s)
      else let iface = net_iface_get_by_ip (so_local_addr (sock_objs s k)) s
           in if iface = NULL then Some (-1, s)
              else let (q, s) = pbuf_prepend p UDP_HDR s
                   in if q = NULL then Some (-1, s)
                      else let udph = pb_data (pbufs s p); so = sock_objs s k;
                               s = poke16 udph (bswap16 (so_local_port so)) s;
                               s = poke16 (udph + 2) (bswap16 (so_remote_port so)) s;
                               s = poke16 (udph + 4) (bswap16 (ucast (pb_len (pbufs s p)))) s;
                               s = poke16 (udph + 6) 0 s;
                               s = poke16 (udph + 6) (udp_checksum p (so_local_addr so) (so_remote_addr so) s) s
                           in ipv4_output sw n iface (so_remote_addr so) IP_PROTO_UDP p s)"


section \<open>Sockets\<close>

abbreviation (input) AF_INET :: int where "AF_INET \<equiv> 2"
abbreviation (input) SOCK_DGRAM :: int where "SOCK_DGRAM \<equiv> 2"

definition kzalloc_socket :: "'a net_switch \<Rightarrow> 'a net_state_scheme \<Rightarrow> (u32 \<times> 'a net_state_scheme) option" where
  "kzalloc_socket sw s =
     do { (p, s) \<leftarrow> kzalloc sw 76 s; Some (p, if p \<noteq> NULL then upd_sock p (\<lambda>_. socket_zero) s else s) }"

definition sock_create ::
  "'a net_switch \<Rightarrow> int \<Rightarrow> int \<Rightarrow> int \<Rightarrow> 'a net_state_scheme \<Rightarrow> (u32 \<times> 'a net_state_scheme) option" where
  "sock_create sw domain ty protocol s =
     (if domain \<noteq> AF_INET \<or> ty \<noteq> SOCK_DGRAM then Some (NULL, s)
      else do {
        (k, s) \<leftarrow> kzalloc_socket sw s;
        if k = NULL then Some (NULL, s)
        else do {
          let s = upd_sock k (\<lambda>x. x\<lparr>so_domain := domain, so_type := ty, so_protocol := protocol, so_local_addr := 0,
                    so_local_port := 0, so_remote_addr := 0, so_remote_port := 0, so_bound := 0, so_connected := 0,
                    so_ref_count := 1\<rparr>) s;
          let s = mutex_init (\<lambda>f. upd_sock k (\<lambda>x. x\<lparr>so_lock := f (so_lock x)\<rparr>)) s;
          let s = semaphore_init (\<lambda>f. upd_sock k (\<lambda>x. x\<lparr>so_rx_wait := f (so_rx_wait x)\<rparr>)) 0 s;
          s \<leftarrow> sock_lock sw k s;
          let s = upd_sock k (\<lambda>x. x\<lparr>so_next := sockets s\<rparr>) s;
          Some (k, sock_unlock k (s\<lparr>sockets := k\<rparr>)) } })"

text \<open>The loop of \<^verbatim>\<open>sock_bind\<close>: is the address in use by another socket.\<close>

partial_function (option) bind_conflict :: "u32 \<Rightarrow> u32 \<Rightarrow> u32 \<Rightarrow> u16 \<Rightarrow> 'a net_state_scheme \<Rightarrow> bool option" where
  "bind_conflict cur k addr port s =
     (if cur = NULL then Some False
      else if cur \<noteq> k \<and> so_bound (sock_objs s cur) \<noteq> 0 \<and> so_local_port (sock_objs s cur) = port
              \<and> so_local_addr (sock_objs s cur) = addr
      then Some True
      else bind_conflict (so_next (sock_objs s cur)) k addr port s)"

definition sock_bind ::
  "'a net_switch \<Rightarrow> u32 \<Rightarrow> u32 \<Rightarrow> u16 \<Rightarrow> 'a net_state_scheme \<Rightarrow> (int \<times> 'a net_state_scheme) option" where
  "sock_bind sw k addr port s =
     (if k = NULL then Some (-1, s)
      else do {
        s \<leftarrow> sock_lock sw k s;
        conflict \<leftarrow> bind_conflict (sockets s) k addr port s;
        if conflict then Some (-1, sock_unlock k s)
        else do {
          let (port, s) =
            (if port = 0
             then let pt = word_of_int (next_port s); np = next_port s + 1
                  in (pt, s\<lparr>next_port := (if np > 65535 then 1024 else np)\<rparr>)
             else (port, s));
          let s = upd_sock k (\<lambda>x. x\<lparr>so_local_addr := addr, so_local_port := port, so_bound := 1\<rparr>) s;
          Some (0, sock_unlock k s) } })"

definition sock_connect :: "u32 \<Rightarrow> u32 \<Rightarrow> u16 \<Rightarrow> 'a net_state_scheme \<Rightarrow> int \<times> 'a net_state_scheme" where
  "sock_connect k addr port s =
     (if k = NULL \<or> so_bound (sock_objs s k) = 0 then (-1, s)
      else (0, upd_sock k (\<lambda>x. x\<lparr>so_remote_addr := addr, so_remote_port := port, so_connected := 1\<rparr>) s))"

definition sock_sendto ::
  "'a net_switch \<Rightarrow> nat \<Rightarrow> u32 \<Rightarrow> u32 \<Rightarrow> u32 \<Rightarrow> u32 \<Rightarrow> u16 \<Rightarrow> 'a net_state_scheme \<Rightarrow> (int \<times> 'a net_state_scheme) option" where
  "sock_sendto sw n k buf len addr port s =
     (if k = NULL \<or> len > NET_MAX_PAYLOAD then Some (-1, s)
      else do {
        (p, s) \<leftarrow> pbuf_alloc sw len s;
        if p = NULL then Some (-1, s)
        else do {
          let s = s\<lparr>mem := memcpy (pb_data (pbufs s p)) buf len (mem s)\<rparr>;
          let s = upd_pbuf p (\<lambda>b. b\<lparr>pb_len := len\<rparr>) s;
          let s = (if so_connected (sock_objs s k) = 0
                   then upd_sock k (\<lambda>x. x\<lparr>so_remote_addr := addr, so_remote_port := port\<rparr>) s else s);
          udp_output sw n k p s } })"

partial_function (option) recv_wait :: "'a net_switch \<Rightarrow> u32 \<Rightarrow> 'a net_state_scheme \<Rightarrow> 'a net_state_scheme option" where
  "recv_wait sw k s =
     (if so_rx_queue (sock_objs s k) = NULL
      then do {
        s \<leftarrow> semaphore_wait sw (\<lambda>s. so_rx_wait (sock_objs s k)) (\<lambda>f. upd_sock k (\<lambda>x. x\<lparr>so_rx_wait := f (so_rx_wait x)\<rparr>)) s;
        recv_wait sw k s }
      else Some s)"

text \<open>The out-parameters \<^verbatim>\<open>addr\<close> and \<^verbatim>\<open>port\<close> are always set to 0 and are not modelled.\<close>

definition sock_recvfrom ::
  "'a net_switch \<Rightarrow> u32 \<Rightarrow> u32 \<Rightarrow> u32 \<Rightarrow> 'a net_state_scheme \<Rightarrow> (int \<times> 'a net_state_scheme) option" where
  "sock_recvfrom sw k buf len s =
     (if k = NULL then Some (-1, s)
      else do {
        s \<leftarrow> sock_lock sw k s;
        s \<leftarrow> recv_wait sw k s;
        let p = so_rx_queue (sock_objs s k);
        let s = upd_sock k (\<lambda>x. x\<lparr>so_rx_queue := pb_next (pbufs s p)\<rparr>) s;
        let copy = (if pb_len (pbufs s p) < len then pb_len (pbufs s p) else len);
        let s = s\<lparr>mem := memcpy buf (pb_data (pbufs s p)) copy (mem s)\<rparr>;
        s \<leftarrow> pbuf_free sw p s;
        Some (sint copy, sock_unlock k s) })"

partial_function (option) find_before :: "u32 \<Rightarrow> u32 \<Rightarrow> 'a net_state_scheme \<Rightarrow> u32 option" where
  "find_before cur k s =
     (if cur \<noteq> NULL \<and> so_next (sock_objs s cur) \<noteq> k then find_before (so_next (sock_objs s cur)) k s else Some cur)"

partial_function (option) drain_rx :: "'a net_switch \<Rightarrow> u32 \<Rightarrow> 'a net_state_scheme \<Rightarrow> 'a net_state_scheme option" where
  "drain_rx sw k s =
     (let p = so_rx_queue (sock_objs s k)
      in if p \<noteq> NULL
         then do {
           let s = upd_sock k (\<lambda>x. x\<lparr>so_rx_queue := pb_next (pbufs s p)\<rparr>) s;
           s \<leftarrow> pbuf_free sw p s;
           drain_rx sw k s }
         else Some s)"

definition sock_close :: "'a net_switch \<Rightarrow> u32 \<Rightarrow> 'a net_state_scheme \<Rightarrow> (int \<times> 'a net_state_scheme) option" where
  "sock_close sw k s =
     (if k = NULL then Some (-1, s)
      else do {
        s \<leftarrow> sock_lock sw k s;
        let s = upd_sock k (\<lambda>x. x\<lparr>so_ref_count := so_ref_count x - 1\<rparr>) s;
        if so_ref_count (sock_objs s k) > 0 then Some (0, sock_unlock k s)
        else do {
          s \<leftarrow> (if sockets s = k then Some (s\<lparr>sockets := so_next (sock_objs s k)\<rparr>)
                else do {
                  cur \<leftarrow> find_before (sockets s) k s;
                  Some (if cur \<noteq> NULL then upd_sock cur (\<lambda>x. x\<lparr>so_next := so_next (sock_objs s k)\<rparr>) s else s) });
          s \<leftarrow> drain_rx sw k s;
          s \<leftarrow> kfree sw k (sock_unlock k s);
          Some (0, s) } })"


section \<open>Sockets as files\<close>

text \<open>The first free descriptor of the first \<open>n\<close>; the inner \<open>None\<close> when all are in use, the outer one when the
  table is shorter than the loop expects.\<close>

fun free_fd_from :: "nat \<Rightarrow> nat \<Rightarrow> file_ref list \<Rightarrow> nat option option" where
  "free_fd_from i 0 fs = Some None"
| "free_fd_from i (Suc n) fs =
     (case fs of [] \<Rightarrow> None | f # fs \<Rightarrow> if f = FNull then Some (Some i) else free_fd_from (Suc i) n fs)"

definition kzalloc_file ::
  "('a file_state_ext dstate_ext) switch \<Rightarrow> 'a file_state_scheme \<Rightarrow> (u32 \<times> 'a file_state_scheme) option" where
  "kzalloc_file sw s = do {
     (p, s) \<leftarrow> kzalloc sw 276 s;
     Some (p, if p \<noteq> NULL then s\<lparr>heap_files := (heap_files s)(p := file_zero)\<rparr> else s) }"

definition set_fd :: "u32 \<Rightarrow> nat \<Rightarrow> file_ref \<Rightarrow> 'a kstate_scheme \<Rightarrow> 'a kstate_scheme" where
  "set_fd tbl i r s = s\<lparr>fd_tables := (fd_tables s)(tbl := (fd_tables s tbl)[i := r])\<rparr>"

definition sock_alloc_fd :: "'a net_switch \<Rightarrow> u32 \<Rightarrow> 'a net_state_scheme \<Rightarrow> (int \<times> 'a net_state_scheme) option" where
  "sock_alloc_fd sw k s =
     (let current = current_task (cpu0 s)
      in if current = NULL \<or> t_process (tasks s current) = NULL then Some (-1, s)
         else do {
           fd \<leftarrow> free_fd_from 0 32 (fd_tables s (p_fd_table (procs s (t_process (tasks s current)))));
           case fd of None \<Rightarrow> Some (-1, s)
           | Some i \<Rightarrow> do {
               (f, s) \<leftarrow> kzalloc_file sw s;
               if f = NULL then Some (-1, s)
               else do {
                 let s = upd_file (HeapFile f) (\<lambda>x. x\<lparr>f_fops := Some SockFops, f_private := PSock k, f_ref_count := 1\<rparr>) s;
                 let pr = t_process (tasks s current);
                 let s = upd_sock k (\<lambda>x. x\<lparr>so_fd := int i, so_proc := pr\<rparr>) s;
                 let s = set_fd (p_fd_table (procs s pr)) i (HeapFile f) s;
                 Some (int i, upd_proc pr (\<lambda>p. p\<lparr>p_fd_count := int i + 1\<rparr>) s) } } })"

text \<open>A slot of the static array is not a heap block; freeing it gives \<open>None\<close>.\<close>

definition sock_free_fd :: "'a net_switch \<Rightarrow> u32 \<Rightarrow> 'a net_state_scheme \<Rightarrow> 'a net_state_scheme option" where
  "sock_free_fd sw k s =
     (if k = NULL \<or> so_proc (sock_objs s k) = NULL then Some s
      else let fd = so_fd (sock_objs s k); tbl = p_fd_table (procs s (so_proc (sock_objs s k)))
           in if 0 \<le> fd \<and> fd < 32
              then if nat fd < length (fd_tables s tbl)
                   then case fd_tables s tbl ! nat fd of
                       FNull \<Rightarrow> Some s
                     | HeapFile f \<Rightarrow> kfree sw f (set_fd tbl (nat fd) FNull s)
                     | OpenFile i \<Rightarrow> None
                   else None
              else Some s)"

definition priv_sock :: "priv \<Rightarrow> u32 option" where
  "priv_sock pv = (case pv of PNull \<Rightarrow> Some NULL | PSock k \<Rightarrow> Some k | _ \<Rightarrow> None)"

definition sock_read ::
  "'a net_switch \<Rightarrow> file_ref \<Rightarrow> u32 \<Rightarrow> u32 \<Rightarrow> 'a net_state_scheme \<Rightarrow> (int \<times> 'a net_state_scheme) option" where
  "sock_read sw r buf len s = do { f \<leftarrow> get_file_obj r s; k \<leftarrow> priv_sock (f_private f); sock_recvfrom sw k buf len s }"

definition sock_write ::
  "'a net_switch \<Rightarrow> nat \<Rightarrow> file_ref \<Rightarrow> u32 \<Rightarrow> u32 \<Rightarrow> 'a net_state_scheme \<Rightarrow> (int \<times> 'a net_state_scheme) option" where
  "sock_write sw n r buf len s =
     do { f \<leftarrow> get_file_obj r s; k \<leftarrow> priv_sock (f_private f); sock_sendto sw n k buf len 0 0 s }"

definition sock_close_file :: "'a net_switch \<Rightarrow> file_ref \<Rightarrow> 'a net_state_scheme \<Rightarrow> (int \<times> 'a net_state_scheme) option" where
  "sock_close_file sw r s =
     do { f \<leftarrow> get_file_obj r s; k \<leftarrow> priv_sock (f_private f); (v, s) \<leftarrow> sock_close sw k s; Some (0, s) }"


section \<open>The status report\<close>

fun print_ifaces :: "u32 list \<Rightarrow> 'a net_state_scheme \<Rightarrow> 'a net_state_scheme option" where
  "print_ifaces [] s = Some s"
| "print_ifaces (i # is) s = do {
     let n = iface_objs s i;
     s \<leftarrow> uart_puts (arr_str (if_name n)) s;
     s \<leftarrow> uart_puts (bytes '': flags='') s;
     s \<leftarrow> uart_puthex (ucast (if_flags n)) s;
     s \<leftarrow> uart_puts (bytes '' mtu='') s;
     s \<leftarrow> uart_putdec (ucast (if_mtu n)) s;
     s \<leftarrow> uart_puts (bytes '' ip='') s;
     s \<leftarrow> uart_puthex (if_ip_addr n) s;
     s \<leftarrow> uart_puts (bytes '' mask='') s;
     s \<leftarrow> uart_puthex (if_netmask n) s;
     s \<leftarrow> uart_puts [10] s;
     print_ifaces is s }"

partial_function (option) print_sockets :: "u32 \<Rightarrow> 'a net_state_scheme \<Rightarrow> 'a net_state_scheme option" where
  "print_sockets k s =
     (if k = NULL then Some s
      else do {
        let x = sock_objs s k;
        s \<leftarrow> uart_puts (bytes ''socket: proto='') s;
        s \<leftarrow> uart_putdec (word_of_int (so_protocol x)) s;
        s \<leftarrow> uart_puts (bytes '' lport='') s;
        s \<leftarrow> uart_putdec (ucast (so_local_port x)) s;
        s \<leftarrow> uart_puts (bytes '' rport='') s;
        s \<leftarrow> uart_putdec (ucast (so_remote_port x)) s;
        s \<leftarrow> uart_puts (bytes '' bound='') s;
        s \<leftarrow> uart_putdec (ucast (so_bound x)) s;
        s \<leftarrow> uart_puts (bytes '' conn='') s;
        s \<leftarrow> uart_putdec (ucast (so_connected x)) s;
        s \<leftarrow> uart_puts [10] s;
        print_sockets (so_next (sock_objs s k)) s })"

fun print_mac :: "u8 list \<Rightarrow> 'a net_state_scheme \<Rightarrow> 'a net_state_scheme option" where
  "print_mac [] s = Some s"
| "print_mac (b # bs) s = do {
     s \<leftarrow> uart_puthex (ucast b) s;
     s \<leftarrow> (if bs \<noteq> [] then uart_puts (bytes '':'') s else Some s);
     print_mac bs s }"

fun print_arp :: "arp_entry list \<Rightarrow> 'a net_state_scheme \<Rightarrow> 'a net_state_scheme option" where
  "print_arp [] s = Some s"
| "print_arp (e # es) s =
     (if ae_used e \<noteq> 0
      then do {
        s \<leftarrow> uart_puts (bytes ''IP='') s;
        s \<leftarrow> uart_puthex (ae_ip_addr e) s;
        s \<leftarrow> uart_puts (bytes '' MAC='') s;
        s \<leftarrow> print_mac (ae_mac e) s;
        s \<leftarrow> uart_puts [10] s;
        print_arp es s }
      else print_arp es s)"

definition netstat_print :: "'a net_state_scheme \<Rightarrow> 'a net_state_scheme option" where
  "netstat_print s = do {
     s \<leftarrow> uart_puts (bytes ''=== Network Interfaces ==='' @ [10]) s;
     s \<leftarrow> print_ifaces (iface_list s) s;
     s \<leftarrow> uart_puts (10 # bytes ''=== Sockets ==='' @ [10]) s;
     s \<leftarrow> print_sockets (sockets s) s;
     s \<leftarrow> uart_puts (10 # bytes ''=== ARP Table ==='' @ [10]) s;
     print_arp (arp_table s) s }"

section \<open>Every datagram is refused for lack of headroom\<close>

lemma pbuf_alloc_headroom:
  assumes "pbuf_alloc sw sz s = Some (p, s')" "p \<noteq> NULL"
  shows "pb_data (pbufs s' p) - pb_head (pbufs s' p) = 18"
  using assms by (auto simp: pbuf_alloc_def upd_pbuf_def Let_def split: bind_splits if_splits)

lemma ipv4_output_short:
  assumes "p \<noteq> NULL" "pb_data (pbufs s p) - pb_head (pbufs s p) <s IPV4_HDR"
  shows "ipv4_output sw n iface daddr proto p s = Some (-1, s)"
  using assms by (simp add: ipv4_output_def pbuf_prepend_def Let_def)

lemma poke_pbufs [simp]:
  "pbufs (poke a v s) = pbufs s" "pbufs (poke16 a w s) = pbufs s" "pbufs (poke32 a x s) = pbufs s"
  "pbufs (poke_list a xs s) = pbufs s" "pbufs (upd_sock k g s) = pbufs s"
  by (simp_all add: poke_def poke16_def poke32_def poke_list_def upd_sock_def)

lemma udp_output_short:
  assumes "pb_data (pbufs s p) - pb_head (pbufs s p) = 18"
  shows "\<exists>s'. udp_output sw n k p s = Some (-1, s')"
proof -
  have h: "pb_data (pbufs s p) - UDP_HDR - pb_head (pbufs s p) = 10"
    using assms by (simp add: algebra_simps diff_eq_eq)
  have ne: "\<not> (18 :: u32) <s UDP_HDR" "(10 :: u32) <s IPV4_HDR" by (simp_all add: word_sless_alt)
  define s1 where "s1 = upd_pbuf p (\<lambda>b. b\<lparr>pb_data := pb_data b - UDP_HDR, pb_len := pb_len b + UDP_HDR\<rparr>) s"
  have pre: "pbuf_prepend p UDP_HDR s = (if p = NULL then (NULL, s) else (p, s1))"
    using assms ne(1) by (simp add: pbuf_prepend_def s1_def)
  have "ipv4_output sw n iface daddr proto p t = Some (-1, t)" if "pbufs t = pbufs s1" "p \<noteq> NULL" for iface daddr proto t
  proof (rule ipv4_output_short [OF that(2)])
    have "pb_data (pbufs t p) = pb_data (pbufs s p) - UDP_HDR" "pb_head (pbufs t p) = pb_head (pbufs s p)"
      using that(1) by (simp_all add: s1_def upd_pbuf_def)
    then show "pb_data (pbufs t p) - pb_head (pbufs t p) <s IPV4_HDR" using h ne(2) by (simp only:)
  qed
  then show ?thesis unfolding udp_output_def pre by (simp add: Let_def)
qed

text \<open>C37: No datagram can be sent.  \<^verbatim>\<open>pbuf_alloc\<close> leaves 18 bytes in front of the payload (an Ethernet header
  and four more), and the UDP and IPv4 headers need 28, so \<^verbatim>\<open>pbuf_prepend\<close> fails in \<^verbatim>\<open>ipv4_output\<close> and
  \<^verbatim>\<open>sock_sendto\<close> gives \<open>-1\<close> whatever the socket, the buffer and the destination are.\<close>

theorem sock_sendto_fails:
  assumes "sock_sendto sw n k buf len addr port s = Some (v, s')"
  shows "v = -1"
proof (cases "k = NULL \<or> len > NET_MAX_PAYLOAD")
  case True
  then show ?thesis using assms by (auto simp: sock_sendto_def)
next
  case False
  then obtain p s1 where p: "pbuf_alloc sw len s = Some (p, s1)"
    using assms by (auto simp: sock_sendto_def split: bind_splits)
  show ?thesis
  proof (cases "p = NULL")
    case True
    then show ?thesis using assms False p by (simp add: sock_sendto_def)
  next
    case ne: False
    have h: "pb_data (pbufs s1 p) - pb_head (pbufs s1 p) = 18" by (rule pbuf_alloc_headroom [OF p ne])
    define s2 where "s2 = upd_pbuf p (\<lambda>b. b\<lparr>pb_len := len\<rparr>) (s1\<lparr>mem := memcpy (pb_data (pbufs s1 p)) buf len (mem s1)\<rparr>)"
    define s3 where "s3 = (if so_connected (sock_objs s2 k) = 0
       then upd_sock k (\<lambda>x. x\<lparr>so_remote_addr := addr, so_remote_port := port\<rparr>) s2 else s2)"
    have "udp_output sw n k p s3 = Some (v, s')"
      using assms False p ne unfolding s3_def s2_def by (simp add: sock_sendto_def Let_def cong: if_cong)
    moreover have "pb_data (pbufs s3 p) - pb_head (pbufs s3 p) = 18" using h by (simp add: s3_def s2_def upd_pbuf_def)
    ultimately show ?thesis using udp_output_short [of s3 p sw n k] by auto
  qed
qed

section \<open>The Internet checksum\<close>

text \<open>The 16-bit little-endian words of \<open>n\<close> bytes at \<open>a\<close>; an odd last byte is a word of its own.\<close>

fun words16 :: "mem \<Rightarrow> u32 \<Rightarrow> nat \<Rightarrow> nat list" where
  "words16 m a 0 = []"
| "words16 m a (Suc 0) = [unat (m a)]"
| "words16 m a (Suc (Suc n)) = unat (ld16 m a) # words16 m (a + 2) n"

lemma csum_loop_words: "csum_loop n a acc m = acc + of_nat (sum_list (words16 m a n))"
  by (induction n a acc m rule: csum_loop.induct) (simp_all add: add.assoc)

lemma words16_bound: "sum_list (words16 m a n) \<le> (n + 1) div 2 * 65535"
proof (induction m a n rule: words16.induct)
  case (2 m a)
  then show ?case using unsigned_less [where ?'a = nat, of "m a"] by simp
next
  case (3 m a n)
  have "unat (ld16 m a) \<le> 65535" using unsigned_less [where ?'a = nat, of "ld16 m a"] by simp
  then show ?case using 3 by simp
qed simp

lemma mod_of_sum: "(a :: nat) = b + c * k \<Longrightarrow> a mod c = b mod c"
  by simp

lemma fold_sum_step:
  "drop_bit 16 x = 0 \<Longrightarrow> fold_sum x = x"
  "drop_bit 16 x \<noteq> 0 \<Longrightarrow> fold_sum x = fold_sum ((x AND 0xFFFF) + drop_bit 16 x)"
  by (subst fold_sum.simps, simp only: simp_thms if_False if_True)+

lemma fold_sum_props:
  "unat (fold_sum x) < 65536 \<and> unat (fold_sum x) mod 65535 = unat x mod 65535 \<and> (fold_sum x = 0 \<longleftrightarrow> x = 0)"
proof (induction x rule: fold_sum.induct)
  case (1 x)
  show ?case
  proof (cases "drop_bit 16 x = 0")
    case True
    have "unat x div 65536 = 0" unfolding unat_high16 [symmetric] True by (rule unat_0)
    then have "unat x < 65536" by (simp only: div_eq_0_iff) simp
    then show ?thesis by (simp only: fold_sum_step(1) [OF True] simp_thms)
  next
    case False
    let ?y = "(x AND 0xFFFF) + drop_bit 16 x"
    have pos: "0 < unat x div 65536" unfolding unat_high16 [symmetric] using False by (simp only: unat_gt_0 simp_thms)
    have "unat x = unat ?y + 65535 * (unat x div 65536)"
      unfolding unat_fold_step using div_mult_mod_eq [of "unat x" 65536] by linarith
    then have m: "unat x mod 65535 = unat ?y mod 65535" by (rule mod_of_sum)
    have "unat ?y \<noteq> 0" unfolding unat_fold_step using pos by linarith
    then have y: "?y \<noteq> 0" by (simp only: unat_eq_0 simp_thms)
    have x: "x \<noteq> 0" using False by auto
    show ?thesis using 1 [OF False] m y x unfolding fold_sum_step(2) [OF False] by (simp only: simp_thms)
  qed
qed

lemma unat_complement16:
  assumes "unat (t :: u32) < 65536"
  shows "unat (ucast (NOT t) :: u16) = 65535 - unat t"
proof -
  have "NOT t = -1 - t" by (simp add: not_eq_complement)
  moreover have "unat (-1 - t) = unat (-1 :: u32) - unat t" by (rule unat_sub) simp
  moreover have "unat (-1 :: u32) = 4294967295"
  proof -
    have "(-1 :: u32) = 0xFFFFFFFF" by simp
    then show ?thesis by (simp only: unat_numeral) simp
  qed
  ultimately have "unat (NOT t) = 4294967295 - unat t" by (simp only:)
  then have "unat (NOT t) = 65535 - unat t + 65536 * 65535" using assms by linarith
  then have "unat (NOT t) mod 65536 = (65535 - unat t) mod 65536" by (rule mod_of_sum)
  also have "\<dots> = 65535 - unat t" by (rule mod_less) simp
  finally show ?thesis by (simp add: unsigned_ucast_eq take_bit_eq_mod)
qed

text \<open>C12: \<^verbatim>\<open>checksum16\<close> is the Internet checksum: the ones' complement of the ones' complement sum of the 16-bit
  words.  The folded sum is congruent to the sum of the words modulo 65535, it is 0 only when all words are
  0, and the result is its complement.\<close>

theorem checksum16_spec:
  assumes "unat len \<le> 65535"
  shows "\<exists>t. unat (checksum16 a len m) = 65535 - t \<and> t \<le> 65535
    \<and> t mod 65535 = sum_list (words16 m a (unat len)) mod 65535
    \<and> (t = 0 \<longleftrightarrow> sum_list (words16 m a (unat len)) = 0)"
proof -
  let ?S = "sum_list (words16 m a (unat len))"
  have "?S \<le> (unat len + 1) div 2 * 65535" by (rule words16_bound)
  also have "\<dots> \<le> 32768 * 65535" using assms by (intro mult_right_mono) auto
  finally have S: "unat (of_nat ?S :: u32) = ?S" by (simp add: unat_of_nat)
  define t where "t = fold_sum (of_nat ?S)"
  have c: "checksum16 a len m = ucast (NOT t)" by (simp add: checksum16_def csum_loop_words t_def)
  have P: "unat t < 65536" "unat t mod 65535 = ?S mod 65535" "t = 0 \<longleftrightarrow> (of_nat ?S :: u32) = 0"
    using fold_sum_props [of "of_nat ?S"] unfolding S t_def [symmetric] by blast+
  have z: "unat t = 0 \<longleftrightarrow> ?S = 0" using P(3) unfolding unat_eq_0 [symmetric] S .
  show ?thesis
    using P(1,2) z unat_complement16 [OF P(1)] unfolding c by (intro exI [of _ "unat t"] conjI) simp_all
qed

text \<open>Storing a word changes the words of the block in one place.\<close>

lemma of_nat_u32_inj: "i < 2 ^ 32 \<Longrightarrow> j < 2 ^ 32 \<Longrightarrow> (of_nat i :: u32) = of_nat j \<longleftrightarrow> i = j"
  by (simp add: word_unat_eq_iff unat_of_nat take_bit_nat_eq_self)

lemma words16_cong:
  "(\<And>j. j < n \<Longrightarrow> m' (a + of_nat j) = m (a + of_nat j)) \<Longrightarrow> words16 m' a n = words16 m a n"
proof (induction m a n rule: words16.induct)
  case (2 m a)
  from 2 [of 0] show ?case by simp
next
  case (3 m a n)
  have "ld16 m' a = ld16 m a" using 3(2) [of 0] 3(2) [of 1] by (simp add: ld16_def)
  moreover have "m' (a + 2 + of_nat j) = m (a + 2 + of_nat j)" if "j < n" for j
    using 3(2) [of "j + 2"] that by (simp add: algebra_simps)
  ultimately show ?case using 3(1) by simp
qed simp

lemma words16_st16:
  assumes "2 * i + 1 < n" "n \<le> 65535"
  shows "words16 (st16 m (a + of_nat (2 * i)) w) a n = (words16 m a n)[i := unat w]"
  using assms
proof (induction i arbitrary: a n)
  case 0
  then obtain k where n: "n = Suc (Suc k)" by (cases n; cases "n - 1") auto
  have "st16 m a w (a + 2 + of_nat j) = m (a + 2 + of_nat j)" if "j < k" for j
    using that 0 n of_nat_u32_inj [of "j + 2" 0] of_nat_u32_inj [of "j + 2" 1] by (simp add: st16_def add.assoc)
  then have "words16 (st16 m a w) (a + 2) k = words16 m (a + 2) k" by (rule words16_cong)
  then show ?case by (simp add: n mem_simps)
next
  case (Suc i)
  then obtain k where n: "n = Suc (Suc k)" by (cases n; cases "n - 1") auto
  have e: "a + of_nat (2 * Suc i) = a + 2 + of_nat (2 * i)" by simp
  have "ld16 (st16 m (a + of_nat (2 * Suc i)) w) a = ld16 m a"
    using Suc.prems of_nat_u32_inj [of "2 * Suc i" 0] of_nat_u32_inj [of "2 * Suc i" 1] of_nat_u32_inj [of "2 * Suc i + 1" 0]
      of_nat_u32_inj [of "2 * Suc i + 1" 1]
    by (simp add: st16_def ld16_def add.assoc eq_commute [of a] eq_commute [of "a + 1"])
  then show ?case using Suc.IH [of k "a + 2"] Suc.prems unfolding n e by simp
qed

lemma words16_nth: "2 * i + 1 < n \<Longrightarrow> words16 m a n ! i = unat (ld16 m (a + of_nat (2 * i))) \<and> i < length (words16 m a n)"
proof (induction m a n arbitrary: i rule: words16.induct)
  case (3 m a n)
  then show ?case by (cases i) (auto simp: algebra_simps)
qed simp_all

text \<open>C13: A header whose checksum field was zero and then is set to \<^verbatim>\<open>checksum16\<close> of the header verifies: the
  checksum over the result is 0.  This is what \<^verbatim>\<open>ipv4_output\<close> does with the IPv4 header and what a receiver
  that follows the standard tests.\<close>

theorem checksum16_verifies:
  assumes "unat len \<le> 65535" "2 * i + 1 < unat len" "ld16 m (a + of_nat (2 * i)) = 0"
    and "sum_list (words16 m a (unat len)) \<noteq> 0"
  shows "checksum16 a len (st16 m (a + of_nat (2 * i)) (checksum16 a len m)) = 0"
proof -
  let ?c = "checksum16 a len m" and ?ws = "words16 m a (unat len)"
  let ?m' = "st16 m (a + of_nat (2 * i)) ?c"
  obtain t where t: "unat ?c = 65535 - t" "t \<le> 65535" "t mod 65535 = sum_list ?ws mod 65535"
    using checksum16_spec [OF assms(1)] by blast
  have "sum_list (words16 ?m' a (unat len)) = sum_list ?ws + unat ?c"
    using words16_st16 [OF assms(2,1)] words16_nth [OF assms(2), of m a] assms(3) by (simp add: sum_list_update)
  moreover have "(sum_list ?ws + unat ?c) mod 65535 = 0"
    using t by (metis add.commute le_add_diff_inverse2 mod_add_left_eq mod_self)
  ultimately have "sum_list (words16 ?m' a (unat len)) mod 65535 = 0" "sum_list (words16 ?m' a (unat len)) \<noteq> 0"
    using assms(4) by simp_all
  then obtain u where "unat (checksum16 a len ?m') = 65535 - u" "u \<le> 65535" "u mod 65535 = 0" "u \<noteq> 0"
    using checksum16_spec [OF assms(1), of a ?m'] by (metis)
  moreover have "u = 65535" using calculation(2-4) by (cases "u = 65535") (simp_all add: le_neq_implies_less)
  ultimately show ?thesis by (simp add: unat_eq_0)
qed

section \<open>ARP entries that never expire\<close>

definition keeps :: "u32 \<Rightarrow> u8 list \<Rightarrow> arp_entry list \<Rightarrow> bool" where
  "keeps ip mac es \<longleftrightarrow> (\<exists>xs e ys. es = xs @ e # ys \<and> (\<forall>x\<in>set xs. ae_ip_addr x \<noteq> ip)
     \<and> ae_used e \<noteq> 0 \<and> ae_ip_addr e = ip \<and> ae_mac e = mac \<and> 1000 \<le> ae_expire e)"

lemma keeps_resolve: "keeps ip mac es \<Longrightarrow> arp_resolve ip es = Some mac"
proof -
  assume "keeps ip mac es"
  then obtain xs e ys where e: "es = xs @ e # ys" "\<forall>x\<in>set xs. ae_ip_addr x \<noteq> ip" "ae_used e \<noteq> 0" "ae_ip_addr e = ip" "ae_mac e = mac"
    unfolding keeps_def by blast
  have "\<forall>x\<in>set xs. ae_ip_addr x \<noteq> ip \<Longrightarrow> arp_resolve ip (xs @ e # ys) = arp_resolve ip (e # ys)" by (induction xs) auto
  then show ?thesis using e by simp
qed

lemma keeps_expire: "t \<le> 1000 \<Longrightarrow> keeps ip mac es \<Longrightarrow> keeps ip mac (map (arp_expire_entry t) es)"
proof -
  assume t: "t \<le> 1000" and "keeps ip mac es"
  then obtain xs e ys where e: "es = xs @ e # ys" "\<forall>x\<in>set xs. ae_ip_addr x \<noteq> ip" "ae_used e \<noteq> 0" "ae_ip_addr e = ip"
    "ae_mac e = mac" "1000 \<le> ae_expire e" unfolding keeps_def by blast
  have "arp_expire_entry t e = e" using t e(6) by (auto simp: arp_expire_entry_def)
  moreover have "ae_ip_addr (arp_expire_entry t x) = ae_ip_addr x" for x by (simp add: arp_expire_entry_def)
  ultimately show ?thesis using e unfolding keeps_def
    by (intro exI [of _ "map (arp_expire_entry t) xs"] exI [of _ e] exI [of _ "map (arp_expire_entry t) ys"]) auto
qed

lemma keeps_learn: "arp_room ip es \<Longrightarrow> 1000 \<le> t + 300 \<Longrightarrow> keeps ip mac (arp_learn ip mac t es)"
proof (induction es)
  case Nil then show ?case by (simp add: arp_room_def)
next
  case (Cons e es)
  show ?case
  proof (cases "ae_used e = 0 \<or> ae_ip_addr e = ip")
    case True
    then show ?thesis using Cons.prems unfolding keeps_def by (auto intro!: exI [of _ "[]"])
  next
    case False
    then obtain xs e' ys where "arp_learn ip mac t es = xs @ e' # ys" "\<forall>x\<in>set xs. ae_ip_addr x \<noteq> ip" "ae_used e' \<noteq> 0"
      "ae_ip_addr e' = ip" "ae_mac e' = mac" "1000 \<le> ae_expire e'"
      using Cons unfolding keeps_def arp_room_def by auto
    then show ?thesis using False unfolding keeps_def by (intro exI [of _ "e # xs"]) auto
  qed
qed

lemma tick_step: "(t :: u32) < 1000 \<Longrightarrow> t + 1 \<le> 1000"
  using inc_le by fastforce

lemma net_tick_step:
  assumes "keeps ip mac (arp_table s)" "arp_tick s < 1000"
  shows "keeps ip mac (arp_table (net_tick s)) \<and> arp_tick (net_tick s) < 1000"
  using assms keeps_expire [OF tick_step [OF assms(2)] assms(1)] arp_age_tick_bound [of "arp_table s" "arp_tick s"]
  by (auto simp: net_tick_def arp_age_def Let_def split: if_splits)

lemma net_tick_keeps:
  assumes "keeps ip mac (arp_table s)" "arp_tick s < 1000"
  shows "keeps ip mac (arp_table ((net_tick ^^ k) s)) \<and> arp_tick ((net_tick ^^ k) s) < 1000"
proof (induction k)
  case (Suc k)
  then show ?case using net_tick_step [of ip mac "(net_tick ^^ k) s"] by simp
qed (use assms in simp)

text \<open>An ARP entry that is recorded in the last 300 ticks before a sweep never expires.  The sweep runs when
  the counter reaches 1000 and then sets it to 0, so the expiry time \<^verbatim>\<open>arp_tick + 300\<close> of such an entry is
  never passed: however many ticks follow, the lookup gives the recorded address.\<close>

theorem arp_late_entry_never_expires:
  assumes "700 \<le> arp_tick s" "arp_tick s < 1000" "arp_room ip (arp_table s)"
  shows "arp_resolve ip (arp_table ((net_tick ^^ k) (s\<lparr>arp_table := arp_learn ip mac (arp_tick s) (arp_table s)\<rparr>))) = Some mac"
proof -
  have "1000 \<le> arp_tick s + 300"
  proof -
    have "unat (arp_tick s + 300) = unat (arp_tick s) + 300"
      using unat_add_no_wrap [of "arp_tick s" 300] assms(2) by (simp add: word_less_nat_alt)
    then show ?thesis using assms(1) by (simp add: word_le_nat_alt)
  qed
  then have "keeps ip mac (arp_table (s\<lparr>arp_table := arp_learn ip mac (arp_tick s) (arp_table s)\<rparr>))"
    using keeps_learn [OF assms(3)] by simp
  then show ?thesis using net_tick_keeps [of ip mac _ k] assms(2) keeps_resolve by fastforce
qed

theorem arp_late_entry_never_expires_witness:
  "arp_resolve 0x0A000001 (arp_table ((net_tick ^^ 5000) ((kstate_boot\<lparr>arp_tick := 800\<rparr>)
      \<lparr>arp_table := arp_learn 0x0A000001 [1, 2, 3, 4, 5, 6] 800 arp_table_init\<rparr>))) = Some [1, 2, 3, 4, 5, 6]"
  using arp_late_entry_never_expires [of "kstate_boot\<lparr>arp_tick := 800\<rparr>" "0x0A000001" 5000 "[1, 2, 3, 4, 5, 6]"]
  by (simp add: kstate_boot_def arp_room_def arp_table_init_def arp_entry_zero_def)

section \<open>An example network\<close>

definition ramfs_boot :: "file_state \<Rightarrow> ramfs_state" where
  "ramfs_boot s = file_state.extend s (ramfs_state.fields (\<lambda>_. ramfs_node_zero) 0 0 NULL 0 0)"

definition devfs_boot :: "ramfs_state \<Rightarrow> devfs_state" where
  "devfs_boot s = ramfs_state.extend s (devfs_state.fields (replicate 32 devfs_node_zero) 0 0 False 0)"

definition net_boot :: "devfs_state \<Rightarrow> net_state" where
  "net_boot s = devfs_state.extend s (net_state.fields (replicate 8 NULL) 0 (\<lambda>_. net_iface_zero) (\<lambda>_. pbuf_zero)
     (\<lambda>_. socket_zero) NULL 1024 1)"

definition demo_net :: net_state where
  "demo_net = net_boot (devfs_boot (ramfs_boot (file_boot (mstate.extend demo_heap (dstate.fields demo_dev [])))))"

lemmas net_boot_defs = net_boot_def devfs_boot_def ramfs_boot_def file_boot_def mstate.defs dstate.defs file_state.defs
  ramfs_state.defs devfs_state.defs net_state.defs

lemma demo_net_simps [simp]:
  "regions demo_net = regions demo_heap" "mem demo_net = mem demo_heap" "num_regions demo_net = num_regions demo_heap"
  "heap_lock demo_net = heap_lock demo_heap" "cpu0 demo_net = cpu0 demo_heap" "sockets demo_net = NULL"
  "num_ifaces demo_net = 0"
  by (simp_all add: demo_net_def net_boot_defs)

lemma demo_net_bump:
  "bump 0 0x3FC90000 demo_net" "hb_size demo_net 0x3FC90000 = 0xFFEC" "lock_idle demo_net"
  using demo_heap_bump by (simp_all add: bump_def hb_defs lock_idle_def)

lemma bump_upd_pbuf [simp]:
  "bump i g (upd_pbuf p f s) = bump i g s" "hb_size (upd_pbuf p f s) = hb_size s" "lock_idle (upd_pbuf p f s) = lock_idle s"
  by (simp_all add: bump_def upd_pbuf_def hb_defs lock_idle_def fun_eq_iff)

lemma demo_pbuf_alloc: "\<exists>s'. pbuf_alloc sw 4 demo_net = Some (0x3FC90014, s')"
proof -
  have r: "round_up 28 = 32" "round_up 22 = 24" by (simp_all add: round_up_def)
  obtain s1 where s1: "kzalloc sw 28 demo_net = Some (0x3FC90014, s1)" "bump 0 0x3FC90034 s1"
    "hb_size s1 0x3FC90034 = 0xFFB8" "lock_idle s1"
    using kzalloc_bump [OF demo_net_bump(1,3), of 28 sw] demo_net_bump(2) by (auto simp: r)
  then have "bump 0 0x3FC90034 (upd_pbuf 0x3FC90014 (\<lambda>_. pbuf_zero) s1)"
    "lock_idle (upd_pbuf 0x3FC90014 (\<lambda>_. pbuf_zero) s1)" by simp_all
  from kmalloc_bump [OF this, of 22 sw] show ?thesis using s1
    by (simp add: pbuf_alloc_def kzalloc_pbuf_def r)
qed

theorem sock_sendto_fails_witness:
  "\<exists>s'. sock_sendto (\<lambda>_ _. Some) 3 0x500 0x100 4 0x7F000001 7 demo_net = Some (-1, s')"
proof -
  obtain s1 where p: "pbuf_alloc (\<lambda>_ _. Some) 4 demo_net = Some (0x3FC90014, s1)" using demo_pbuf_alloc by blast
  have u: "\<exists>v s'. udp_output (\<lambda>_ _. Some) 3 0x500 0x3FC90014 t = Some (v, s')"
    if "pb_data (pbufs t 0x3FC90014) - pb_head (pbufs t 0x3FC90014) = 18" for t :: net_state
    using udp_output_short [OF that] by blast
  have "\<exists>v s'. sock_sendto (\<lambda>_ _. Some) 3 0x500 0x100 4 0x7F000001 7 demo_net = Some (v, s')"
    using p pbuf_alloc_headroom [OF p] by (auto simp: sock_sendto_def Let_def upd_pbuf_def intro!: u)
  then show ?thesis using sock_sendto_fails by blast
qed

lemma words16_4: "words16 m a 4 = [unat (ld16 m a), unat (ld16 m (a + 2))]"
proof -
  have "4 = Suc (Suc (Suc (Suc 0)))" by simp
  then show ?thesis by (simp only: words16.simps)
qed

theorem checksum16_spec_witness:
  "\<exists>t. unat (checksum16 0x100 4 ((\<lambda>_. 0)(0x101 := 1, 0x103 := 2))) = 65535 - t \<and> t mod 65535 = 768"
proof -
  have "sum_list (words16 ((\<lambda>_. 0)(0x101 := 1, 0x103 := 2)) 0x100 (unat (4 :: u32))) = 768"
    by (simp add: words16_4 ld16_def)
  then show ?thesis using checksum16_spec [of 4 "0x100" "(\<lambda>_. 0)(0x101 := 1, 0x103 := 2)"] by fastforce
qed

theorem checksum16_verifies_witness:
  "checksum16 0x100 4 (st16 ((\<lambda>_. 0)(0x101 := 1)) 0x102 (checksum16 0x100 4 ((\<lambda>_. 0)(0x101 := 1)))) = 0"
proof -
  have "sum_list (words16 ((\<lambda>_. 0)(0x101 := 1)) 0x100 (unat (4 :: u32))) \<noteq> 0"
    by (simp add: words16_4 ld16_def)
  then show ?thesis using checksum16_verifies [of 4 1 "(\<lambda>_. 0)(0x101 := 1)" "0x100"] by (simp add: ld16_def)
qed

end
