(* ===== verification/Pipe.thy ===== *)
theory Pipe
  imports Net
begin

text \<open>
  Pipes: the file operations of \<^verbatim>\<open>src/kernel/syscall/syscall.c\<close> and \<^verbatim>\<open>src/kernel/ipc/ipc.c\<close>.  A pipe is a block of
  byte memory, so that the copies can be seen to leave its buffer.  The reads and writes are proved to be those
  of a queue while the positions stay inside the buffer.
\<close>

unbundle bit_operations_syntax

section \<open>Pipes\<close>

text \<open>A pipe is in memory: 4096 bytes of buffer and six words.\<close>

definition pipe_int :: "u32 \<Rightarrow> u32 \<Rightarrow> 'a mstate_scheme \<Rightarrow> int" where
  "pipe_int p off s = sint (ld32 (mem s) (p + off))"

definition set_pipe_int :: "u32 \<Rightarrow> u32 \<Rightarrow> int \<Rightarrow> 'a mstate_scheme \<Rightarrow> 'a mstate_scheme" where
  "set_pipe_int p off v s = poke32 (p + off) (word_of_int v) s"

abbreviation (input) READ_POS :: u32 where "READ_POS \<equiv> 4096"
abbreviation (input) WRITE_POS :: u32 where "WRITE_POS \<equiv> 4100"
abbreviation (input) READERS :: u32 where "READERS \<equiv> 4104"
abbreviation (input) WRITERS :: u32 where "WRITERS \<equiv> 4108"
abbreviation (input) PIPE_SIZE :: u32 where "PIPE_SIZE \<equiv> 4120"

definition file_pipe :: "file_ref \<Rightarrow> 'a file_state_scheme \<Rightarrow> u32 option" where
  "file_pipe r s = do {
     f \<leftarrow> get_file_obj r s;
     case f_private f of PNull \<Rightarrow> Some NULL | PPipe p \<Rightarrow> Some p | _ \<Rightarrow> None }"

partial_function (option) pipe_wait_data :: "'a net_switch \<Rightarrow> u32 \<Rightarrow> 'a net_state_scheme \<Rightarrow> 'a net_state_scheme option" where
  "pipe_wait_data sw p s =
     (if pipe_int p READ_POS s = pipe_int p WRITE_POS s \<and> pipe_int p WRITERS s > 0
      then do { s \<leftarrow> schedule sw s; pipe_wait_data sw p s }
      else Some s)"

definition pipe_read ::
  "'a net_switch \<Rightarrow> file_ref \<Rightarrow> u32 \<Rightarrow> u32 \<Rightarrow> 'a net_state_scheme \<Rightarrow> (int \<times> 'a net_state_scheme) option" where
  "pipe_read sw r buf count s = do {
     p \<leftarrow> file_pipe r s;
     if p = NULL then Some (-1, s)
     else do {
       s \<leftarrow> pipe_wait_data sw p s;
       if pipe_int p READ_POS s = pipe_int p WRITE_POS s \<and> pipe_int p WRITERS s = 0 then Some (0, s)
       else do {
         let available = pipe_int p WRITE_POS s - pipe_int p READ_POS s;
         let available = (if available > sint count then sint count else available);
         let s = (if available > 0
                  then let s = s\<lparr>mem := memcpy buf (p + word_of_int (pipe_int p READ_POS s)) (word_of_int available) (mem s)\<rparr>;
                           s = set_pipe_int p READ_POS (pipe_int p READ_POS s + available) s
                       in if pipe_int p READ_POS s = pipe_int p WRITE_POS s
                          then set_pipe_int p READ_POS 0 (set_pipe_int p WRITE_POS 0 s) else s
                  else s);
         Some (available, s) } } }"

partial_function (option) pipe_wait_room :: "'a net_switch \<Rightarrow> u32 \<Rightarrow> 'a net_state_scheme \<Rightarrow> 'a net_state_scheme option" where
  "pipe_wait_room sw p s =
     (if pipe_int p WRITE_POS s - pipe_int p READ_POS s \<ge> 4096 \<and> pipe_int p READERS s > 0
      then do { s \<leftarrow> schedule sw s; pipe_wait_room sw p s }
      else Some s)"

definition pipe_write ::
  "'a net_switch \<Rightarrow> file_ref \<Rightarrow> u32 \<Rightarrow> u32 \<Rightarrow> 'a net_state_scheme \<Rightarrow> (int \<times> 'a net_state_scheme) option" where
  "pipe_write sw r buf count s = do {
     p \<leftarrow> file_pipe r s;
     if p = NULL then Some (-1, s)
     else do {
       s \<leftarrow> pipe_wait_room sw p s;
       if pipe_int p READERS s = 0 then Some (-1, s)
       else do {
         let available = 4096 - (pipe_int p WRITE_POS s - pipe_int p READ_POS s);
         let available = (if available > sint count then sint count else available);
         let s = (if available > 0
                  then let s = s\<lparr>mem := memcpy (p + word_of_int (pipe_int p WRITE_POS s)) buf (word_of_int available) (mem s)\<rparr>
                       in set_pipe_int p WRITE_POS (pipe_int p WRITE_POS s + available) s
                  else s);
         Some (available, s) } } }"

definition pipe_close_read :: "'a net_switch \<Rightarrow> file_ref \<Rightarrow> 'a net_state_scheme \<Rightarrow> (int \<times> 'a net_state_scheme) option" where
  "pipe_close_read sw r s = do {
     p \<leftarrow> file_pipe r s;
     if p = NULL then Some (-1, s)
     else do {
       let s = set_pipe_int p READERS (pipe_int p READERS s - 1) s;
       s \<leftarrow> (if pipe_int p READERS s = 0 \<and> pipe_int p WRITERS s > 0 then schedule sw s else Some s);
       Some (0, s) } }"

definition pipe_close_write :: "'a net_switch \<Rightarrow> file_ref \<Rightarrow> 'a net_state_scheme \<Rightarrow> (int \<times> 'a net_state_scheme) option" where
  "pipe_close_write sw r s = do {
     p \<leftarrow> file_pipe r s;
     if p = NULL then Some (-1, s)
     else do {
       let s = set_pipe_int p WRITERS (pipe_int p WRITERS s - 1) s;
       s \<leftarrow> (if pipe_int p WRITERS s = 0 \<and> pipe_int p READERS s > 0 then schedule sw s else Some s);
       Some (0, s) } }"

text \<open>The pipe of \<^verbatim>\<open>ipc.c\<close> has the same layout.\<close>

definition pipe_create :: "'a net_switch \<Rightarrow> 'a net_state_scheme \<Rightarrow> (u32 \<times> 'a net_state_scheme) option" where
  "pipe_create sw s = do {
     (p, s) \<leftarrow> kzalloc sw PIPE_SIZE s;
     if p = NULL then Some (NULL, s)
     else Some (p, set_pipe_int p READERS 1 (set_pipe_int p WRITERS 1 s)) }"

definition pipe_destroy :: "'a net_switch \<Rightarrow> u32 \<Rightarrow> 'a net_state_scheme \<Rightarrow> 'a net_state_scheme option" where
  "pipe_destroy sw p s = kfree sw p s"


section \<open>A pipe is a bounded queue\<close>

text \<open>The bytes between the positions; \<open>pipe_ok\<close> says that the positions are inside the buffer and the pipe does not
  wrap around the address space.\<close>

definition pipe_ok :: "u32 \<Rightarrow> 'a mstate_scheme \<Rightarrow> bool" where
  "pipe_ok p s \<longleftrightarrow> unat (ld32 (mem s) (p + READ_POS)) \<le> unat (ld32 (mem s) (p + WRITE_POS))
     \<and> unat (ld32 (mem s) (p + WRITE_POS)) \<le> 4096 \<and> unat p + 4120 < 2 ^ 32"

definition pipe_queue :: "u32 \<Rightarrow> 'a mstate_scheme \<Rightarrow> u8 list" where
  "pipe_queue p s = mem_read (mem s) (p + ld32 (mem s) (p + READ_POS))
     (unat (ld32 (mem s) (p + WRITE_POS)) - unat (ld32 (mem s) (p + READ_POS)))"

text \<open>A buffer outside the pipe.\<close>

definition off_pipe :: "u32 \<Rightarrow> u32 \<Rightarrow> nat \<Rightarrow> bool" where
  "off_pipe p buf k \<longleftrightarrow> (\<forall>i<k. 4120 \<le> unat (buf + of_nat i - p))"

lemma unat_small: "x < 2 ^ 32 \<Longrightarrow> unat (of_nat x :: u32) = x"
  by (simp add: unat_of_nat)

lemma rel_sub: "w \<le> x \<Longrightarrow> p + of_nat x - (p + of_nat w) = (of_nat (x - w) :: u32)"
  by (simp add: of_nat_diff)

lemma rel_sub_below:
  assumes "x < w" "w < 2 ^ 31" shows "2 ^ 31 < unat (p + of_nat x - (p + of_nat w) :: u32)"
proof -
  define d where "d = w - x"
  have d: "0 < d" "d < 2 ^ 31" "w = x + d" using assms by (auto simp: d_def)
  have "unat (of_nat d :: u32) = d" using d by (simp add: unat_small)
  moreover have "of_nat d \<noteq> (0 :: u32)" using calculation d(1) by (metis less_numeral_extra(3) unat_0)
  ultimately have "unat (- (of_nat d :: u32)) = 2 ^ 32 - d" using unat_uminus [of "of_nat d :: u32"] by simp
  moreover have "p + of_nat x - (p + of_nat w) = - (of_nat d :: u32)" by (simp add: d(3))
  ultimately show ?thesis using d(2) by simp
qed

lemma copy_into_pipe:
  assumes "off_pipe p buf k" "x < 4120" "w \<le> 4096" "k \<le> 4096" "w + k \<le> 4120"
  shows "memcpy (p + of_nat w) buf (of_nat k) m (p + of_nat x)
     = (if w \<le> x \<and> x < w + k then m (buf + of_nat (x - w)) else m (p + of_nat x))"
proof -
  have k: "unat (of_nat k :: u32) = k" using assms(4) by (simp add: unat_small)
  have "p + of_nat w + of_nat i \<noteq> buf + of_nat j" if "i < j" "j < unat (of_nat k :: u32)" for i j
  proof
    assume "p + of_nat w + of_nat i = buf + of_nat j"
    then have "buf + of_nat j - p = of_nat (w + i)" by (simp add: algebra_simps)
    moreover have "unat (of_nat (w + i) :: u32) = w + i" using that assms k by (intro unat_small) simp
    ultimately show False using assms that k by (auto simp: off_pipe_def)
  qed
  note M = memcpy_at [of "of_nat k" "p + of_nat w" buf m "p + of_nat x", OF this, unfolded k]
  show ?thesis
  proof (cases "w \<le> x")
    case True
    have "unat (of_nat (x - w) :: u32) = x - w" using assms by (intro unat_small) simp
    then show ?thesis using M True by (simp only: rel_sub [OF True]) (auto simp: less_diff_conv2)
  next
    case False
    then have "2 ^ 31 < unat (p + of_nat x - (p + of_nat w))" by (intro rel_sub_below) (use assms in auto)
    then show ?thesis using M False assms(4) by (simp only:) simp
  qed
qed

lemma sint_small: "unat w < 2 ^ 31 \<Longrightarrow> sint (w :: u32) = int (unat w)"
proof -
  assume "unat w < 2 ^ 31"
  then have "int (unat w) < int (2 ^ 31)" by (simp only: of_nat_less_iff)
  then have "uint w < 2 ^ 31" by simp
  moreover have "- (2 ^ 31) \<le> uint w" by (rule order_trans [OF _ unsigned_greater_eq]) simp
  ultimately have "signed_take_bit 31 (uint w) = uint w" by (intro signed_take_bit_int_eq_self)
  then show ?thesis by (simp add: sint_uint)
qed

lemma ld32_rel:
  assumes "\<And>x. y \<le> x \<Longrightarrow> x < y + 4 \<Longrightarrow> m (p + of_nat x) = m' (p + of_nat x)"
  shows "ld32 m (p + of_nat y) = ld32 m' (p + of_nat y)"
proof (rule ld32_cong)
  fix j :: u32 assume "j < 4"
  then have "unat j < 4" by (simp add: word_less_nat_alt)
  then show "m (p + of_nat y + j) = m' (p + of_nat y + j)" using assms [of "y + unat j"] by (simp add: add.assoc)
qed

lemma st32_rel:
  assumes "x < y \<or> y + 4 \<le> x" "x < 2 ^ 31" "y < 2 ^ 31"
  shows "st32 m (p + of_nat y) v (p + of_nat x) = m (p + (of_nat x :: u32))"
proof (rule st32_other)
  fix i :: u32 assume "i < 4"
  then have i: "unat i < 4" by (simp add: word_less_nat_alt)
  show "p + of_nat y + i \<noteq> p + of_nat x"
  proof
    assume "p + of_nat y + i = p + of_nat x"
    then have "of_nat (y + unat i) = (of_nat x :: u32)" by (simp add: add.assoc)
    then have "unat (of_nat (y + unat i) :: u32) = unat (of_nat x :: u32)" by (rule arg_cong)
    moreover have "unat (of_nat (y + unat i) :: u32) = y + unat i" "unat (of_nat x :: u32) = x"
      using assms i by (intro unat_small; simp)+
    ultimately have "y + unat i = x" by simp
    then show False using assms(1) i by auto
  qed
qed

lemma mem_read_rel:
  assumes "\<And>i. i < n \<Longrightarrow> m (p + of_nat (a + i)) = m' (p + of_nat (a + i))"
  shows "mem_read m (p + of_nat a) n = mem_read m' (p + (of_nat a :: u32)) n"
  using assms by (simp add: mem_read_def add.assoc)

lemma file_pipe_of:
  "get_file_obj f s = Some g \<Longrightarrow> f_private g = PPipe p \<Longrightarrow> file_pipe f s = Some p"
  by (simp add: file_pipe_def)

lemma pipe_wait_room_free:
  "pipe_int p WRITE_POS s - pipe_int p READ_POS s < 4096 \<Longrightarrow> pipe_wait_room sw p s = Some s"
  by (simp add: pipe_wait_room.simps)

lemma pipe_wait_data_some:
  "pipe_int p WRITE_POS s \<noteq> pipe_int p READ_POS s \<Longrightarrow> pipe_wait_data sw p s = Some s"
  by (simp add: pipe_wait_data.simps)

lemma pipe_copy_fields:
  assumes "off_pipe p buf k" "w + k \<le> 4096" "4096 \<le> y" "y \<le> 4116"
  shows "ld32 (memcpy (p + of_nat w) buf (of_nat k) m) (p + of_nat y) = ld32 m (p + of_nat y)"
proof (rule ld32_rel)
  fix x assume "y \<le> x" "x < y + 4"
  then show "memcpy (p + of_nat w) buf (of_nat k) m (p + of_nat x) = m (p + of_nat x)"
    using copy_into_pipe [OF assms(1), of x w m] assms(2-4) by simp
qed

text \<open>The memory after the bytes have been copied and the position has been moved.\<close>

lemma pipe_stored:
  fixes m :: mem and v :: u32
  assumes "off_pipe p buf k" "w + k \<le> 4096" 
  defines "m' \<equiv> st32 (memcpy (p + of_nat w) buf (of_nat k) m) (p + 4100) v"
  shows "ld32 m' (p + 4096) = ld32 m (p + 4096)" "ld32 m' (p + 4100) = v" "ld32 m' (p + 4104) = ld32 m (p + 4104)"
    "ld32 m' (p + 4108) = ld32 m (p + 4108)"
    "x < 4096 \<Longrightarrow> m' (p + of_nat x) = (if w \<le> x \<and> x < w + k then m (buf + of_nat (x - w)) else m (p + of_nat x))"
proof -
  have c: "memcpy (p + of_nat w) buf (of_nat k) m (p + of_nat x) = (if w \<le> x \<and> x < w + k then m (buf + of_nat (x - w)) else m (p + of_nat x))"
    if "x < 4120" for x using copy_into_pipe [OF assms(1) that] assms(2) by auto
  note l = pipe_copy_fields [OF assms(1,2), where m = m]
  show "ld32 m' (p + 4096) = ld32 m (p + 4096)" "ld32 m' (p + 4100) = v" "ld32 m' (p + 4104) = ld32 m (p + 4104)"
    "ld32 m' (p + 4108) = ld32 m (p + 4108)"
    using l [of 4096] l [of 4104] l [of 4108]
    by (simp_all add: m'_def ld32_st32_same ld32_st32_apart apart_def)
  show "m' (p + of_nat x) = (if w \<le> x \<and> x < w + k then m (buf + of_nat (x - w)) else m (p + of_nat x))" if "x < 4096"
    using st32_rel [of x 4100 _ p v] that c by (simp add: m'_def)
qed

lemma pipe_write_step:
  assumes "file_pipe f s = Some p" "p \<noteq> NULL" "pipe_int p WRITE_POS s - pipe_int p READ_POS s < 4096" "0 < pipe_int p READERS s"
    and k: "(if 4096 - (pipe_int p WRITE_POS s - pipe_int p READ_POS s) > sint count then sint count
        else 4096 - (pipe_int p WRITE_POS s - pipe_int p READ_POS s)) = int k"
  shows "pipe_write sw f buf count s = Some (int k, if k = 0 then s
     else set_pipe_int p WRITE_POS (pipe_int p WRITE_POS (s\<lparr>mem := memcpy (p + word_of_int (pipe_int p WRITE_POS s)) buf (of_nat k) (mem s)\<rparr>) + int k)
            (s\<lparr>mem := memcpy (p + word_of_int (pipe_int p WRITE_POS s)) buf (of_nat k) (mem s)\<rparr>))"
proof -
  have "pipe_int p READERS s \<noteq> 0" "0 < int k \<longleftrightarrow> k \<noteq> 0" using assms(4) by auto
  then show ?thesis
    unfolding pipe_write_def assms(1) Let_def bind.bind_lunit pipe_wait_room_free [OF assms(3)] k
    using assms(2) by simp
qed


lemma copy_from_pipe:
  assumes "off_pipe p buf k" "r + k \<le> 4096"
  shows "x < 4120 \<Longrightarrow> memcpy buf (p + of_nat r) (of_nat k) m (p + of_nat x) = m (p + of_nat x)"
    "mem_read (memcpy buf (p + of_nat r) (of_nat k) m) buf k = mem_read m (p + of_nat r) k"
proof -
  have k: "unat (of_nat k :: u32) = k" using assms(2) by (intro unat_small) simp
  have ne: "buf + of_nat i \<noteq> p + of_nat r + of_nat j" if "i < k" "j < k" for i j
  proof
    assume "buf + of_nat i = p + of_nat r + of_nat j"
    then have "buf + of_nat i - p = of_nat (r + j)" by (simp add: algebra_simps)
    moreover have "unat (of_nat (r + j) :: u32) = r + j" using that assms by (intro unat_small) simp
    ultimately show False using assms that by (auto simp: off_pipe_def)
  qed
  note M = memcpy_at [of "of_nat k" buf "p + of_nat r" m, unfolded k, OF ne]
  show "memcpy buf (p + of_nat r) (of_nat k) m (p + of_nat x) = m (p + of_nat x)" if "x < 4120"
  proof -
    have "\<not> unat (p + of_nat x - buf) < k"
    proof
      assume "unat (p + of_nat x - buf) < k"
      then have "4120 \<le> unat (buf + of_nat (unat (p + of_nat x - buf)) - p)" using assms(1) by (simp only: off_pipe_def)
      then show False using that unat_small [of x] by simp
    qed
    then show ?thesis using M by simp
  qed
  show "mem_read (memcpy buf (p + of_nat r) (of_nat k) m) buf k = mem_read m (p + of_nat r) k"
    using memcpy_range [of "of_nat k" buf "p + of_nat r" m] ne k by simp
qed

lemma take_mem_read: "k \<le> n \<Longrightarrow> take k (mem_read m a n) = mem_read m a k"
  by (simp add: mem_read_def take_map)

lemma drop_mem_read: "drop k (mem_read m a n) = mem_read m (a + of_nat k) (n - k)"
  by (rule nth_equalityI) (simp_all add: length_mem_read nth_mem_read add.assoc)

text \<open>The memory after a read: the bytes at the buffer, the new positions.\<close>

definition pipe_taken :: "u32 \<Rightarrow> u32 \<Rightarrow> nat \<Rightarrow> nat \<Rightarrow> nat \<Rightarrow> mem \<Rightarrow> mem" where
  "pipe_taken p buf r w k m =
     (let m = st32 (memcpy buf (p + of_nat r) (of_nat k) m) (p + READ_POS) (of_nat (r + k))
      in if r + k = w then st32 (st32 m (p + WRITE_POS) 0) (p + READ_POS) 0 else m)"

lemma pipe_read_step:
  assumes "file_pipe f s = Some p" "p \<noteq> NULL" "ld32 (mem s) (p + READ_POS) = of_nat r" "ld32 (mem s) (p + WRITE_POS) = of_nat w"
    "r < w" "w \<le> 4096" "off_pipe p buf k" "r + k \<le> w"
    and k: "(if int w - int r > sint count then sint count else int w - int r) = int k"
  shows "pipe_read sw f buf count s = Some (int k, if k = 0 then s else s\<lparr>mem := pipe_taken p buf r w k (mem s)\<rparr>)"
proof -
  have u: "sint (of_nat x :: u32) = int x" if "x \<le> 4096" for x using that by (simp add: sint_small unat_small)
  have pi: "pipe_int p READ_POS s = int r" "pipe_int p WRITE_POS s = int w"
    using assms(3-6) u [of r] u [of w] by (simp_all add: pipe_int_def)
  let ?m = "memcpy buf (p + of_nat r) (of_nat k) (mem s)"
  have f: "ld32 ?m (p + of_nat y) = ld32 (mem s) (p + of_nat y)" if "y \<le> 4116" for y
    by (rule ld32_rel, rule copy_from_pipe(1) [OF assms(7)]) (use assms(6,8) that in auto)
  have g: "ld32 ?m (p + READ_POS) = of_nat r" "ld32 ?m (p + WRITE_POS) = of_nat w"
    using f [of 4096] f [of 4100] assms(3,4) by simp_all
  have nz: "int r \<noteq> int w" "0 < int k \<longleftrightarrow> k \<noteq> 0" using assms(5) by auto
  have nw: "r \<noteq> w" and wi_0: "word_of_int 0 = (0 :: u32)" using assms(5) by auto
  have pw: "pipe_wait_data sw p s = Some s" using pipe_wait_data_some pi nz(1) by metis
  have S: "set_pipe_int p a v (s\<lparr>mem := m\<rparr>) = s\<lparr>mem := st32 m (p + a) (word_of_int v)\<rparr>" for a v m
    by (simp add: set_pipe_int_def poke32_def)
  have I: "pipe_int p a (s\<lparr>mem := m\<rparr>) = sint (ld32 m (p + a))" for a m by (simp add: pipe_int_def)
  let ?m1 = "st32 ?m (p + READ_POS) (of_nat (r + k))"
  have g1: "ld32 ?m1 (p + READ_POS) = of_nat (r + k)" "ld32 ?m1 (p + WRITE_POS) = of_nat w"
    using g by (simp_all add: ld32_st32_same ld32_st32_apart apart_def)
  have u1: "sint (of_nat r :: u32) = int r" "sint (of_nat w :: u32) = int w" "sint (of_nat (r + k) :: u32) = int (r + k)"
    using assms(5,6,8) by (simp_all only: u)
  have w1: "word_of_int (int r + int k) = (of_nat (r + k) :: u32)" "word_of_int (int k) = (of_nat k :: u32)"
    "word_of_int (int r) = (of_nat r :: u32)" by simp_all
  note U = pipe_read_def assms(1) Let_def bind.bind_lunit pw pi k w1 S I g u1 g1 pipe_taken_def
  show ?thesis
  proof (cases "k = 0")
    case True
    then have "\<not> 0 < int k" by simp
    then show ?thesis unfolding U by (simp only: assms(2) nz nw if_False if_True simp_thms True of_nat_eq_iff)
  next
    case False
    then show ?thesis unfolding U
      by (cases "r + k = w"; simp only: assms(2) nz nw wi_0 if_False if_True simp_thms S I g u1 g1 of_nat_eq_iff)
  qed
qed

lemma pipe_taken_fields:
  assumes "off_pipe p buf k" "r + k \<le> w" "w \<le> 4096" and ld: "ld32 m (p + WRITE_POS) = of_nat w"
  defines "m' \<equiv> pipe_taken p buf r w k m"
  shows "ld32 m' (p + READ_POS) = (if r + k = w then 0 else of_nat (r + k))"
    "ld32 m' (p + WRITE_POS) = (if r + k = w then 0 else of_nat w)"
    "ld32 m' (p + READERS) = ld32 m (p + READERS)" "ld32 m' (p + WRITERS) = ld32 m (p + WRITERS)"
    "x < 4096 \<Longrightarrow> m' (p + of_nat x) = m (p + of_nat x)"
    "mem_read m' buf k = mem_read m (p + of_nat r) k"
proof -
  let ?m = "memcpy buf (p + of_nat r) (of_nat k) m"
  have rk: "r + k \<le> 4096" using assms(2,3) by simp
  note C = copy_from_pipe [OF assms(1) rk, where m = m]
  have f: "ld32 ?m (p + of_nat y) = ld32 m (p + of_nat y)" if "y \<le> 4116" for y
    by (rule ld32_rel, rule C(1)) (use that in auto)
  show "ld32 m' (p + READ_POS) = (if r + k = w then 0 else of_nat (r + k))"
    "ld32 m' (p + WRITE_POS) = (if r + k = w then 0 else of_nat w)"
    "ld32 m' (p + READERS) = ld32 m (p + READERS)" "ld32 m' (p + WRITERS) = ld32 m (p + WRITERS)"
    using f [of 4096] f [of 4100] f [of 4104] f [of 4108] ld
    by (simp_all add: m'_def pipe_taken_def Let_def ld32_st32_same ld32_st32_apart apart_def)
  have S: "m' a = ?m a" if h: "\<And>y. 4096 \<le> y \<Longrightarrow> y < 4104 \<Longrightarrow> a \<noteq> p + of_nat y" for a
  proof -
    have "st32 n (p + READ_POS) v a = n a \<and> st32 n (p + WRITE_POS) v a = n a" for n v
    proof (intro conjI st32_other)
      fix i :: u32 assume "i < 4"
      then have "unat i < 4" by (simp add: word_less_nat_alt)
      then show "p + READ_POS + i \<noteq> a" "p + WRITE_POS + i \<noteq> a"
        using h [of "4096 + unat i"] h [of "4100 + unat i"] by (auto simp: add.assoc)
    qed
    then show ?thesis by (simp add: m'_def pipe_taken_def Let_def)
  qed
  have ne: "p + of_nat x \<noteq> p + (of_nat y :: u32)" if "x \<noteq> y" "x < 2 ^ 32" "y < 2 ^ 32" for x y
    using that unat_small [of x] unat_small [of y] by (metis add_left_cancel)
  show "m' (p + of_nat x) = m (p + of_nat x)" if "x < 4096"
    using S [of "p + of_nat x"] ne C(1) that by simp
  have "buf + of_nat i \<noteq> p + of_nat y" if "i < k" "y < 4104" for i y
    using assms(1) that unat_small [of y] by (auto simp: off_pipe_def)
  then have "mem_read m' buf k = mem_read ?m buf k" using S by (simp add: mem_read_def)
  then show "mem_read m' buf k = mem_read m (p + of_nat r) k" using C(2) by simp
qed

text \<open>C19: \<^verbatim>\<open>pipe_read\<close> takes bytes from the front of the queue: from a pipe that is not empty it returns, without
  waiting, the smaller of \<open>count\<close> and the length of the queue, stores that many of the oldest bytes in the
  buffer and removes them.\<close>

theorem pipe_read_dequeues:
  assumes "get_file_obj f s = Some g" "f_private g = PPipe p" "p \<noteq> NULL" "pipe_ok p s" "pipe_queue p s \<noteq> []" "unat count < 2 ^ 31"
    and k: "k = min (unat count) (length (pipe_queue p s))" and "off_pipe p buf k"
  shows "\<exists>s'. pipe_read sw f buf count s = Some (int k, s') \<and> pipe_ok p s'
     \<and> mem_read (mem s') buf k = take k (pipe_queue p s) \<and> pipe_queue p s' = drop k (pipe_queue p s)
     \<and> pipe_int p READERS s' = pipe_int p READERS s \<and> pipe_int p WRITERS s' = pipe_int p WRITERS s"
proof -
  define r w where "r = unat (ld32 (mem s) (p + READ_POS))" and "w = unat (ld32 (mem s) (p + WRITE_POS))"
  have q: "pipe_queue p s = mem_read (mem s) (p + of_nat r) (w - r)" by (simp add: pipe_queue_def r_def w_def)
  have rw: "r < w" "w \<le> 4096" "unat p + 4120 < 2 ^ 32" using assms(4,5) q
    by (auto simp: pipe_ok_def r_def w_def mem_read_def)
  have kc: "k = min (unat count) (w - r)" "r + k \<le> w" using k q rw by (auto simp: length_mem_read)
  have ld: "ld32 (mem s) (p + READ_POS) = of_nat r" "ld32 (mem s) (p + WRITE_POS) = of_nat w" by (simp_all add: r_def w_def)
  have av: "(if int w - int r > sint count then sint count else int w - int r) = int k"
  proof -
    define c where "c = unat count"
    have "sint count = int c" unfolding c_def using assms(6) by (rule sint_small)
    then show ?thesis using kc(1) rw(1,2) unfolding min_def c_def [symmetric] by (auto split: if_splits)
  qed
  note R = pipe_read_step [OF file_pipe_of [OF assms(1,2)] assms(3) ld rw(1,2) assms(8) kc(2) av, of sw]
  note T = pipe_taken_fields [OF assms(8) kc(2) rw(2) ld(2)]
  show ?thesis
  proof (cases "k = 0")
    case True
    then show ?thesis using R assms(4) by (simp add: mem_read_def)
  next
    case False
    define s' where "s' = s\<lparr>mem := pipe_taken p buf r w k (mem s)\<rparr>"
    have "pipe_read sw f buf count s = Some (int k, s')" using R False by (simp add: s'_def)
    moreover have "pipe_ok p s'" "pipe_int p READERS s' = pipe_int p READERS s" "pipe_int p WRITERS s' = pipe_int p WRITERS s"
      using T(1-4) rw kc(2) by (auto simp: s'_def pipe_ok_def pipe_int_def unat_small simp del: of_nat_add)
    moreover have "mem_read (mem s') buf k = take k (pipe_queue p s)"
      using T(6) kc by (simp add: s'_def q take_mem_read)
    moreover have "pipe_queue p s' = drop k (pipe_queue p s)"
    proof (cases "r + k = w")
      case True
      then have "pipe_queue p s' = []" using T(1,2) by (simp add: s'_def pipe_queue_def mem_read_def)
      moreover have "drop k (pipe_queue p s) = []" unfolding q using True by (simp add: length_mem_read)
      ultimately show ?thesis by simp
    next
      case nw: False
      have ms: "mem s' = pipe_taken p buf r w k (mem s)" by (simp add: s'_def)
      have u: "unat (of_nat (r + k) :: u32) = r + k" "unat (of_nat w :: u32) = w" using rw kc by (intro unat_small; simp)+
      have "pipe_queue p s' = mem_read (mem s') (p + of_nat (r + k)) (w - (r + k))"
        by (simp only: pipe_queue_def ms T(1,2) nw u if_False)
      moreover have "mem_read (mem s') (p + of_nat (r + k)) (w - (r + k)) = mem_read (mem s) (p + of_nat (r + k)) (w - (r + k))"
        unfolding ms by (rule mem_read_rel) (rule T(5), use rw(2) in simp)
      ultimately show ?thesis by (simp add: q drop_mem_read add.assoc)
    qed
    ultimately show ?thesis by blast
  qed
qed

text \<open>\<^verbatim>\<open>pipe_write\<close> leaves its buffer: the room it computes counts the bytes already read, but the bytes are stored
  behind the write position.  Once four bytes have been read from a pipe whose buffer has been filled, a write of four bytes is
  accepted and overwrites the word after the buffer, the read position, with the caller's data.\<close>

theorem pipe_write_overruns_buffer:
  assumes "get_file_obj f s = Some g" "f_private g = PPipe p" "p \<noteq> NULL" "0 < pipe_int p READERS s"
    "ld32 (mem s) (p + READ_POS) = of_nat r" "4 \<le> r" "r \<le> 4096" "ld32 (mem s) (p + WRITE_POS) = 4096" "off_pipe p buf 4"
  shows "\<exists>s'. pipe_write sw f buf 4 s = Some (4, s') \<and> ld32 (mem s') (p + READ_POS) = ld32 (mem s) buf"
proof -
  have s4: "sint (4 :: u32) = 4" "sint (4096 :: u32) = 4096" by simp_all
  have "sint (of_nat r :: u32) = int r" using assms(7) by (simp add: sint_small unat_small)
  then have pi: "pipe_int p READ_POS s = int r" "pipe_int p WRITE_POS s = 4096"
    using assms(5,8) s4(2) by (simp_all only: pipe_int_def)
  have "(if 4096 - (pipe_int p WRITE_POS s - pipe_int p READ_POS s) > sint (4 :: u32) then sint (4 :: u32)
        else 4096 - (pipe_int p WRITE_POS s - pipe_int p READ_POS s)) = int 4"
    using assms(6) unfolding pi s4 by simp
  moreover have "pipe_int p WRITE_POS s - pipe_int p READ_POS s < 4096" using assms(6) unfolding pi by simp
  moreover define m where "m = memcpy (p + of_nat 4096) buf (of_nat 4) (mem s)"
  ultimately obtain v where e: "pipe_write sw f buf 4 s = Some (4, set_pipe_int p WRITE_POS v (s\<lparr>mem := m\<rparr>))"
    using pipe_write_step [OF file_pipe_of [OF assms(1,2)] assms(3) _ assms(4), of 4 4 sw buf] unfolding pi by fastforce
  have "m (p + of_nat (4096 + i)) = mem s (buf + of_nat i)" if "i < 4" for i
    using copy_into_pipe [OF assms(9), of "4096 + i" 4096 "mem s"] that by (simp add: m_def)
  from this [of 0] this [of 1] this [of 2] this [of 3]
  have "ld32 m (p + READ_POS) = ld32 (mem s) buf" by (simp add: ld32_def add.assoc)
  then show ?thesis using e by (simp add: set_pipe_int_def poke32_def ld32_st32_apart apart_def)
qed

text \<open>A pipe at \<open>0x2000\<close> with one reader and one writer and the given positions, opened as a heap file.\<close>

definition demo_pipe :: "u32 \<Rightarrow> u32 \<Rightarrow> net_state" where
  "demo_pipe r w = demo_net\<lparr>mem := st32 (st32 (st32 (st32 (\<lambda>a. ucast a) 0x3000 r) 0x3004 w) 0x3008 1) 0x300C 1,
     heap_files := (heap_files demo_net)(0x100 := file_zero\<lparr>f_private := PPipe 0x2000\<rparr>)\<rparr>"

lemma demo_pipe_fields:
  "get_file_obj (HeapFile 0x100) (demo_pipe r w) = Some (file_zero\<lparr>f_private := PPipe 0x2000\<rparr>)"
  "ld32 (mem (demo_pipe r w)) (0x2000 + READ_POS) = r" "ld32 (mem (demo_pipe r w)) (0x2000 + WRITE_POS) = w"
  "pipe_int 0x2000 READERS (demo_pipe r w) = 1" "pipe_int 0x2000 WRITERS (demo_pipe r w) = 1"
  "0 < pipe_int 0x2000 READERS (demo_pipe r w)"
  by (simp_all add: demo_pipe_def pipe_int_def ld32_st32_same ld32_st32_apart apart_def)

lemma demo_off_pipe: "off_pipe 0x2000 0x8000 4"
  unfolding off_pipe_def
proof (intro allI impI)
  fix i :: nat assume "i < 4"
  then have "i = 0 \<or> i = 1 \<or> i = 2 \<or> i = 3" by arith
  then show "4120 \<le> unat (0x8000 + of_nat i - 0x2000 :: u32)" by auto
qed

lemma demo_pipe_bytes:
  "mem_read (mem (demo_pipe r w)) 0x2008 2 = [8, 9]" "mem_read (mem (demo_pipe r w)) 0x2008 6 = [8, 9, 10, 11, 12, 13]"
  "mem_read (mem (demo_pipe r w)) 0x8000 4 = [0, 1, 2, 3]" "ld32 (mem (demo_pipe r w)) 0x8000 = 0x03020100"
  by (simp_all add: mem_read_def upt_rec demo_pipe_def st32_def ld32_def)


theorem pipe_read_dequeues_witness:
  "\<exists>s'. pipe_read (\<lambda>_ _. Some) (HeapFile 0x100) 0x8000 4 (demo_pipe 8 14) = Some (4, s')
     \<and> mem_read (mem s') 0x8000 4 = [8, 9, 10, 11] \<and> pipe_queue 0x2000 s' = [12, 13]"
proof -
  note F = demo_pipe_fields [of 8 14]
  have q: "pipe_queue 0x2000 (demo_pipe 8 14) = [8, 9, 10, 11, 12, 13]"
    unfolding pipe_queue_def F(2,3) using demo_pipe_bytes(2) [of 8 14] by simp
  have o: "pipe_ok 0x2000 (demo_pipe 8 14)" unfolding pipe_ok_def F(2,3) by simp
  have k: "4 = min (unat (4 :: u32)) (length (pipe_queue 0x2000 (demo_pipe 8 14)))" unfolding q by simp
  have "\<exists>s'. pipe_read (\<lambda>_ _. Some) (HeapFile 0x100) 0x8000 4 (demo_pipe 8 14) = Some (int 4, s') \<and> pipe_ok 0x2000 s'
     \<and> mem_read (mem s') 0x8000 4 = take 4 (pipe_queue 0x2000 (demo_pipe 8 14))
     \<and> pipe_queue 0x2000 s' = drop 4 (pipe_queue 0x2000 (demo_pipe 8 14))
     \<and> pipe_int 0x2000 READERS s' = pipe_int 0x2000 READERS (demo_pipe 8 14)
     \<and> pipe_int 0x2000 WRITERS s' = pipe_int 0x2000 WRITERS (demo_pipe 8 14)"
    by (rule pipe_read_dequeues [OF F(1) _ _ o _ _ k demo_off_pipe]) (simp_all only: q, simp_all)
  then show ?thesis unfolding q by auto
qed

theorem pipe_write_overruns_buffer_witness:
  "\<exists>s'. pipe_write (\<lambda>_ _. Some) (HeapFile 0x100) 0x8000 4 (demo_pipe 8 4096) = Some (4, s')
     \<and> ld32 (mem s') 0x3000 = 0x03020100"
  using pipe_write_overruns_buffer [OF demo_pipe_fields(1) _ _ demo_pipe_fields(6), of 8 4096 8 "0x8000" "\<lambda>_ _. Some"]
    demo_pipe_fields(2,3) [of 8 4096] demo_pipe_bytes(4) [of 8 4096] demo_off_pipe by simp

end
