(* ===== verification/Vfs.thy ===== *)
theory Vfs
  imports Pipe
begin

text \<open>
  \<^verbatim>\<open>src/fs/vfs/vfs.c\<close> over the file systems of the kernel, \<^verbatim>\<open>src/kernel/exec/exec.c\<close> and the destruction of
  processes.  A call through \<^verbatim>\<open>struct file_operations\<close> dispatches on the constructor of \<open>fops\<close>; \<open>has_read\<close> and
  its siblings say which pointers are set.  Parameters: the context switch \<open>sw\<close>, the nesting depth \<open>n\<close> of the
  loopback device and the address \<open>pool\<close> of \<^verbatim>\<open>ramfs_data\<close>.
\<close>

unbundle bit_operations_syntax

section \<open>Dispatch\<close>

fun has_read :: "fops \<Rightarrow> 'a devfs_state_scheme \<Rightarrow> bool" where
  "has_read RamfsFops s = True" | "has_read FlashfsFops s = True" | "has_read PipeReadFops s = True"
| "has_read SockFops s = True" | "has_read NullFops s = dev_ops_set s" | "has_read ZeroFops s = dev_ops_set s"
| "has_read RandomFops s = dev_ops_set s" | "has_read UartFops s = dev_ops_set s"
| "has_read DevfsFops s = False" | "has_read PipeWriteFops s = False"

fun has_write :: "fops \<Rightarrow> 'a devfs_state_scheme \<Rightarrow> bool" where
  "has_write RamfsFops s = True" | "has_write FlashfsFops s = True" | "has_write PipeWriteFops s = True"
| "has_write SockFops s = True" | "has_write NullFops s = dev_ops_set s" | "has_write ZeroFops s = dev_ops_set s"
| "has_write UartFops s = dev_ops_set s" | "has_write RandomFops s = False"
| "has_write DevfsFops s = False" | "has_write PipeReadFops s = False"

definition is_fs :: "fops \<Rightarrow> bool" where
  "is_fs fo \<longleftrightarrow> fo = RamfsFops \<or> fo = FlashfsFops"

fun fops_read ::
  "'a net_switch \<Rightarrow> fops \<Rightarrow> file_ref \<Rightarrow> u32 \<Rightarrow> u32 \<Rightarrow> 'a net_state_scheme \<Rightarrow> (int \<times> 'a net_state_scheme) option" where
  "fops_read sw RamfsFops r buf count s = ramfs_read r buf count s"
| "fops_read sw FlashfsFops r buf count s = Some (flashfs_read r buf count, s)"
| "fops_read sw PipeReadFops r buf count s = pipe_read sw r buf count s"
| "fops_read sw SockFops r buf count s = sock_read sw r buf count s"
| "fops_read sw NullFops r buf count s = null_read buf count s"
| "fops_read sw ZeroFops r buf count s = zero_read buf count s"
| "fops_read sw RandomFops r buf count s = random_read buf count s"
| "fops_read sw UartFops r buf count s = uart_read buf count s"
| "fops_read sw DevfsFops r buf count s = None"
| "fops_read sw PipeWriteFops r buf count s = None"

fun fops_write ::
  "'a net_switch \<Rightarrow> nat \<Rightarrow> u32 \<Rightarrow> fops \<Rightarrow> file_ref \<Rightarrow> u32 \<Rightarrow> u32 \<Rightarrow> 'a net_state_scheme \<Rightarrow> (int \<times> 'a net_state_scheme) option" where
  "fops_write sw n pool RamfsFops r buf count s = ramfs_write pool r buf count s"
| "fops_write sw n pool FlashfsFops r buf count s = Some (flashfs_write r buf count, s)"
| "fops_write sw n pool PipeWriteFops r buf count s = pipe_write sw r buf count s"
| "fops_write sw n pool SockFops r buf count s = sock_write sw n r buf count s"
| "fops_write sw n pool NullFops r buf count s = null_write buf count s"
| "fops_write sw n pool ZeroFops r buf count s = zero_write buf count s"
| "fops_write sw n pool UartFops r buf count s = uart_write buf count s"
| "fops_write sw n pool RandomFops r buf count s = None"
| "fops_write sw n pool DevfsFops r buf count s = None"
| "fops_write sw n pool PipeReadFops r buf count s = None"

text \<open>A null \<^verbatim>\<open>open\<close> or \<^verbatim>\<open>close\<close> pointer is skipped, which is a call that returns 0.\<close>

fun fops_open :: "fops \<Rightarrow> file_ref \<Rightarrow> u8 list \<Rightarrow> u32 \<Rightarrow> 'a net_state_scheme \<Rightarrow> (int \<times> 'a net_state_scheme) option" where
  "fops_open RamfsFops r path flags s = ramfs_open r path flags s"
| "fops_open DevfsFops r path flags s = devfs_open r path flags s"
| "fops_open FlashfsFops r path flags s = Some (flashfs_open r path flags, s)"
| "fops_open _ r path flags s = Some (0, s)"

fun fops_close :: "'a net_switch \<Rightarrow> fops \<Rightarrow> file_ref \<Rightarrow> 'a net_state_scheme \<Rightarrow> (int \<times> 'a net_state_scheme) option" where
  "fops_close sw RamfsFops r s = ramfs_close r s"
| "fops_close sw FlashfsFops r s = Some (flashfs_close r, s)"
| "fops_close sw PipeReadFops r s = pipe_close_read sw r s"
| "fops_close sw PipeWriteFops r s = pipe_close_write sw r s"
| "fops_close sw SockFops r s = sock_close_file sw r s"
| "fops_close sw _ r s = Some (0, s)"

text \<open>The operations that only the two file systems have.  \<open>None\<close> as the status means that nothing is stored.\<close>

definition fops_stat :: "fops \<Rightarrow> file_ref \<Rightarrow> 'a net_state_scheme \<Rightarrow> (int \<times> stat option) option" where
  "fops_stat fo r s = (if fo = RamfsFops then ramfs_stat r s else Some (flashfs_stat r, None))"

definition fops_lseek ::
  "fops \<Rightarrow> file_ref \<Rightarrow> u32 \<Rightarrow> int \<Rightarrow> 'a net_state_scheme \<Rightarrow> (int \<times> 'a net_state_scheme) option" where
  "fops_lseek fo r offset whence s =
     (if fo = RamfsFops then ramfs_lseek r offset whence s else Some (flashfs_lseek r offset whence, s))"

definition fops_mkdir :: "fops \<Rightarrow> file_ref \<Rightarrow> u8 list \<Rightarrow> u32 \<Rightarrow> 'a net_state_scheme \<Rightarrow> (int \<times> 'a net_state_scheme) option" where
  "fops_mkdir fo r path mode s =
     (if fo = RamfsFops then ramfs_mkdir r path mode s else Some (flashfs_mkdir r path mode, s))"

definition fops_rmdir :: "fops \<Rightarrow> file_ref \<Rightarrow> u8 list \<Rightarrow> 'a net_state_scheme \<Rightarrow> (int \<times> 'a net_state_scheme) option" where
  "fops_rmdir fo r path s = (if fo = RamfsFops then ramfs_rmdir r path s else Some (flashfs_rmdir r path, s))"

definition fops_unlink :: "fops \<Rightarrow> file_ref \<Rightarrow> u8 list \<Rightarrow> 'a net_state_scheme \<Rightarrow> (int \<times> 'a net_state_scheme) option" where
  "fops_unlink fo r path s = (if fo = RamfsFops then ramfs_unlink r path s else Some (flashfs_unlink r path, s))"

definition fops_rename :: "fops \<Rightarrow> u8 list \<Rightarrow> u8 list \<Rightarrow> 'a net_state_scheme \<Rightarrow> (int \<times> 'a net_state_scheme) option" where
  "fops_rename fo oldpath newpath s =
     (if fo = RamfsFops then ramfs_rename oldpath newpath s else Some (flashfs_rename oldpath newpath, s))"


section \<open>Opening and closing\<close>

definition mount_len :: "mount \<Rightarrow> nat" where
  "mount_len m = length (arr_str (mnt_point m))"

text \<open>\<^verbatim>\<open>strncmp(norm_path, m->mountpoint, len) == 0 && (norm_path[len] == '/' || norm_path[len] == '\0')\<close>\<close>

definition mount_matches :: "mount \<Rightarrow> u8 list \<Rightarrow> bool" where
  "mount_matches m norm \<longleftrightarrow> take (mount_len m) norm = arr_str (mnt_point m)
     \<and> (length norm = mount_len m \<or> mount_len m < length norm \<and> norm ! mount_len m = SLASH)"

definition mount_fops :: "mount \<Rightarrow> 'a file_state_scheme \<Rightarrow> fops option" where
  "mount_fops m s = (if mnt_sb m = NULL then None else Some (sb_fops (superblocks s (mnt_sb m))))"

definition norm_path :: "u8 list option \<Rightarrow> 'a file_state_scheme \<Rightarrow> u8 list option" where
  "norm_path path s = path_normalize (arr_str (cwd_buf s)) path PATH_MAX"

fun open_loop :: "nat \<Rightarrow> u8 list \<Rightarrow> u32 \<Rightarrow> 'a net_state_scheme \<Rightarrow> (file_ref \<times> 'a net_state_scheme) option" where
  "open_loop 0 norm flags s = Some (FNull, s)"
| "open_loop (Suc i) norm flags s =
     (let m = mounts s ! i
      in if mount_matches m norm
         then let (r, s) = file_alloc s
              in if r = FNull then Some (FNull, s)
                 else do {
                   let s = upd_file r (\<lambda>f. f\<lparr>f_flags := flags,
                             f_path := (arr_strncpy (f_path f) norm (PATH_MAX - 1))[PATH_MAX - 1 := 0]\<rparr>) s;
                   fo \<leftarrow> mount_fops m s;
                   (ret, s) \<leftarrow> fops_open fo r (drop (mount_len m) norm) flags s;
                   if ret < 0 then Some (FNull, file_free r s) else Some (r, s) }
         else open_loop i norm flags s)"

definition vfs_open :: "u8 list option \<Rightarrow> u32 \<Rightarrow> 'a net_state_scheme \<Rightarrow> (file_ref \<times> 'a net_state_scheme) option" where
  "vfs_open path flags s =
     (case norm_path path s of None \<Rightarrow> Some (FNull, s)
      | Some norm \<Rightarrow> open_loop (nat (mount_count s)) norm flags s)"

definition vfs_close :: "'a net_switch \<Rightarrow> file_ref \<Rightarrow> 'a net_state_scheme \<Rightarrow> (int \<times> 'a net_state_scheme) option" where
  "vfs_close sw r s =
     (if r = FNull then Some (-1, s)
      else do {
        f \<leftarrow> get_file_obj r s;
        if f_ref_count f = 0 then Some (-1, s)
        else do {
          (v, s) \<leftarrow> (case f_fops f of None \<Rightarrow> Some (0, s) | Some fo \<Rightarrow> fops_close sw fo r s);
          Some (0, file_free r s) } })"


section \<open>Operations on open files\<close>

text \<open>\<^verbatim>\<open>!file || !file->fops\<close> is \<open>None\<close> inside.\<close>

definition file_fops :: "file_ref \<Rightarrow> 'a file_state_scheme \<Rightarrow> fops option option" where
  "file_fops r s = (if r = FNull then Some None else do { f \<leftarrow> get_file_obj r s; Some (f_fops f) })"

definition vfs_read ::
  "'a net_switch \<Rightarrow> file_ref \<Rightarrow> u32 \<Rightarrow> u32 \<Rightarrow> 'a net_state_scheme \<Rightarrow> (int \<times> 'a net_state_scheme) option" where
  "vfs_read sw r buf count s = do {
     fo \<leftarrow> file_fops r s;
     case fo of None \<Rightarrow> Some (-1, s)
     | Some fo \<Rightarrow> if has_read fo s then fops_read sw fo r buf count s else Some (-1, s) }"

definition vfs_write ::
  "'a net_switch \<Rightarrow> nat \<Rightarrow> u32 \<Rightarrow> file_ref \<Rightarrow> u32 \<Rightarrow> u32 \<Rightarrow> 'a net_state_scheme \<Rightarrow> (int \<times> 'a net_state_scheme) option" where
  "vfs_write sw n pool r buf count s = do {
     fo \<leftarrow> file_fops r s;
     case fo of None \<Rightarrow> Some (-1, s)
     | Some fo \<Rightarrow> if has_write fo s then fops_write sw n pool fo r buf count s else Some (-1, s) }"

definition vfs_lseek :: "file_ref \<Rightarrow> u32 \<Rightarrow> int \<Rightarrow> 'a net_state_scheme \<Rightarrow> (int \<times> 'a net_state_scheme) option" where
  "vfs_lseek r offset whence s = do {
     fo \<leftarrow> file_fops r s;
     case fo of None \<Rightarrow> Some (-1, s)
     | Some fo \<Rightarrow> if is_fs fo then fops_lseek fo r offset whence s else Some (-1, s) }"

definition vfs_pread ::
  "'a net_switch \<Rightarrow> file_ref \<Rightarrow> u32 \<Rightarrow> u32 \<Rightarrow> u32 \<Rightarrow> 'a net_state_scheme \<Rightarrow> (int \<times> 'a net_state_scheme) option" where
  "vfs_pread sw r buf count offset s = do {
     fo \<leftarrow> file_fops r s;
     case fo of None \<Rightarrow> Some (-1, s)
     | Some fo \<Rightarrow>
         if fo = RamfsFops then ramfs_pread r buf count offset s
         else do {
           f \<leftarrow> get_file_obj r s;
           let old_offset = f_offset f;
           (new_off, s) \<leftarrow> vfs_lseek r offset SEEK_SET s;
           if new_off < 0 then Some (-1, s)
           else do {
             (ret, s) \<leftarrow> vfs_read sw r buf count s;
             (v, s) \<leftarrow> vfs_lseek r old_offset SEEK_SET s;
             Some (ret, s) } } }"

definition vfs_pwrite ::
  "'a net_switch \<Rightarrow> nat \<Rightarrow> u32 \<Rightarrow> file_ref \<Rightarrow> u32 \<Rightarrow> u32 \<Rightarrow> u32 \<Rightarrow> 'a net_state_scheme \<Rightarrow> (int \<times> 'a net_state_scheme) option" where
  "vfs_pwrite sw n pool r buf count offset s = do {
     fo \<leftarrow> file_fops r s;
     case fo of None \<Rightarrow> Some (-1, s)
     | Some fo \<Rightarrow>
         if fo = RamfsFops then ramfs_pwrite pool r buf count offset s
         else do {
           f \<leftarrow> get_file_obj r s;
           let old_offset = f_offset f;
           (new_off, s) \<leftarrow> vfs_lseek r offset SEEK_SET s;
           if new_off < 0 then Some (-1, s)
           else do {
             (ret, s) \<leftarrow> vfs_write sw n pool r buf count s;
             (v, s) \<leftarrow> vfs_lseek r old_offset SEEK_SET s;
             Some (ret, s) } } }"

text \<open>No file system sets \<^verbatim>\<open>ioctl\<close>.\<close>

definition vfs_ioctl :: "file_ref \<Rightarrow> int \<Rightarrow> u32 \<Rightarrow> 'a net_state_scheme \<Rightarrow> int" where
  "vfs_ioctl r request arg s = -1"

definition vfs_readdir :: "file_ref \<Rightarrow> dirent \<Rightarrow> 'a net_state_scheme \<Rightarrow> (int \<times> dirent \<times> 'a net_state_scheme) option" where
  "vfs_readdir r ent s = do {
     fo \<leftarrow> file_fops r s;
     case fo of
       Some RamfsFops \<Rightarrow> ramfs_readdir r ent s
     | Some DevfsFops \<Rightarrow> devfs_readdir ent s
     | Some FlashfsFops \<Rightarrow> Some (flashfs_readdir r, ent, s)
     | _ \<Rightarrow> Some (-1, ent, s) }"

definition vfs_fstat :: "file_ref \<Rightarrow> 'a net_state_scheme \<Rightarrow> (int \<times> stat option) option" where
  "vfs_fstat r s = do {
     fo \<leftarrow> file_fops r s;
     case fo of None \<Rightarrow> Some (-1, None)
     | Some fo \<Rightarrow> if is_fs fo then fops_stat fo r s else Some (-1, None) }"


section \<open>Operations on paths\<close>

fun stat_loop :: "nat \<Rightarrow> u8 list \<Rightarrow> 'a net_state_scheme \<Rightarrow> (int \<times> stat option \<times> 'a net_state_scheme) option" where
  "stat_loop 0 norm s = Some (-1, None, s)"
| "stat_loop (Suc i) norm s =
     (let m = mounts s ! i
      in if mount_matches m norm
         then do {
           fo \<leftarrow> mount_fops m s;
           if is_fs fo
           then let (r, s) = file_alloc s
                in if r = FNull then Some (-1, None, s)
                   else do {
                     let s = upd_file r (\<lambda>f. f\<lparr>f_path := arr_strncpy (f_path f) norm (PATH_MAX - 1)\<rparr>) s;
                     (ret, st) \<leftarrow> fops_stat fo r s;
                     Some (ret, st, file_free r s) }
           else stat_loop i norm s }
         else stat_loop i norm s)"

definition vfs_stat :: "u8 list option \<Rightarrow> 'a net_state_scheme \<Rightarrow> (int \<times> stat option \<times> 'a net_state_scheme) option" where
  "vfs_stat path s =
     (case norm_path path s of None \<Rightarrow> Some (-1, None, s) | Some norm \<Rightarrow> stat_loop (nat (mount_count s)) norm s)"

text \<open>The loops of \<^verbatim>\<open>vfs_mkdir\<close>, \<^verbatim>\<open>vfs_rmdir\<close> and \<^verbatim>\<open>vfs_unlink\<close> differ in the operation only: the argument \<open>op\<close>.  The
  slot that is allocated for a file system without the operation stays in use.\<close>

fun path_op_loop ::
  "nat \<Rightarrow> u8 list \<Rightarrow> (fops \<Rightarrow> file_ref \<Rightarrow> u8 list \<Rightarrow> 'a net_state_scheme \<Rightarrow> (int \<times> 'a net_state_scheme) option) \<Rightarrow>
   'a net_state_scheme \<Rightarrow> (int \<times> 'a net_state_scheme) option" where
  "path_op_loop 0 norm op s = Some (-1, s)"
| "path_op_loop (Suc i) norm op s =
     (let m = mounts s ! i
      in if mount_matches m norm
         then let (r, s) = file_alloc s
              in if r = FNull then Some (-1, s)
                 else do {
                   fo \<leftarrow> mount_fops m s;
                   if is_fs fo
                   then do {
                     (ret, s) \<leftarrow> op fo r (drop (mount_len m) norm) s;
                     Some (ret, file_free r s) }
                   else path_op_loop i norm op s }
         else path_op_loop i norm op s)"

definition vfs_mkdir :: "u8 list option \<Rightarrow> u32 \<Rightarrow> 'a net_state_scheme \<Rightarrow> (int \<times> 'a net_state_scheme) option" where
  "vfs_mkdir path mode s =
     (case norm_path path s of None \<Rightarrow> Some (-1, s)
      | Some norm \<Rightarrow> path_op_loop (nat (mount_count s)) norm (\<lambda>fo r p. fops_mkdir fo r p mode) s)"

definition vfs_rmdir :: "u8 list option \<Rightarrow> 'a net_state_scheme \<Rightarrow> (int \<times> 'a net_state_scheme) option" where
  "vfs_rmdir path s =
     (case norm_path path s of None \<Rightarrow> Some (-1, s)
      | Some norm \<Rightarrow> path_op_loop (nat (mount_count s)) norm fops_rmdir s)"

definition vfs_unlink :: "u8 list option \<Rightarrow> 'a net_state_scheme \<Rightarrow> (int \<times> 'a net_state_scheme) option" where
  "vfs_unlink path s =
     (case norm_path path s of None \<Rightarrow> Some (-1, s)
      | Some norm \<Rightarrow> path_op_loop (nat (mount_count s)) norm fops_unlink s)"

fun rename_loop :: "nat \<Rightarrow> u8 list \<Rightarrow> u8 list \<Rightarrow> 'a net_state_scheme \<Rightarrow> (int \<times> 'a net_state_scheme) option" where
  "rename_loop 0 old new s = Some (-1, s)"
| "rename_loop (Suc i) old new s =
     (let m = mounts s ! i
      in if mount_matches m old \<and> mount_matches m new
         then do {
           fo \<leftarrow> mount_fops m s;
           if is_fs fo then fops_rename fo (drop (mount_len m) old) (drop (mount_len m) new) s
           else rename_loop i old new s }
         else rename_loop i old new s)"

definition vfs_rename :: "u8 list option \<Rightarrow> u8 list option \<Rightarrow> 'a net_state_scheme \<Rightarrow> (int \<times> 'a net_state_scheme) option" where
  "vfs_rename oldpath newpath s =
     (case norm_path oldpath s of None \<Rightarrow> Some (-1, s)
      | Some old \<Rightarrow> (case norm_path newpath s of None \<Rightarrow> Some (-1, s)
          | Some new \<Rightarrow> rename_loop (nat (mount_count s)) old new s))"

text \<open>A \<^verbatim>\<open>stat\<close> that returns 0 without storing leaves the local \<^verbatim>\<open>st\<close> uninitialised: \<open>None\<close>.\<close>

definition vfs_chdir :: "'a net_switch \<Rightarrow> u8 list option \<Rightarrow> 'a net_state_scheme \<Rightarrow> (int \<times> 'a net_state_scheme) option" where
  "vfs_chdir sw path s =
     (case norm_path path s of None \<Rightarrow> Some (-1, s)
      | Some norm \<Rightarrow> do {
          (r, s) \<leftarrow> vfs_open (Some norm) (O_RDONLY OR O_DIRECTORY) s;
          if r = FNull then Some (-1, s)
          else do {
            fo \<leftarrow> file_fops r s;
            ok \<leftarrow> (case fo of None \<Rightarrow> Some False
                  | Some fo \<Rightarrow>
                      if is_fs fo
                      then do {
                        (v, st) \<leftarrow> fops_stat fo r s;
                        if v \<noteq> 0 then Some False else map_option (\<lambda>st. S_ISDIR (st_mode st)) st }
                      else Some False);
            let s = (if ok then s\<lparr>cwd_buf := (arr_strncpy (cwd_buf s) norm 255)[255 := 0]\<rparr> else s);
            (v, s) \<leftarrow> vfs_close sw r s;
            Some (if ok then 0 else -1, s) } })"

definition vfs_getcwd :: "u32 \<Rightarrow> u32 \<Rightarrow> 'a net_state_scheme \<Rightarrow> int \<times> 'a net_state_scheme" where
  "vfs_getcwd buf sz s =
     (let cwd = arr_str (cwd_buf s)
      in if length cwd + 1 > unat sz then (-1, s) else (0, poke_list buf (cwd @ [0]) s))"

definition vfs_pipe :: "u32 \<Rightarrow> int" where
  "vfs_pipe pipefd = -1"

definition fs_init :: "'a net_switch \<Rightarrow> 'a net_state_scheme \<Rightarrow> 'a net_state_scheme option" where
  "fs_init sw s = do {
     let s = s\<lparr>mounts := replicate MAX_MOUNTS mount_zero, open_files := replicate MAX_OPEN_FILES file_zero,
               mount_count := 0, cwd_buf := (cwd_buf s)[0 := SLASH, 1 := 0]\<rparr>;
     (v, s) \<leftarrow> ramfs_mount sw (bytes ''/'') s;
     (v, s) \<leftarrow> devfs_mount sw (bytes ''/dev'') s;
     Some s }"


section \<open>Loading a program\<close>

abbreviation (input) EXEC_MAGIC :: u32 where "EXEC_MAGIC \<equiv> 0x42415245"

text \<open>\<open>loc\<close> is the address of the local \<^verbatim>\<open>hdr\<close>: the magic number, the entry, then the sizes of text, data and bss.\<close>

definition load_binary ::
  "'a net_switch \<Rightarrow> u32 \<Rightarrow> u8 list option \<Rightarrow> u32 \<Rightarrow> 'a net_state_scheme \<Rightarrow> (int \<times> 'a net_state_scheme) option" where
  "load_binary sw loc path task s = do {
     (r, s) \<leftarrow> vfs_open path O_RDONLY s;
     if r = FNull then Some (-1, s)
     else do {
       (v, s) \<leftarrow> vfs_read sw r loc 24 s;
       if v \<noteq> 24 then do { (_, s) \<leftarrow> vfs_close sw r s; Some (-1, s) }
       else if ld32 (mem s) loc \<noteq> EXEC_MAGIC then do { (_, s) \<leftarrow> vfs_close sw r s; Some (-1, s) }
       else do {
         let entry = ld32 (mem s) (loc + 4);
         let text_size = ld32 (mem s) (loc + 8);
         let data_size = ld32 (mem s) (loc + 12);
         let bss_size = ld32 (mem s) (loc + 16);
         (base, s) \<leftarrow> kmalloc sw (text_size + data_size + bss_size) s;
         if base = NULL then do { (_, s) \<leftarrow> vfs_close sw r s; Some (-1, s) }
         else do {
           (v, s) \<leftarrow> vfs_read sw r base (text_size + data_size) s;
           if v \<noteq> sint (text_size + data_size)
           then do { s \<leftarrow> kfree sw base s; (_, s) \<leftarrow> vfs_close sw r s; Some (-1, s) }
           else do {
             let s = (if bss_size > 0
                      then s\<lparr>mem := memset (base + text_size + data_size) 0 bss_size (mem s)\<rparr> else s);
             (_, s) \<leftarrow> vfs_close sw r s;
             let ctx = t_context (tasks s task);
             Some (0, s\<lparr>contexts := (contexts s)(ctx := (contexts s ctx)
                          \<lparr>c_pc := base + entry, c_a1 := base + text_size + data_size + bss_size\<rparr>)\<rparr>) } } } } }"

definition do_execve ::
  "'a net_switch \<Rightarrow> u32 \<Rightarrow> u8 list option \<Rightarrow> 'a net_state_scheme \<Rightarrow> (int \<times> 'a net_state_scheme) option" where
  "do_execve sw loc path s =
     (let current = current_task (cpu0 s)
      in if current = NULL \<or> t_process (tasks s current) = NULL then Some (-1, s)
         else load_binary sw loc path current s)"


section \<open>Destroying a process\<close>

partial_function (option) destroy_tasks :: "'a net_switch \<Rightarrow> u32 \<Rightarrow> 'a net_state_scheme \<Rightarrow> 'a net_state_scheme option" where
  "destroy_tasks sw t s =
     (if t = NULL then Some s
      else do {
        let nxt = t_next (tasks s t);
        s \<leftarrow> task_destroy sw t s;
        destroy_tasks sw nxt s })"

text \<open>The loop over \<^verbatim>\<open>fd_table[i]\<close> for \<open>i < fd_count\<close>; past the end of the table the result is \<open>None\<close>.\<close>

fun close_fds :: "'a net_switch \<Rightarrow> u32 \<Rightarrow> nat list \<Rightarrow> 'a net_state_scheme \<Rightarrow> 'a net_state_scheme option" where
  "close_fds sw tbl [] s = Some s"
| "close_fds sw tbl (i # is) s =
     (if i < length (fd_tables s tbl)
      then do {
        s \<leftarrow> (if fd_tables s tbl ! i \<noteq> FNull then map_option snd (vfs_close sw (fd_tables s tbl ! i) s) else Some s);
        close_fds sw tbl is s }
      else None)"

definition process_destroy :: "'a net_switch \<Rightarrow> u32 \<Rightarrow> 'a net_state_scheme \<Rightarrow> 'a net_state_scheme option" where
  "process_destroy sw proc s =
     (if proc = NULL then Some s
      else do {
        s \<leftarrow> destroy_tasks sw (p_tasks (procs s proc)) s;
        s \<leftarrow> (if p_fd_table (procs s proc) \<noteq> NULL
              then do {
                s \<leftarrow> close_fds sw (p_fd_table (procs s proc)) [0..<nat (p_fd_count (procs s proc))] s;
                kfree sw (p_fd_table (procs s proc)) s }
              else Some s);
        kfree sw proc (free_pid (p_pid (procs s proc)) s) })"

section \<open>The file systems after start-up\<close>

text \<open>The heap part of a mount.\<close>

lemma same_kernel_iff: "same_kernel s s' \<longleftrightarrow> s' = s\<lparr>mem := mem s', regions := regions s'\<rparr>"
proof
  assume "same_kernel s s'"
  from arg_cong [OF this [unfolded same_kernel_def], of "\<lambda>t. t\<lparr>mem := mem s', regions := regions s'\<rparr>"]
  show "s' = s\<lparr>mem := mem s', regions := regions s'\<rparr>" by simp
next
  assume "s' = s\<lparr>mem := mem s', regions := regions s'\<rparr>"
  from arg_cong [OF this, of "\<lambda>t. t\<lparr>mem := (\<lambda>_. 0), regions := []\<rparr>"]
  show "same_kernel s s'" by (simp add: same_kernel_def)
qed

lemma kmalloc_bump_room:
  assumes b: "bump 0 f s" and idle: "lock_idle s" and n: "n \<noteq> 0"
    and sz: "unat (round_up n) + 36 \<le> unat (hb_size s f)"
  shows "\<exists>m rg. kmalloc sw n s = Some (f + 20, s\<lparr>mem := m, regions := rg\<rparr>)
     \<and> bump 0 (f + 20 + round_up n) (s\<lparr>mem := m, regions := rg\<rparr>)
     \<and> hb_size (s\<lparr>mem := m, regions := rg\<rparr>) (f + 20 + round_up n) = hb_size s f - round_up n - HDR"
proof -
  let ?r = "round_up n" and ?c = "carve 0 f (round_up n) s"
  have r: "?r \<le> hb_size s f" using sz by (simp add: word_le_nat_alt)
  have c: "s\<lparr>mem := mem ?c, regions := regions ?c\<rparr> = ?c"
    using same_kernel_carve [of s 0 f ?r] by (simp only: same_kernel_iff [symmetric] eq_commute [of _ ?c])
  show ?thesis
    by (rule exI [of _ "mem ?c"], rule exI [of _ "regions ?c"])
      (use c carve_split(1,2) [OF b sz] kmalloc_bump [OF b idle n, of sw] r in simp)
qed

lemma bump_cong:
  assumes "regions s = regions s'" "mem s = mem s'"
  shows "bump i g s = bump i g s'" "hb_size s = hb_size s'"
  using assms by (simp add: bump_def hb_defs, intro ext, simp add: hb_defs)

text \<open>A mount with its superblock at \<open>sb\<close>.\<close>

definition mounted :: "u32 \<Rightarrow> u8 list \<Rightarrow> fops \<Rightarrow> priv \<Rightarrow> 'a file_state_scheme \<Rightarrow> 'a file_state_scheme" where
  "mounted sb mp fo data s = (let i = nat (mount_count s) in
     s\<lparr>mount_count := mount_count s + 1,
       superblocks := (superblocks s)(sb := \<lparr>sb_fops = fo, sb_private = data, sb_root = NULL\<rparr>),
       mounts := (mounts s)[i := (mounts s ! i)\<lparr>mnt_sb := sb, mnt_point := arr_strncpy (mnt_point (mounts s ! i)) mp 255\<rparr>]\<rparr>)"

lemma register_bump:
  assumes b: "bump 0 f s" and idle: "lock_idle s" and sz: "52 \<le> unat (hb_size s f)" and c: "mount_count s < 16"
    and i: "nat (mount_count s) < length (mounts s)"
  shows "\<exists>m rg. vfs_register_fs sw mp fo data s = Some (0, mounted (f + 20) mp fo data (s\<lparr>mem := m, regions := rg\<rparr>))
     \<and> bump 0 (f + 36) (s\<lparr>mem := m, regions := rg\<rparr>) \<and> hb_size (s\<lparr>mem := m, regions := rg\<rparr>) (f + 36) = hb_size s f - 36
     \<and> f + 20 \<noteq> NULL"
proof -
  have r: "round_up 16 = 16" by (simp add: round_up_def)
  let ?s = "s\<lparr>mount_count := mount_count s + 1\<rparr>"
  have h: "bump 0 f ?s" "lock_idle ?s" "unat (round_up 16) + 36 \<le> unat (hb_size ?s f)"
    using b idle sz by (simp_all add: bump_def hb_defs lock_idle_def r)
  have hs: "hb_size ?s f = hb_size s f" by (simp add: hb_defs)
  have e: "f + 20 + 16 = f + 36" "hb_size s f - 16 - 20 = hb_size s f - 36" by simp_all
  obtain m rg where k: "kmalloc sw 16 ?s = Some (f + 20, ?s\<lparr>mem := m, regions := rg\<rparr>)"
    "bump 0 (f + 36) (?s\<lparr>mem := m, regions := rg\<rparr>)" "hb_size (?s\<lparr>mem := m, regions := rg\<rparr>) (f + 36) = hb_size s f - 36"
    using kmalloc_bump_room [OF h(1,2) _ h(3), of sw] unfolding r hs e by auto
  have "unat (f + 20) = unat f + 20"
    using bump_bounds(1) [OF b] by (simp add: unat_add_lem [THEN iffD1])
  then have n: "f + 20 \<noteq> NULL" by (metis add_is_0 unat_0 zero_neq_numeral)
  then have v: "vfs_register_fs sw mp fo data s = Some (0, mounted (f + 20) mp fo data (s\<lparr>mem := m, regions := rg\<rparr>))"
    using k(1) c i by (simp add: vfs_register_fs_def Let_def mounted_def)
  show ?thesis
    by (rule exI [of _ m], rule exI [of _ rg])
      (use v n k(2,3) bump_cong [of "?s\<lparr>mem := m, regions := rg\<rparr>" "s\<lparr>mem := m, regions := rg\<rparr>"] in simp)
qed

text \<open>What the start-up code leaves: the RAM file system on \<^verbatim>\<open>/\<close> and the five devices on \<^verbatim>\<open>/dev\<close>.\<close>

definition boot_devices :: "(u8 list \<times> fops) list" where
  "boot_devices = [(bytes ''null'', NullFops), (bytes ''zero'', ZeroFops), (bytes ''random'', RandomFops),
     (bytes ''uart0'', UartFops), (bytes ''console'', UartFops)]"

definition device_names :: "'a devfs_state_scheme \<Rightarrow> (u8 list \<times> fops) list" where
  "device_names s = map (\<lambda>d. (arr_str (dn_name d), dn_fops d)) (take (unat (devfs_count s)) (devfs_devices s))"

definition fs_ready :: "'a devfs_state_scheme \<Rightarrow> bool" where
  "fs_ready s \<longleftrightarrow> mount_count s = 2 \<and> arr_str (mnt_point (mounts s ! 0)) = [SLASH]
     \<and> arr_str (mnt_point (mounts s ! 1)) = bytes ''/dev''
     \<and> mount_fops (mounts s ! 0) s = Some RamfsFops \<and> mount_fops (mounts s ! 1) s = Some DevfsFops
     \<and> device_names s = boot_devices \<and> unat (devfs_count s) \<le> length (devfs_devices s)"

lemma arr_str_strncpy:
  assumes "0 \<notin> set xs" "length xs < n" shows "arr_str (arr_strncpy ys xs n) = xs"
proof -
  have "\<forall>x\<in>set xs. x \<noteq> 0" using assms(1) by metis
  then show ?thesis using assms(2) by (simp add: arr_str_def arr_strncpy_def strncpy_bytes_def takeWhile_append)
qed

lemma device_register:
  assumes "unat (devfs_count s) < 32" "length (devfs_devices s) = 32" "length name < 31" "0 \<notin> set name"
  shows "device_names (devfs_register name fo data mode s) = device_names s @ [(name, fo)]"
    "unat (devfs_count (devfs_register name fo data mode s)) = unat (devfs_count s) + 1"
    "length (devfs_devices (devfs_register name fo data mode s)) = 32"
proof -
  have "\<not> devfs_count s \<ge> DEVFS_MAX_DEVICES" using assms(1) by (simp add: word_le_nat_alt)
  moreover have u: "unat (devfs_count s + 1) = unat (devfs_count s) + 1"
    using assms(1) by (simp add: unat_add_lem [THEN iffD1])
  moreover note arr_str_strncpy [OF assms(4,3)]
  ultimately show "device_names (devfs_register name fo data mode s) = device_names s @ [(name, fo)]"
    "unat (devfs_count (devfs_register name fo data mode s)) = unat (devfs_count s) + 1"
    "length (devfs_devices (devfs_register name fo data mode s)) = 32"
    using assms by (simp_all add: devfs_register_def device_names_def Let_def take_Suc_conv_app_nth)
qed

lemma devfs_register_file:
  "mounts (devfs_register name fo data mode s) = mounts s" "mount_count (devfs_register name fo data mode s) = mount_count s"
  "superblocks (devfs_register name fo data mode s) = superblocks s" "regions (devfs_register name fo data mode s) = regions s"
  "mem (devfs_register name fo data mode s) = mem s" "lock_idle (devfs_register name fo data mode s) = lock_idle s"
  "open_files (devfs_register name fo data mode s) = open_files s" "cwd_buf (devfs_register name fo data mode s) = cwd_buf s"
  by (simp_all add: devfs_register_def Let_def lock_idle_def)

lemma register_devices_names:
  assumes "devfs_count s = 0" "length (devfs_devices s) = 32"
  shows "device_names (register_devices s) = boot_devices" "unat (devfs_count (register_devices s)) \<le> 32"
    "length (devfs_devices (register_devices s)) = 32"
  using assms
  by (simp_all add: register_devices_def Let_def device_register bytes_def boot_devices_def)
    (simp add: device_names_def)

lemma register_devices_file:
  "mounts (register_devices s) = mounts s" "mount_count (register_devices s) = mount_count s"
  "superblocks (register_devices s) = superblocks s" "regions (register_devices s) = regions s"
  "mem (register_devices s) = mem s" "lock_idle (register_devices s) = lock_idle s"
  "open_files (register_devices s) = open_files s" "cwd_buf (register_devices s) = cwd_buf s"
  by (simp_all add: register_devices_def Let_def devfs_register_file) (simp add: lock_idle_def)

lemma ramfs_mount_register:
  fixes s :: "'a devfs_state_scheme"
  assumes "unat (ramfs_node_count s) < 63"
  shows "\<exists>t. ramfs_mount sw target s = vfs_register_fs sw target RamfsFops PRamSb t
     \<and> mounts t = mounts s \<and> mount_count t = mount_count s \<and> superblocks t = superblocks s \<and> open_files t = open_files s
     \<and> cwd_buf t = cwd_buf s \<and> devfs_count t = devfs_count s \<and> devfs_devices t = devfs_devices s
     \<and> mem t = mem s \<and> regions t = regions s \<and> lock_idle t = lock_idle s"
proof -
  have "unat (ramfs_node_count s + 1) = unat (ramfs_node_count s) + 1"
    "unat (ramfs_node_count s + 2) = unat (ramfs_node_count s) + 2"
    using assms by (simp_all add: unat_add_lem [THEN iffD1])
  then have "\<not> 64 \<le> ramfs_node_count s" "\<not> 64 \<le> ramfs_node_count s + 1" "ramfs_node_count s + 1 \<noteq> 0" "ramfs_node_count s + 2 \<noteq> 0"
    using assms by (auto simp: word_le_nat_alt simp flip: unat_eq_zero)
  then show ?thesis
    by (simp add: ramfs_mount_def ramfs_alloc_node_def upd_node_def Let_def algebra_simps)
      (rule exI, rule conjI, rule refl, simp add: lock_idle_def)
qed

lemma fs_init_ready:
  assumes "bump 0 f s" "lock_idle s" "88 \<le> unat (hb_size s f)" "unat (ramfs_node_count s) < 63" "devfs_count s = 0"
    "length (devfs_devices s) = 32"
  shows "\<exists>s'. fs_init sw s = Some s' \<and> fs_ready s' \<and> open_files s' = replicate MAX_OPEN_FILES file_zero
     \<and> cwd_buf s' = (cwd_buf s)[0 := SLASH, 1 := 0]"
proof -
  define t0 where "t0 = s\<lparr>mounts := replicate MAX_MOUNTS mount_zero, open_files := replicate MAX_OPEN_FILES file_zero,
     mount_count := 0, cwd_buf := (cwd_buf s)[0 := SLASH, 1 := 0]\<rparr>"
  obtain t1 where t1: "ramfs_mount sw (bytes ''/'') t0 = vfs_register_fs sw (bytes ''/'') RamfsFops PRamSb t1"
    and f1: "mounts t1 = replicate 16 mount_zero" "mount_count t1 = 0" "open_files t1 = replicate 128 file_zero"
    "cwd_buf t1 = (cwd_buf s)[0 := SLASH, 1 := 0]" "devfs_count t1 = 0" "length (devfs_devices t1) = 32"
    "regions t1 = regions s" "mem t1 = mem s" "lock_idle t1"
    using ramfs_mount_register [of t0 sw "bytes ''/''"] assms(2,4,5,6) by (fastforce simp: t0_def lock_idle_def)
  have b1: "bump 0 f t1" "hb_size t1 = hb_size s" using assms(1) bump_cong [OF f1(7,8)] by simp_all
  obtain m rg where t2: "vfs_register_fs sw (bytes ''/'') RamfsFops PRamSb t1
      = Some (0, mounted (f + 20) (bytes ''/'') RamfsFops PRamSb (t1\<lparr>mem := m, regions := rg\<rparr>))"
    "bump 0 (f + 36) (t1\<lparr>mem := m, regions := rg\<rparr>)" "hb_size (t1\<lparr>mem := m, regions := rg\<rparr>) (f + 36) = hb_size s f - 36"
    "f + 20 \<noteq> NULL"
    using register_bump [of f t1 sw "bytes ''/''" RamfsFops PRamSb] assms(3) f1 b1 by auto
  define t3 where "t3 = register_devices (mounted (f + 20) (bytes ''/'') RamfsFops PRamSb (t1\<lparr>mem := m, regions := rg\<rparr>))"
  have l3: "lock_idle t3" using f1(9) unfolding t3_def register_devices_file by (simp add: mounted_def lock_idle_def Let_def)
  have f3: "bump 0 (f + 36) t3" "hb_size t3 (f + 36) = hb_size s f - 36"
    "mounts t3 = (replicate 16 mount_zero)[0 := mount_zero\<lparr>mnt_sb := f + 20, mnt_point := arr_strncpy (mnt_point mount_zero) (bytes ''/'') 255\<rparr>]"
    "mount_count t3 = 1" "sb_fops (superblocks t3 (f + 20)) = RamfsFops"
    "device_names t3 = boot_devices" "unat (devfs_count t3) \<le> 32" "length (devfs_devices t3) = 32"
    using t2(2,3) f1(1,2,5,6) bump_cong [of t3 "t1\<lparr>mem := m, regions := rg\<rparr>"]
    by (simp_all add: t3_def register_devices_file register_devices_names mounted_def Let_def)
  have h: "52 \<le> unat (hb_size s f - 36)" using assms(3) by (simp add: unat_sub word_le_nat_alt)
  have "f + 36 + 20 = f + 56" by simp
  with register_bump [OF f3(1) l3, of sw "bytes ''/dev''" DevfsFops PNull, unfolded f3(2,3,4)] h
  obtain m' rg' where t4: "vfs_register_fs sw (bytes ''/dev'') DevfsFops PNull t3
      = Some (0, mounted (f + 56) (bytes ''/dev'') DevfsFops PNull (t3\<lparr>mem := m', regions := rg'\<rparr>))" "f + 56 \<noteq> NULL"
    by auto
  define s' where "s' = mounted (f + 56) (bytes ''/dev'') DevfsFops PNull (t3\<lparr>mem := m', regions := rg'\<rparr>)"
  have "fs_init sw s = Some s'"
    unfolding fs_init_def Let_def t0_def [symmetric] using t1 t2(1) t4(1) by (simp add: devfs_mount_def t3_def s'_def)
  moreover have "arr_str (arr_strncpy xs (bytes ''/'') 255) = [SLASH]" "arr_str (arr_strncpy xs (bytes ''/dev'') 255) = bytes ''/dev''" for xs
    by (simp_all add: arr_str_strncpy bytes_def)
  moreover have "f + 56 \<noteq> f + 20" by simp
  moreover have "mounts s' = (mounts t3)[1 := mount_zero\<lparr>mnt_sb := f + 56, mnt_point := arr_strncpy (mnt_point mount_zero) (bytes ''/dev'') 255\<rparr>]"
    "mount_count s' = 2" "superblocks s' = (superblocks t3)(f + 56 := \<lparr>sb_fops = DevfsFops, sb_private = PNull, sb_root = NULL\<rparr>)"
    "device_names s' = device_names t3" "devfs_count s' = devfs_count t3" "devfs_devices s' = devfs_devices t3"
    using f3(3,4) by (simp_all add: s'_def mounted_def device_names_def)
  moreover have "open_files s' = open_files t1" "cwd_buf s' = cwd_buf t1"
    by (simp_all add: s'_def mounted_def t3_def register_devices_file Let_def)
  ultimately show ?thesis using f3(3,5-8) f1(3,4) t2(4) t4(2) by (simp add: fs_ready_def mount_fops_def)
qed


section \<open>What can be opened\<close>

text \<open>The reference: the operation table of the file that an absolute path opens.\<close>

definition boot_open :: "u8 list \<Rightarrow> fops option option" where
  "boot_open norm =
     (if norm = [SLASH] then Some None
      else if take 5 norm = bytes ''/dev/'' then map_option Some (map_of boot_devices (drop 5 norm)) else None)"

lemma find_device_names:
  "n \<le> length ds \<Longrightarrow> map_option dn_fops (find_device n name ds)
     = map_of (map (\<lambda>d. (arr_str (dn_name d), dn_fops d)) (take n ds)) name"
  by (induction n name ds rule: find_device.induct) (auto split: list.split)

lemma find_device_ready:
  "fs_ready s \<Longrightarrow> map_option dn_fops (find_device (unat (devfs_count s)) name (devfs_devices s)) = map_of boot_devices name"
  using find_device_names by (fastforce simp: fs_ready_def device_names_def)

lemma fs_ready_count: "fs_ready s \<Longrightarrow> devfs_count s \<noteq> 0"
  by (auto simp: fs_ready_def device_names_def boot_devices_def)

lemma devfs_open_ready:
  assumes "fs_ready s" "path \<noteq> []"
  shows "map_of boot_devices (tl path) = None \<Longrightarrow> devfs_open r path flags s = Some (-1, s)"
    "map_of boot_devices (tl path) = Some fo \<Longrightarrow>
     \<exists>pd. devfs_open r path flags s = Some (0, upd_file r (\<lambda>f. f\<lparr>f_fops := Some fo, f_private := pd\<rparr>) s)"
proof -
  note c = fs_ready_count [OF assms(1)]
  show "map_of boot_devices (tl path) = None \<Longrightarrow> devfs_open r path flags s = Some (-1, s)"
    using find_device_ready [OF assms(1), of "tl path"] c assms(2) by (simp add: devfs_open_def)
  assume "map_of boot_devices (tl path) = Some fo"
  then obtain d where "find_device (unat (devfs_count s)) (tl path) (devfs_devices s) = Some d" "dn_fops d = fo"
    using find_device_ready [OF assms(1), of "tl path"] by auto
  then show "\<exists>pd. devfs_open r path flags s = Some (0, upd_file r (\<lambda>f. f\<lparr>f_fops := Some fo, f_private := pd\<rparr>) s)"
    using c assms(2) by (auto simp: devfs_open_def)
qed

lemma root_mount_matches:
  assumes "arr_str (mnt_point m) = [SLASH]" "norm = SLASH # rest" "rest = [] \<or> hd rest \<noteq> SLASH"
  shows "mount_matches m norm \<longleftrightarrow> rest = []"
  using assms by (cases rest) (auto simp: mount_matches_def mount_len_def)

lemma take_or_next:
  assumes "length ys = n"
  shows "take n xs = ys \<and> (length xs = n \<or> n < length xs \<and> xs ! n = c) \<longleftrightarrow> xs = ys \<or> take (Suc n) xs = ys @ [c]"
proof
  assume "take n xs = ys \<and> (length xs = n \<or> n < length xs \<and> xs ! n = c)"
  then show "xs = ys \<or> take (Suc n) xs = ys @ [c]" by (auto simp: take_Suc_conv_app_nth)
next
  have "take n xs = ys \<and> n < length xs \<and> xs ! n = c" if "take (Suc n) xs = ys @ [c]"
    using assms arg_cong [OF that, of length] arg_cong [OF that, of "take n"] arg_cong [OF that, of "\<lambda>l. l ! n"]
    by (auto simp: nth_append)
  then show "xs = ys \<or> take (Suc n) xs = ys @ [c] \<Longrightarrow> take n xs = ys \<and> (length xs = n \<or> n < length xs \<and> xs ! n = c)"
    using assms by auto
qed

lemma dev_mount_matches:
  assumes "arr_str (mnt_point m) = bytes ''/dev''"
  shows "mount_matches m norm \<longleftrightarrow> norm = bytes ''/dev'' \<or> take 5 norm = bytes ''/dev/''"
proof -
  have "mount_len m = 4" "length (bytes ''/dev'') = 4" "Suc 4 = 5" "bytes ''/dev'' @ [SLASH] = bytes ''/dev/''"
    using assms by (simp_all add: mount_len_def bytes_def)
  then show ?thesis unfolding mount_matches_def assms using take_or_next [of "bytes ''/dev''" 4 norm SLASH] by simp
qed

lemma get_upd_file: "get_file_obj r s = Some f \<Longrightarrow> get_file_obj r (upd_file r g s) = Some (g f)"
  by (cases r) (auto split: if_splits)

lemma upd_file_mounts [simp]:
  "mounts (upd_file r g s) = mounts s" "mount_count (upd_file r g s) = mount_count s"
  "superblocks (upd_file r g s) = superblocks s" "cwd_buf (upd_file r g s) = cwd_buf s"
  "length (open_files (upd_file r g s)) = length (open_files s)"
  by (cases r; simp)+

lemma upd_file_devices [simp]:
  "devfs_count (upd_file r g s) = devfs_count s" "devfs_devices (upd_file r g s) = devfs_devices s"
  "dev_ops_set (upd_file r g s) = dev_ops_set s"
  by (cases r; simp)+

lemma mount_fops_upd_file [simp]: "mount_fops m (upd_file r g s) = mount_fops m s"
  by (simp add: mount_fops_def)

lemma fs_ready_upd_file [simp]: "fs_ready (upd_file r g s) = fs_ready s"
  by (simp add: fs_ready_def mount_fops_def device_names_def)

lemma free_slot_bound: "free_slot i fs = Some j \<Longrightarrow> i \<le> j \<and> j < i + length fs"
  by (induction i fs rule: free_slot.induct) (fastforce split: if_splits)+

text \<open>The object that \<^verbatim>\<open>file_alloc\<close> hands out.\<close>

definition clear_file :: "file_obj \<Rightarrow> file_obj" where
  "clear_file f = f\<lparr>f_ref_count := 1, f_offset := 0, f_flags := 0, f_fops := None, f_private := PNull, f_path := (f_path f)[0 := 0]\<rparr>"

lemma file_alloc_slot:
  "free_slot 0 (open_files s) = Some i \<Longrightarrow> file_alloc s = (OpenFile i, upd_file (OpenFile i) clear_file s)"
  by (simp add: file_alloc_def clear_file_def)

lemma file_alloc_full: "free_slot 0 (open_files s) = None \<Longrightarrow> file_alloc s = (FNull, s)"
  by (simp add: file_alloc_def)

lemma get_allocated:
  "free_slot 0 (open_files s) = Some i \<Longrightarrow> get_file_obj (OpenFile i) s = Some (open_files s ! i)"
  using free_slot_bound [of 0 "open_files s" i] by simp

lemma ramfs_open_root:
  assumes "get_file_obj r s = Some f" "f_private f = PNull"
  shows "ramfs_open r [] flags s = Some (0, upd_file r (\<lambda>f. f\<lparr>f_private := (if sb_root_node s = NULL then PNull else PRamNode (sb_root_node s))\<rparr>) s)"
  using assms by (simp add: ramfs_open_def ramfs_sb_root_def skip_slashes_def open_walk.simps)

definition opened_file :: "u8 list \<Rightarrow> u32 \<Rightarrow> file_obj \<Rightarrow> file_obj" where
  "opened_file norm flags f = (clear_file f)\<lparr>f_flags := flags,
     f_path := (arr_strncpy (f_path (clear_file f)) norm (PATH_MAX - 1))[PATH_MAX - 1 := 0]\<rparr>"

lemma opened_file_fields [simp]: "f_fops (opened_file norm flags f) = None" "f_private (opened_file norm flags f) = PNull"
  by (simp_all add: opened_file_def clear_file_def)

lemma upd_file_twice: "upd_file r g (upd_file r h s) = upd_file r (\<lambda>f. g (h f)) s"
proof (cases r)
  case (OpenFile i)
  then show ?thesis by (cases "i < length (open_files s)") (simp_all add: list_update_beyond)
qed simp_all

lemma open_loop_step:
  assumes "mount_matches (mounts s ! i) norm" "mount_fops (mounts s ! i) s = Some fo" "free_slot 0 (open_files s) = Some j"
  shows "open_loop (Suc i) norm flags s = do {
     (ret, s) \<leftarrow> fops_open fo (OpenFile j) (drop (mount_len (mounts s ! i)) norm) flags (upd_file (OpenFile j) (opened_file norm flags) s);
     if ret < 0 then Some (FNull, file_free (OpenFile j) s) else Some (OpenFile j, s) }"
  using assms
  by (simp add: file_alloc_slot Let_def upd_file_twice opened_file_def [abs_def] del: upd_file.simps)

text \<open>Where the five devices and the root are opened, and nothing else.\<close>

text \<open>What opening a file leaves alone: the running task, the processes and their descriptor tables.\<close>

definition same_running :: "'a kstate_scheme \<Rightarrow> 'a kstate_scheme \<Rightarrow> bool" where
  "same_running s' s \<longleftrightarrow> cpu0 s' = cpu0 s \<and> tasks s' = tasks s \<and> procs s' = procs s \<and> fd_tables s' = fd_tables s"

lemma upd_file_running [simp]:
  "cpu0 (upd_file r f s) = cpu0 s" "tasks (upd_file r f s) = tasks s" "procs (upd_file r f s) = procs s"
  "fd_tables (upd_file r f s) = fd_tables s"
  by (cases r; simp)+

lemma same_running_upd_file [simp]: "same_running (upd_file r f s') s = same_running s' s" "same_running s s"
  by (simp_all add: same_running_def)

lemma open_ready:
  assumes "fs_ready s" "path \<noteq> []" "hd path = SLASH" "length path \<le> 254" "canon path \<noteq> bytes ''/dev''"
    and j: "free_slot 0 (open_files s) = Some j"
  shows "\<exists>r s'. vfs_open (Some path) flags s = Some (r, s') \<and> cwd_buf s' = cwd_buf s \<and> same_running s' s \<and> fs_ready s' \<and>
     (case boot_open (canon path) of None \<Rightarrow> r = FNull
      | Some fo \<Rightarrow> r = OpenFile j \<and> (\<exists>f. get_file_obj r s' = Some f \<and> f_fops f = fo))"
proof -
  let ?n = "canon path" and ?s1 = "upd_file (OpenFile j) (opened_file (canon path) flags) s"
  obtain rest where rest: "?n = SLASH # rest" "rest = [] \<or> hd rest \<noteq> SLASH" using canon_shape by blast
  have n: "norm_path (Some path) s = Some ?n"
    unfolding norm_path_def by (rule path_normalize_abs) fact+
  have m: "mount_matches (mounts s ! 0) ?n \<longleftrightarrow> rest = []" "mount_matches (mounts s ! 1) ?n \<longleftrightarrow> take 5 ?n = bytes ''/dev/''"
    using root_mount_matches [OF _ rest] dev_mount_matches assms(1,5) by (auto simp: fs_ready_def)
  have ml: "mount_len (mounts s ! 0) = 1" "mount_len (mounts s ! 1) = 4"
    using assms(1) by (simp_all add: fs_ready_def mount_len_def bytes_def)
  have mf: "mount_fops (mounts s ! 0) s = Some RamfsFops" "mount_fops (mounts s ! 1) s = Some DevfsFops"
    using assms(1) by (simp_all add: fs_ready_def)
  have v: "vfs_open (Some path) flags s = open_loop (Suc (Suc 0)) ?n flags s"
    using assms(1) n by (simp add: vfs_open_def fs_ready_def numeral_2_eq_2)
  have g: "get_file_obj (OpenFile j) ?s1 = Some (opened_file ?n flags (open_files s ! j))"
    by (rule get_upd_file [OF get_allocated [OF j]])
  consider (dev) "take 5 ?n = bytes ''/dev/''" | (root) "take 5 ?n \<noteq> bytes ''/dev/''" "rest = []"
    | (miss) "take 5 ?n \<noteq> bytes ''/dev/''" "rest \<noteq> []" by blast
  then show ?thesis
  proof cases
    case dev
    have e: "open_loop (Suc 1) ?n flags s = do {
       (ret, s) \<leftarrow> devfs_open (OpenFile j) (drop 4 ?n) flags ?s1;
       if ret < 0 then Some (FNull, file_free (OpenFile j) s) else Some (OpenFile j, s) }"
      using open_loop_step [of s 1 ?n DevfsFops j flags] m(2) dev j unfolding ml(2) mf fops_open.simps by blast
    have l: "5 \<le> length ?n" using arg_cong [OF dev, of length] by (simp add: bytes_def)
    have d: "fs_ready ?s1" "drop 4 ?n \<noteq> []" "tl (drop 4 ?n) = drop 5 ?n"
      using assms(1) l by (simp_all add: drop_Suc [symmetric] tl_drop del: upd_file.simps)
    have bo: "boot_open ?n = map_option Some (map_of boot_devices (drop 5 ?n))"
      using dev l by (auto simp: boot_open_def bytes_def)
    show ?thesis
    proof (cases "map_of boot_devices (drop 5 ?n)")
      case None
      then show ?thesis using devfs_open_ready(1) [OF d(1,2), of "OpenFile j" flags] d(3) v e assms(1) bo
        by (simp add: file_free_def del: upd_file.simps open_loop.simps)
    next
      case (Some fo)
      obtain pd where "devfs_open (OpenFile j) (drop 4 ?n) flags ?s1 = Some (0, upd_file (OpenFile j) (\<lambda>f. f\<lparr>f_fops := Some fo, f_private := pd\<rparr>) ?s1)"
        using devfs_open_ready(2) [OF d(1,2), of fo "OpenFile j" flags] d(3) Some by auto
      then show ?thesis using v e bo Some assms(1) get_upd_file [OF g, of "\<lambda>f. f\<lparr>f_fops := Some fo, f_private := pd\<rparr>"]
        by (simp del: upd_file.simps open_loop.simps get_file_obj.simps)
    qed
  next
    case root
    have "open_loop (Suc 0) ?n flags s = do {
       (ret, s) \<leftarrow> ramfs_open (OpenFile j) [] flags ?s1;
       if ret < 0 then Some (FNull, file_free (OpenFile j) s) else Some (OpenFile j, s) }"
      using open_loop_step [of s 0 ?n RamfsFops j flags] m(1) root j rest(1) unfolding ml(1) mf
      by (simp del: upd_file.simps open_loop.simps)
    moreover have "open_loop (Suc (Suc 0)) ?n flags s = open_loop (Suc 0) ?n flags s"
      using m(2) root(1) by (simp del: upd_file.simps)
    ultimately show ?thesis using v ramfs_open_root [OF g] get_upd_file [OF g] root(2) rest(1) assms(1)
      by (simp add: boot_open_def del: upd_file.simps open_loop.simps get_file_obj.simps)
  next
    case miss
    then have "open_loop (Suc (Suc 0)) ?n flags s = Some (FNull, s)" using m by simp
    then show ?thesis using v miss rest(1) assms(1) by (simp add: boot_open_def)
  qed
qed

lemma open_loop_full:
  assumes "mount_matches (mounts s ! i) norm" "free_slot 0 (open_files s) = None"
  shows "open_loop (Suc i) norm flags s = Some (FNull, s)"
  using assms by (simp add: file_alloc_full)

text \<open>C7: After \<^verbatim>\<open>fs_init\<close> on a heap with room for two superblocks, \<^verbatim>\<open>vfs_open\<close> of an absolute path (other than
  \<^verbatim>\<open>/dev\<close> itself) always returns, and what it opens is given by \<open>boot_open\<close>: the five devices with their own
  operation tables, the root directory as a file without any operations, and nothing else.  Every other
  absolute path is refused whether or not the RAM file system has such a file, because the mount point \<^verbatim>\<open>/\<close>
  only matches when a second slash or the end of the path follows it.\<close>

theorem vfs_open_after_init:
  assumes "bump 0 a s" "lock_idle s" "88 \<le> unat (hb_size s a)" "unat (ramfs_node_count s) < 63" "devfs_count s = 0"
    "length (devfs_devices s) = 32"
    and "path \<noteq> []" "hd path = SLASH" "length path \<le> 254" "canon path \<noteq> bytes ''/dev''"
  shows "\<exists>s1 r s2. fs_init sw s = Some s1 \<and> vfs_open (Some path) flags s1 = Some (r, s2) \<and>
     (case boot_open (canon path) of None \<Rightarrow> r = FNull
      | Some fo \<Rightarrow> r = OpenFile 0 \<and> (\<exists>f. get_file_obj r s2 = Some f \<and> f_fops f = fo))"
proof -
  obtain s1 where s1: "fs_init sw s = Some s1" "fs_ready s1" "open_files s1 = replicate MAX_OPEN_FILES file_zero"
    using fs_init_ready [OF assms(1-6)] by blast
  have "free_slot 0 (open_files s1) = Some 0" by (simp add: s1(3) file_zero_def numeral_eq_Suc)
  from open_ready [OF s1(2) assms(7-10) this] s1(1) show ?thesis by blast
qed

lemma demo_net_files: "unat (ramfs_node_count demo_net) < 63" "devfs_count demo_net = 0" "length (devfs_devices demo_net) = 32"
  by (simp_all add: demo_net_def net_boot_defs)

lemma demo_paths:
  "canon (bytes ''/bin'') = bytes ''/bin''" "canon (bytes ''/dev/uart0'') = bytes ''/dev/uart0''"
  "boot_open (bytes ''/bin'') = None" "boot_open (bytes ''/dev/uart0'') = Some (Some UartFops)"
  by (simp_all add: canon_def path_comps_def join_path_def boot_open_def boot_devices_def bytes_def)

theorem vfs_open_after_init_witness:
  "\<exists>s1 s2 s3 f. fs_init (\<lambda>_ _. Some) demo_net = Some s1
     \<and> vfs_open (Some (bytes ''/bin'')) 0 s1 = Some (FNull, s2)
     \<and> vfs_open (Some (bytes ''/dev/uart0'')) 0 s1 = Some (OpenFile 0, s3)
     \<and> get_file_obj (OpenFile 0) s3 = Some f \<and> f_fops f = Some UartFops"
proof -
  have h: "88 \<le> unat (hb_size demo_net 0x3FC90000)" by (simp add: demo_net_bump(2))
  note V = vfs_open_after_init [OF demo_net_bump(1,3) h demo_net_files]
  have p: "bytes ''/bin'' \<noteq> []" "hd (bytes ''/bin'') = SLASH" "length (bytes ''/bin'') \<le> 254" "bytes ''/bin'' \<noteq> bytes ''/dev''"
    "bytes ''/dev/uart0'' \<noteq> []" "hd (bytes ''/dev/uart0'') = SLASH" "length (bytes ''/dev/uart0'') \<le> 254"
    "bytes ''/dev/uart0'' \<noteq> bytes ''/dev''" by (simp_all add: bytes_def)
  show ?thesis
    using V [OF p(1-3), of "\<lambda>_ _. Some" 0] V [OF p(5-7), of "\<lambda>_ _. Some" 0] p(4,8) unfolding demo_paths option.case
    by (auto simp del: get_file_obj.simps)
qed

text \<open>What a walk through the RAM file system leaves alone.\<close>

lemma link_child_files:
  "open_files (link_child d p nm md s) = open_files s" "heap_files (link_child d p nm md s) = heap_files s"
  "cwd_buf (link_child d p nm md s) = cwd_buf s"
  by (simp_all add: link_child_def upd_node_def Let_def)

lemma alloc_node_files:
  "ramfs_alloc_node s = (p, s') \<Longrightarrow> open_files s' = open_files s \<and> heap_files s' = heap_files s \<and> cwd_buf s' = cwd_buf s"
  by (auto simp: ramfs_alloc_node_def upd_node_def Let_def split: if_splits)

lemma open_walk_files:
  "open_walk node p flags root s = Some (res, s') \<Longrightarrow>
     open_files s' = open_files s \<and> heap_files s' = heap_files s \<and> cwd_buf s' = cwd_buf s"
proof (induction node p flags root s arbitrary: res s' rule: open_walk.induct)
  case (1 node p flags root s)
  show ?case
  proof (cases "p = [] \<or> comp_of p = []")
    case True then show ?thesis using "1.prems" by (subst (asm) open_walk.simps) auto
  next
    case False
    then obtain c where c: "ramfs_find_child node (comp_name p) s = Some c"
      using "1.prems" by (subst (asm) open_walk.simps) (auto simp: Let_def split: bind_splits)
    show ?thesis
    proof (cases "c = NULL")
      case True
      obtain new t where nt: "ramfs_alloc_node s = (new, t)" by fastforce
      note A = alloc_node_files [OF nt]
      let ?L = "link_child root new (comp_name p) (S_IFREG OR 0x1A4) t"
      have e: "open_walk node p flags root s = (if flags AND O_CREAT = 0 then Some (None, s) else if new = NULL then Some (None, t)
          else if root = NULL then None else open_walk new (next_comp p) flags root ?L)"
        using False c True nt by (subst open_walk.simps) (simp add: Let_def)
      consider "s' = s" | "s' = t"
        | "flags AND O_CREAT \<noteq> 0" "new \<noteq> NULL" "root \<noteq> NULL" "open_walk new (next_comp p) flags root ?L = Some (res, s')"
        using "1.prems" unfolding e by (auto split: if_splits)
      then show ?thesis
      proof cases
        case 3
        then have "open_files s' = open_files ?L \<and> heap_files s' = heap_files ?L \<and> cwd_buf s' = cwd_buf ?L"
          using "1.IH"(1) [OF _ refl c True _ nt [symmetric] refl] False by blast
        then show ?thesis using A by (simp add: link_child_files)
      qed (use A in simp_all)
    next
      case nc: False
      then show ?thesis using "1.prems" False c "1.IH"(2) [OF _ refl c]
        by (subst (asm) open_walk.simps) (simp add: Let_def)
    qed
  qed
qed

lemma ramfs_open_files:
  assumes "ramfs_open r path flags s = Some (v, s')" "get_file_obj r s = Some f"
  shows "\<exists>f'. get_file_obj r s' = Some f' \<and> f_fops f' = f_fops f \<and> cwd_buf s' = cwd_buf s"
proof -
  obtain root res t where w: "open_walk root (skip_slashes path) flags root s = Some (res, t)"
    "(v, s') = (case res of None \<Rightarrow> (-1, t) | Some node \<Rightarrow> (0, upd_file r (\<lambda>f. f\<lparr>f_private := (if node = NULL then PNull else PRamNode node)\<rparr>) t))"
    using assms(1) by (auto simp: ramfs_open_def split: bind_splits option.splits)
  note F = open_walk_files [OF w(1)]
  have g: "get_file_obj r t = Some f" using assms(2) F by (cases r) (auto split: if_splits)
  show ?thesis
    using w(2) g get_upd_file [OF g] F by (cases res) (auto simp del: upd_file.simps get_file_obj.simps)
qed

definition device_fops :: "fops option \<Rightarrow> bool" where
  "device_fops fo \<longleftrightarrow> fo = None \<or> fo \<in> {Some NullFops, Some ZeroFops, Some RandomFops, Some UartFops}"

text \<open>Whatever is opened, its operation table is that of a device or none.\<close>

lemma devfs_open_fops:
  assumes "fs_ready s" "devfs_open r path flags s = Some (v, s')" "get_file_obj r s = Some f" "f_fops f = None"
  shows "\<exists>f'. get_file_obj r s' = Some f' \<and> device_fops (f_fops f') \<and> cwd_buf s' = cwd_buf s"
proof -
  have "path \<noteq> []" using fs_ready_count [OF assms(1)] assms(2) by (auto simp: devfs_open_def split: if_splits)
  note D = devfs_open_ready [OF assms(1) this]
  show ?thesis
  proof (cases "map_of boot_devices (tl path)")
    case None then show ?thesis using D(1) [OF None, of r flags] assms(2-4) by (auto simp: device_fops_def)
  next
    case (Some fo)
    then have "device_fops (Some fo)" by (auto simp: boot_devices_def device_fops_def split: if_splits)
    moreover obtain pd where "s' = upd_file r (\<lambda>f. f\<lparr>f_fops := Some fo, f_private := pd\<rparr>) s"
      using D(2) [OF Some, of r flags] assms(2) by auto
    ultimately show ?thesis using get_upd_file [OF assms(3)] by (auto simp del: upd_file.simps get_file_obj.simps)
  qed
qed

lemma file_free_cwd [simp]: "cwd_buf (file_free r s) = cwd_buf s"
  by (simp add: file_free_def)

lemma open_loop_fops:
  assumes "fs_ready s" "open_loop n norm flags s = Some (r, s')" "n \<le> 2"
  shows "cwd_buf s' = cwd_buf s \<and> (r \<noteq> FNull \<longrightarrow> (\<exists>f. get_file_obj r s' = Some f \<and> device_fops (f_fops f)))"
  using assms
proof (induction n)
  case (Suc i)
  show ?case
  proof (cases "mount_matches (mounts s ! i) norm")
    case True
    obtain fo where fo: "mount_fops (mounts s ! i) s = Some fo" "fo = (if i = 0 then RamfsFops else DevfsFops)"
      using Suc.prems(1,3) by (cases "i = 0") (auto simp: fs_ready_def le_Suc_eq numeral_2_eq_2)
    show ?thesis
    proof (cases "free_slot 0 (open_files s)")
      case None then show ?thesis using open_loop_full [OF True] Suc.prems(2) by simp
    next
      case (Some j)
      let ?s1 = "upd_file (OpenFile j) (opened_file norm flags) s"
      have g: "get_file_obj (OpenFile j) ?s1 = Some (opened_file norm flags (open_files s ! j))"
        by (rule get_upd_file [OF get_allocated [OF Some]])
      obtain v t where o: "fops_open fo (OpenFile j) (drop (mount_len (mounts s ! i)) norm) flags ?s1 = Some (v, t)"
        "(r, s') = (if v < 0 then (FNull, file_free (OpenFile j) t) else (OpenFile j, t))"
        using Suc.prems(2) unfolding open_loop_step [OF True fo(1) Some] by (auto split: bind_splits if_splits)
      have "\<exists>f'. get_file_obj (OpenFile j) t = Some f' \<and> device_fops (f_fops f') \<and> cwd_buf t = cwd_buf s"
      proof (cases "i = 0")
        case True
        then have "ramfs_open (OpenFile j) (drop (mount_len (mounts s ! i)) norm) flags ?s1 = Some (v, t)"
          using o(1) fo(2) by (simp del: upd_file.simps)
        from ramfs_open_files [OF this g] show ?thesis by (auto simp: device_fops_def simp del: upd_file.simps get_file_obj.simps)
      next
        case False
        then have "devfs_open (OpenFile j) (drop (mount_len (mounts s ! i)) norm) flags ?s1 = Some (v, t)"
          using o(1) fo(2) by (simp del: upd_file.simps)
        from devfs_open_fops [OF _ this g] Suc.prems(1) show ?thesis by (auto simp del: upd_file.simps get_file_obj.simps)
      qed
      then show ?thesis using o(2) by (auto split: if_splits simp del: get_file_obj.simps)
    qed
  next
    case False then show ?thesis using Suc by simp
  qed
qed simp

lemma vfs_open_fops:
  assumes "fs_ready s" "vfs_open path flags s = Some (r, s')"
  shows "cwd_buf s' = cwd_buf s \<and> (r \<noteq> FNull \<longrightarrow> (\<exists>f. get_file_obj r s' = Some f \<and> device_fops (f_fops f)))"
proof (cases "norm_path path s")
  case None then show ?thesis using assms(2) by (simp add: vfs_open_def)
next
  case (Some norm)
  then have "open_loop (nat (mount_count s)) norm flags s = Some (r, s')" using assms(2) by (simp add: vfs_open_def)
  then show ?thesis by (rule open_loop_fops [OF assms(1)]) (use assms(1) in \<open>simp add: fs_ready_def\<close>)
qed

lemma device_not_fs: "device_fops (Some fo) \<Longrightarrow> \<not> is_fs fo"
  by (auto simp: device_fops_def is_fs_def)

lemma vfs_close_device:
  assumes "get_file_obj r s = Some f" "device_fops (f_fops f)" "vfs_close sw r s = Some (v, s')"
  shows "cwd_buf s' = cwd_buf s"
  using assms by (cases "r = FNull") (auto simp: vfs_close_def device_fops_def split: if_splits)

text \<open>\<^verbatim>\<open>vfs_chdir\<close> never succeeds.  A directory that \<^verbatim>\<open>vfs_open\<close> finds has no operation table and a device has no
  \<^verbatim>\<open>stat\<close>, so the check for a directory always fails: with the file systems of the start-up code every call that
  returns gives \<^verbatim>\<open>-1\<close> and leaves the working directory as it was.\<close>

theorem chdir_never_succeeds:
  assumes "fs_ready s" "vfs_chdir sw path s = Some (v, s')"
  shows "v = -1 \<and> cwd_buf s' = cwd_buf s"
proof (cases "norm_path path s")
  case None then show ?thesis using assms(2) by (simp add: vfs_chdir_def)
next
  case (Some norm)
  obtain r t where o: "vfs_open (Some norm) (O_RDONLY OR O_DIRECTORY) s = Some (r, t)"
    using assms(2) Some by (auto simp: vfs_chdir_def split: bind_splits)
  note F = vfs_open_fops [OF assms(1) o]
  show ?thesis
  proof (cases "r = FNull")
    case True then show ?thesis using assms(2) Some o F by (auto simp: vfs_chdir_def)
  next
    case False
    then obtain f where f: "get_file_obj r t = Some f" "device_fops (f_fops f)" using F by blast
    have "file_fops r t = Some (f_fops f)" using f(1) False by (simp add: file_fops_def)
    then have "\<exists>w. vfs_close sw r t = Some (w, s') \<and> v = -1"
      using assms(2) Some o False f(2) device_not_fs
      by (cases "f_fops f") (auto simp: vfs_chdir_def split: bind_splits)
    then show ?thesis using vfs_close_device [OF f] F by auto
  qed
qed

lemma demo_fs:
  obtains s1 where "fs_init (\<lambda>_ _. Some) demo_net = Some s1" "fs_ready s1" "open_files s1 = replicate MAX_OPEN_FILES file_zero"
  using fs_init_ready [OF demo_net_bump(1,3) _ demo_net_files, of "\<lambda>_ _. Some"] demo_net_bump(2) by auto

theorem chdir_never_succeeds_witness:
  "\<exists>s1 s2. fs_init (\<lambda>_ _. Some) demo_net = Some s1
     \<and> vfs_chdir (\<lambda>_ _. Some) (Some (bytes ''/bin'')) s1 = Some (-1, s2) \<and> cwd_buf s2 = cwd_buf s1"
proof -
  obtain s1 where s1: "fs_init (\<lambda>_ _. Some) demo_net = Some s1" "fs_ready s1" "open_files s1 = replicate MAX_OPEN_FILES file_zero"
    by (rule demo_fs)
  have j: "free_slot 0 (open_files s1) = Some 0" by (simp add: s1(3) file_zero_def numeral_eq_Suc)
  have p: "bytes ''/bin'' \<noteq> []" "hd (bytes ''/bin'') = SLASH" "length (bytes ''/bin'') \<le> 254"
    "canon (bytes ''/bin'') \<noteq> bytes ''/dev''" unfolding demo_paths by (simp_all add: bytes_def)
  obtain s2 where "vfs_open (Some (bytes ''/bin'')) (O_RDONLY OR O_DIRECTORY) s1 = Some (FNull, s2)"
    using open_ready [OF s1(2) p j, of "O_RDONLY OR O_DIRECTORY"] unfolding demo_paths by auto
  moreover have "norm_path (Some (bytes ''/bin'')) s1 = Some (bytes ''/bin'')"
    unfolding norm_path_def using path_normalize_abs [OF p(1-3)] by (simp add: demo_paths)
  ultimately have c: "vfs_chdir (\<lambda>_ _. Some) (Some (bytes ''/bin'')) s1 = Some (-1, s2)" by (simp add: vfs_chdir_def)
  show ?thesis using s1(1) c chdir_never_succeeds [OF s1(2) c] by blast
qed

end
