(* ===== verification/Frame.thy ===== *)
theory Frame
  imports Process
begin

text \<open>
  What a sequence of kernel calls leaves alone.  A frame is a reflexive and transitive relation between states; a view
  is a part of the state that the heap calls and updates of task structs do not touch, and the calls that create and
  destroy tasks keep every view.
\<close>

section \<open>Frames\<close>

text \<open>What every step of a sequence keeps, the sequence keeps.\<close>

locale frame_rel =
  fixes R :: "'s \<Rightarrow> 's \<Rightarrow> bool"
  assumes frame_refl: "R s s" and frame_trans: "R s t \<Longrightarrow> R t u \<Longrightarrow> R s u"
begin

lemma bind_pair:
  assumes "f \<bind> (\<lambda>(x, t). g x t) = Some (r, s')" and "\<And>x t. f = Some (x, t) \<Longrightarrow> R s t"
    and "\<And>x t. f = Some (x, t) \<Longrightarrow> g x t = Some (r, s') \<Longrightarrow> R t s'"
  shows "R s s'"
  using assms frame_trans by (fastforce split: bind_splits)

lemma bind_state:
  assumes "f \<bind> g = Some (r, s')" and "\<And>t. f = Some t \<Longrightarrow> R s t"
    and "\<And>t. f = Some t \<Longrightarrow> g t = Some (r, s') \<Longrightarrow> R t s'"
  shows "R s s'"
  using assms frame_trans by (fastforce split: bind_splits)

end

lemma lock_idle_frame [simp]:
  "lock_idle (upd_task p f s) = lock_idle s" "lock_idle (free_tid i s) = lock_idle s" "lock_idle (setup_stack p e s) = lock_idle s"
  by (simp_all add: lock_idle_def free_tid_def setup_stack_def Let_def)


section \<open>Views\<close>

text \<open>While nobody holds the heap lock, the view stays as it is and the lock stays free.\<close>

definition keeps_view :: "('a mstate_scheme \<Rightarrow> 'v) \<Rightarrow> 'a mstate_scheme \<Rightarrow> 'a mstate_scheme \<Rightarrow> bool" where
  "keeps_view view s t \<longleftrightarrow> (lock_idle s \<longrightarrow> lock_idle t \<and> view t = view s)"

locale kernel_view =
  fixes view :: "'a mstate_scheme \<Rightarrow> 'v"
  assumes view_heap: "same_kernel s t \<Longrightarrow> view t = view s"
    and view_task: "view (upd_task p f s) = view s"
    and view_contexts: "view (s\<lparr>contexts := c\<rparr>) = view s"
    and view_tids: "view (s\<lparr>task_table := tt\<rparr>) = view s"

sublocale kernel_view \<subseteq> kv: frame_rel "keeps_view view"
  by unfold_locales (auto simp: keeps_view_def)

context kernel_view
begin

lemma view_mem: "view (s\<lparr>mem := m\<rparr>) = view s"
  by (rule view_heap) simp

lemma view_stack: "view (setup_stack p e s) = view s" "view (free_tid i s) = view s"
  by (simp_all add: setup_stack_def free_tid_def Let_def view_contexts view_task view_mem view_tids)

lemmas view_simps = view_task view_contexts view_tids view_mem view_stack

lemma keeps_eq: "lock_idle s = lock_idle t \<Longrightarrow> view t = view s \<Longrightarrow> keeps_view view s t"
  by (simp add: keeps_view_def)

lemma keeps_heap: "(lock_idle s \<Longrightarrow> same_kernel s t) \<Longrightarrow> lock_idle s = lock_idle u \<Longrightarrow> view s = view u \<Longrightarrow> keeps_view view u t"
  using view_heap lock_idle_same by (auto simp: keeps_view_def)

lemma keeps_kfree: "kfree sw p s = Some t \<Longrightarrow> lock_idle s = lock_idle u \<Longrightarrow> view s = view u \<Longrightarrow> keeps_view view u t"
  using keeps_heap [OF kfree_kernel] by blast

lemma keeps_kzalloc: "kzalloc sw n s = Some (p, t) \<Longrightarrow> lock_idle s = lock_idle u \<Longrightarrow> view s = view u \<Longrightarrow> keeps_view view u t"
  using keeps_heap [OF kzalloc_kernel] by blast

lemma keeps_aligned: "kmalloc_aligned sw n al s = Some (p, t) \<Longrightarrow> lock_idle s = lock_idle u \<Longrightarrow> view s = view u \<Longrightarrow> keeps_view view u t"
  using keeps_heap [OF kmalloc_aligned_kernel] by blast

lemma keeps_kzalloc_task: "kzalloc_task sw s = Some (p, t) \<Longrightarrow> keeps_view view s t"
  unfolding kzalloc_task_def
  apply (erule kv.bind_pair, erule keeps_kzalloc)
    apply (auto intro!: keeps_eq simp: view_simps split: if_splits)
  done

lemma keeps_task_create_user: "task_create_user sw entry prio n s = Some (p, s') \<Longrightarrow> keeps_view view s s'"
  unfolding task_create_user_def Let_def
  apply (erule kv.bind_pair, erule keeps_kzalloc_task)
  apply (split if_split_asm, simp add: kv.frame_refl)
  apply (split if_split_asm)
   apply (auto intro: keeps_kfree simp: view_simps split: bind_splits) [1]
  apply (erule kv.bind_pair, erule keeps_aligned)
    apply (simp_all add: view_simps split: if_split_asm bind_splits)
   apply (auto intro: keeps_kfree keeps_eq simp: view_simps)
  done

lemma keeps_task_destroy:
  assumes "task_destroy sw p s = Some s'"
  shows "keeps_view view s s'"
proof (cases "p = NULL")
  case True
  then show ?thesis using assms kv.frame_refl by (simp add: task_destroy_def)
next
  case False
  let ?free = "\<lambda>t. kfree sw p (free_tid (t_tid (tasks t p)) t) = Some s'"
  have f: "keeps_view view t s'" if "?free t" for t by (rule keeps_kfree [OF that]) (simp_all add: view_simps)
  show ?thesis
  proof (cases "t_stack_base (tasks s p) = NULL")
    case True
    then show ?thesis using False assms f by (simp add: task_destroy_def)
  next
    case b: False
    then obtain u where u: "kfree sw (t_stack_base (tasks s p)) s = Some u" "?free (upd_task p (\<lambda>t. t\<lparr>t_stack_base := NULL\<rparr>) u)"
      using False assms by (simp add: task_destroy_def split: bind_splits)
    have "keeps_view view s u" by (rule keeps_kfree [OF u(1)]) simp_all
    moreover have "keeps_view view u (upd_task p (\<lambda>t. t\<lparr>t_stack_base := NULL\<rparr>) u)" by (rule keeps_eq) (simp_all add: view_simps)
    ultimately show ?thesis using f [OF u(2)] by (meson kv.frame_trans)
  qed
qed

end

end
