(* ===== verification/Syscall.thy ===== *)
theory Syscall
  imports Vfs Frame
begin

text \<open>
  \<^verbatim>\<open>src/kernel/syscall/syscall.c\<close>: the system call handler and the calls that are not those of the file layer.  The
  handler reads its arguments from the saved registers of the calling task and stores its result in \<^verbatim>\<open>a2\<close>.
  A path argument is a pointer to a terminated string in memory.  Parameters: the context switch \<open>sw\<close>, the
  nesting depth \<open>n\<close> of the loopback device, the address \<open>pool\<close> of \<^verbatim>\<open>ramfs_data\<close> and the address \<open>loc\<close> of a local
  of \<^verbatim>\<open>load_binary\<close>.
\<close>

unbundle bit_operations_syntax

section \<open>Arguments\<close>

text \<open>The string at \<open>p\<close>; \<open>None\<close> when the memory has no zero byte.\<close>

partial_function (option) load_str :: "u32 \<Rightarrow> mem \<Rightarrow> u8 list option" where
  "load_str p m = (if m p = 0 then Some [] else do { xs \<leftarrow> load_str (p + 1) m; Some (m p # xs) })"

definition path_arg :: "u32 \<Rightarrow> mem \<Rightarrow> u8 list option option" where
  "path_arg p m = (if p = NULL then Some None else map_option Some (load_str p m))"

text \<open>What a file system stores in a \<^verbatim>\<open>struct stat\<close>.\<close>

definition store_stat :: "u32 \<Rightarrow> stat option \<Rightarrow> 'a mstate_scheme \<Rightarrow> 'a mstate_scheme" where
  "store_stat p st s =
     (case st of None \<Rightarrow> s
      | Some st \<Rightarrow>
          let s = s\<lparr>mem := memset p 0 44 (mem s)\<rparr>
          in poke32 (p + 40) (st_ctime st) (poke32 (p + 36) (st_mtime st) (poke32 (p + 32) (st_atime st)
               (poke32 (p + 28) (st_size st) (poke32 (p + 8) (st_mode st) s)))))"

text \<open>The descriptor table and the file behind a descriptor; \<open>None\<close> outside the table.\<close>

definition get_file :: "int \<Rightarrow> 'a file_state_scheme \<Rightarrow> file_ref option" where
  "get_file fd s =
     (let current = current_task (cpu0 s)
      in if current = NULL \<or> t_process (tasks s current) = NULL then Some FNull
         else let pr = procs s (t_process (tasks s current)); tbl = fd_tables s (p_fd_table pr)
              in if fd < 0 \<or> fd \<ge> p_fd_count pr then Some FNull
                 else if nat fd < length tbl then Some (tbl ! nat fd) else None)"

text \<open>A descriptor of the running task is written; a null task or process, or a descriptor outside the table,
  faults.\<close>

definition current_proc :: "'a kstate_scheme \<Rightarrow> u32 option" where
  "current_proc s =
     (let current = current_task (cpu0 s)
      in if current = NULL \<or> t_process (tasks s current) = NULL then None else Some (t_process (tasks s current)))"

definition store_fd :: "int \<Rightarrow> file_ref \<Rightarrow> 'a kstate_scheme \<Rightarrow> 'a kstate_scheme option" where
  "store_fd fd r s = do {
     pr \<leftarrow> current_proc s;
     let tbl = p_fd_table (procs s pr);
     if 0 \<le> fd \<and> nat fd < length (fd_tables s tbl) then Some (set_fd tbl (nat fd) r s) else None }"

definition add_ref :: "int \<Rightarrow> file_ref \<Rightarrow> 'a file_state_scheme \<Rightarrow> 'a file_state_scheme" where
  "add_ref d r s = upd_file r (\<lambda>f. f\<lparr>f_ref_count := f_ref_count f + d\<rparr>) s"


section \<open>Processes\<close>

definition syscall_exit :: "('a file_state_ext dstate_ext) switch \<Rightarrow> int \<Rightarrow> 'a file_state_scheme \<Rightarrow> 'a file_state_scheme option" where
  "syscall_exit sw status s =
     (let current = current_task (cpu0 s)
      in if current = NULL then Some s
         else let s = upd_task current (\<lambda>t. t\<lparr>t_exit_code := status, t_state := TASK_STATE_EXITED\<rparr>) s;
                  pr = t_process (tasks s current);
                  s = (if pr \<noteq> NULL then upd_proc pr (\<lambda>p. p\<lparr>p_exit_code := status\<rparr>) s else s)
              in schedule sw s)"

text \<open>The loops of \<^verbatim>\<open>syscall_fork\<close> over the descriptors: the new table shares the files and counts a reference to each,
  and a failure gives the references back.\<close>

fun share_fds :: "nat list \<Rightarrow> u32 \<Rightarrow> u32 \<Rightarrow> 'a file_state_scheme \<Rightarrow> 'a file_state_scheme option" where
  "share_fds [] old new s = Some s"
| "share_fds (i # is) old new s =
     (if i < length (fd_tables s old)
      then let r = fd_tables s old ! i
           in if r = FNull then share_fds is old new s
              else if i < length (fd_tables s new) then share_fds is old new (add_ref 1 r (set_fd new i r s))
              else None
      else None)"

fun unshare_fds :: "nat list \<Rightarrow> u32 \<Rightarrow> 'a file_state_scheme \<Rightarrow> 'a file_state_scheme option" where
  "unshare_fds [] new s = Some s"
| "unshare_fds (i # is) new s =
     (if i < length (fd_tables s new)
      then let r = fd_tables s new ! i in unshare_fds is new (if r \<noteq> FNull then add_ref (-1) r s else s)
      else None)"

text \<open>The new task of the child, once the child has a descriptor table.\<close>

definition fork_task ::
  "('a file_state_ext dstate_ext) switch \<Rightarrow> u32 \<Rightarrow> u32 \<Rightarrow> u32 \<Rightarrow> u32 \<Rightarrow> 'a file_state_scheme \<Rightarrow> (int \<times> 'a file_state_scheme) option" where
  "fork_task sw current par new_proc tbl s = do {
     let s = upd_proc new_proc (\<lambda>q. q\<lparr>p_fd_count := p_fd_count (procs s par)\<rparr>) s;
     let fds = [0..<nat (p_fd_count (procs s new_proc))];
     s \<leftarrow> share_fds fds (p_fd_table (procs s par)) tbl s;
     (new_task, s) \<leftarrow> task_create sw new_proc (c_pc (contexts s (t_context (tasks s current))))
                         (t_priority (tasks s current)) s;
     if new_task = NULL
     then do {
       s \<leftarrow> unshare_fds fds tbl s;
       s \<leftarrow> kfree sw tbl s;
       s \<leftarrow> kfree sw new_proc (free_pid (p_pid (procs s new_proc)) s);
       Some (-1, s) }
     else do {
       let s = s\<lparr>contexts := (contexts s)(t_context (tasks s new_task) :=
                 (contexts s (t_context (tasks s current)))\<lparr>c_a2 := 0\<rparr>)\<rparr>;
       let s = upd_proc new_proc (\<lambda>q. q\<lparr>p_parent := par, p_sibling := p_children (procs s par)\<rparr>) s;
       let s = upd_proc par (\<lambda>q. q\<lparr>p_children := new_proc\<rparr>) s;
       Some (p_pid (procs s new_proc), s) } }"

text \<open>The child once it has an identifier.\<close>

definition fork_proc ::
  "('a file_state_ext dstate_ext) switch \<Rightarrow> u32 \<Rightarrow> u32 \<Rightarrow> 'a file_state_scheme \<Rightarrow> (int \<times> 'a file_state_scheme) option" where
  "fork_proc sw current new_proc s = do {
     let par = t_process (tasks s current);
     let pp = procs s par;
     let s = upd_proc new_proc (\<lambda>q. q\<lparr>p_ppid := p_pid pp, p_uid := p_uid pp, p_gid := p_gid pp,
               p_name := take 31 (p_name pp), p_fd_max := p_fd_max pp\<rparr>) s;
     (tbl, s) \<leftarrow> kzalloc sw (4 * word_of_int (p_fd_max (procs s new_proc))) s;
     let s = upd_proc new_proc (\<lambda>q. q\<lparr>p_fd_table := tbl\<rparr>) s;
     if tbl = NULL then do { s \<leftarrow> kfree sw new_proc (free_pid (p_pid (procs s new_proc)) s); Some (-1, s) }
     else fork_task sw current par new_proc tbl
            (s\<lparr>fd_tables := (fd_tables s)(tbl := replicate (nat (p_fd_max (procs s new_proc))) FNull)\<rparr>) }"

definition syscall_fork :: "('a file_state_ext dstate_ext) switch \<Rightarrow> 'a file_state_scheme \<Rightarrow> (int \<times> 'a file_state_scheme) option" where
  "syscall_fork sw s =
     (let current = current_task (cpu0 s)
      in if current = NULL \<or> t_process (tasks s current) = NULL then Some (-1, s)
         else do {
           (new_proc, s) \<leftarrow> kzalloc_process sw s;
           if new_proc = NULL then Some (-1, s)
           else do {
             let s = upd_proc new_proc (\<lambda>q. q\<lparr>p_pid := alloc_pid s\<rparr>) s;
             if p_pid (procs s new_proc) = 0 then do { s \<leftarrow> kfree sw new_proc s; Some (-1, s) }
             else fork_proc sw current new_proc s } })"

text \<open>The loop of \<^verbatim>\<open>syscall_waitpid\<close> over the children: the exited child and its predecessor, or null.\<close>

partial_function (option) find_exited :: "int \<Rightarrow> u32 \<Rightarrow> u32 \<Rightarrow> 'a kstate_scheme \<Rightarrow> (u32 \<times> u32) option" where
  "find_exited pid child prev s =
     (if child = NULL then Some (NULL, prev)
      else if (pid = -1 \<or> p_pid (procs s child) = pid) \<and> p_exited (procs s child) \<noteq> 0 then Some (child, prev)
      else find_exited pid (p_sibling (procs s child)) child s)"

definition syscall_waitpid ::
  "('a file_state_ext dstate_ext) switch \<Rightarrow> int \<Rightarrow> u32 \<Rightarrow> 'a file_state_scheme \<Rightarrow> (int \<times> 'a file_state_scheme) option" where
  "syscall_waitpid sw pid status s =
     (let current = current_task (cpu0 s); par = t_process (tasks s current)
      in if current = NULL \<or> par = NULL then Some (-1, s)
         else do {
           (child, prev) \<leftarrow> find_exited pid (p_children (procs s par)) NULL s;
           if child = NULL
           then do {
             s \<leftarrow> schedule sw (upd_task current (\<lambda>t. t\<lparr>t_state := TASK_STATE_BLOCKED\<rparr>) s);
             Some (-1, s) }
           else do {
             let s = (if status \<noteq> NULL then poke32 status (word_of_int (p_exit_code (procs s child))) s else s);
             let s = (if prev \<noteq> NULL then upd_proc prev (\<lambda>q. q\<lparr>p_sibling := p_sibling (procs s child)\<rparr>) s
                      else upd_proc par (\<lambda>q. q\<lparr>p_children := p_sibling (procs s child)\<rparr>) s);
             let s = free_pid (p_pid (procs s child)) s;
             s \<leftarrow> (if p_fd_table (procs s child) \<noteq> NULL then kfree sw (p_fd_table (procs s child)) s else Some s);
             s \<leftarrow> kfree sw child s;
             Some (if pid = -1 then p_pid (procs s child) else pid, s) } })"

definition syscall_sleep :: "('a file_state_ext dstate_ext) switch \<Rightarrow> u32 \<Rightarrow> 'a file_state_scheme \<Rightarrow> 'a file_state_scheme option" where
  "syscall_sleep sw seconds s =
     (let current = current_task (cpu0 s)
      in if current = NULL then Some s
         else schedule sw (upd_task current (\<lambda>t. t\<lparr>t_wake_time := tick_count (cpu0 s) + seconds * 1000,
                t_state := TASK_STATE_SLEEPING\<rparr>) s))"

definition syscall_kill :: "int \<Rightarrow> int \<Rightarrow> int" where
  "syscall_kill pid sig = -1"

definition syscall_exec ::
  "'a net_switch \<Rightarrow> u32 \<Rightarrow> u8 list option \<Rightarrow> 'a net_state_scheme \<Rightarrow> (int \<times> 'a net_state_scheme) option" where
  "syscall_exec sw loc path s = do_execve sw loc path s"


section \<open>Descriptors\<close>

text \<open>The loop of \<^verbatim>\<open>syscall_pipe\<close>: the two lowest free descriptors, \<open>-1\<close> for one that is not found.\<close>

fun pipe_fds :: "nat list \<Rightarrow> u32 \<Rightarrow> u32 \<Rightarrow> u32 \<Rightarrow> int \<Rightarrow> 'a kstate_scheme \<Rightarrow> (int \<times> int \<times> 'a kstate_scheme) option" where
  "pipe_fds [] tbl rfile wfile rd s = Some (rd, -1, s)"
| "pipe_fds (i # is) tbl rfile wfile rd s =
     (if i < length (fd_tables s tbl)
      then if fd_tables s tbl ! i \<noteq> FNull then pipe_fds is tbl rfile wfile rd s
           else if rd = -1 then pipe_fds is tbl rfile wfile (int i) (set_fd tbl i (HeapFile rfile) s)
           else Some (rd, int i, set_fd tbl i (HeapFile wfile) s)
      else None)"

definition free_pipe :: "'a net_switch \<Rightarrow> u32 \<Rightarrow> u32 \<Rightarrow> u32 \<Rightarrow> 'a net_state_scheme \<Rightarrow> (int \<times> 'a net_state_scheme) option" where
  "free_pipe sw rfile wfile p s = do { s \<leftarrow> kfree sw rfile s; s \<leftarrow> kfree sw wfile s; s \<leftarrow> kfree sw p s; Some (-1, s) }"

definition syscall_pipe :: "'a net_switch \<Rightarrow> u32 \<Rightarrow> 'a net_state_scheme \<Rightarrow> (int \<times> 'a net_state_scheme) option" where
  "syscall_pipe sw pipefd s = do {
     (p, s) \<leftarrow> kzalloc sw PIPE_SIZE s;
     if p = NULL then Some (-1, s)
     else do {
       (rfile, s) \<leftarrow> kzalloc_file sw s;
       let s = poke32 (p + 4112) rfile s;
       (wfile, s) \<leftarrow> kzalloc_file sw s;
       let s = poke32 (p + 4116) wfile s;
       if rfile = NULL \<or> wfile = NULL then free_pipe sw rfile wfile p s
       else do {
         let s = upd_file (HeapFile rfile) (\<lambda>f. f\<lparr>f_fops := Some PipeReadFops, f_private := PPipe p, f_ref_count := 1\<rparr>) s;
         let s = upd_file (HeapFile wfile) (\<lambda>f. f\<lparr>f_fops := Some PipeWriteFops, f_private := PPipe p, f_ref_count := 1\<rparr>) s;
         pr \<leftarrow> current_proc s;
         (read_fd, write_fd, s) \<leftarrow> pipe_fds [0..<32] (p_fd_table (procs s pr)) rfile wfile (-1) s;
         if read_fd = -1 \<or> write_fd = -1 then free_pipe sw rfile wfile p s
         else do {
           let s = upd_proc pr (\<lambda>q. q\<lparr>p_fd_count := (if write_fd > read_fd then write_fd + 1 else read_fd + 1)\<rparr>) s;
           Some (0, poke32 (pipefd + 4) (word_of_int write_fd) (poke32 pipefd (word_of_int read_fd) s)) } } } }"

definition syscall_pread ::
  "'a net_switch \<Rightarrow> int \<Rightarrow> u32 \<Rightarrow> u32 \<Rightarrow> u32 \<Rightarrow> 'a net_state_scheme \<Rightarrow> (int \<times> 'a net_state_scheme) option" where
  "syscall_pread sw fd buf count offset s = do {
     r \<leftarrow> get_file fd s;
     if r = FNull then Some (-1, s) else vfs_pread sw r buf count offset s }"

definition syscall_pwrite ::
  "'a net_switch \<Rightarrow> nat \<Rightarrow> u32 \<Rightarrow> int \<Rightarrow> u32 \<Rightarrow> u32 \<Rightarrow> u32 \<Rightarrow> 'a net_state_scheme \<Rightarrow> (int \<times> 'a net_state_scheme) option" where
  "syscall_pwrite sw n pool fd buf count offset s = do {
     r \<leftarrow> get_file fd s;
     if r = FNull then Some (-1, s) else vfs_pwrite sw n pool r buf count offset s }"

definition syscall_mkdir :: "u8 list option \<Rightarrow> u32 \<Rightarrow> 'a net_state_scheme \<Rightarrow> (int \<times> 'a net_state_scheme) option" where
  "syscall_mkdir path mode s = vfs_mkdir path mode s"

definition syscall_rmdir :: "u8 list option \<Rightarrow> 'a net_state_scheme \<Rightarrow> (int \<times> 'a net_state_scheme) option" where
  "syscall_rmdir path s = vfs_rmdir path s"

definition syscall_unlink :: "u8 list option \<Rightarrow> 'a net_state_scheme \<Rightarrow> (int \<times> 'a net_state_scheme) option" where
  "syscall_unlink path s = vfs_unlink path s"

definition syscall_rename :: "u8 list option \<Rightarrow> u8 list option \<Rightarrow> 'a net_state_scheme \<Rightarrow> (int \<times> 'a net_state_scheme) option" where
  "syscall_rename oldpath newpath s = vfs_rename oldpath newpath s"

definition syscall_chdir :: "'a net_switch \<Rightarrow> u8 list option \<Rightarrow> 'a net_state_scheme \<Rightarrow> (int \<times> 'a net_state_scheme) option" where
  "syscall_chdir sw path s = vfs_chdir sw path s"

definition syscall_getcwd :: "u32 \<Rightarrow> u32 \<Rightarrow> 'a net_state_scheme \<Rightarrow> int \<times> 'a net_state_scheme" where
  "syscall_getcwd buf sz s = vfs_getcwd buf sz s"

definition syscall_fstat :: "int \<Rightarrow> u32 \<Rightarrow> 'a net_state_scheme \<Rightarrow> (int \<times> 'a net_state_scheme) option" where
  "syscall_fstat fd p s = do {
     r \<leftarrow> get_file fd s;
     if r = FNull then Some (-1, s) else do { (v, st) \<leftarrow> vfs_fstat r s; Some (v, store_stat p st s) } }"

definition syscall_dup :: "int \<Rightarrow> 'a file_state_scheme \<Rightarrow> (int \<times> 'a file_state_scheme) option" where
  "syscall_dup oldfd s = do {
     r \<leftarrow> get_file oldfd s;
     if r = FNull then Some (-1, s)
     else do {
       pr \<leftarrow> current_proc s;
       fd \<leftarrow> free_fd_from 0 32 (fd_tables s (p_fd_table (procs s pr)));
       case fd of None \<Rightarrow> Some (-1, s)
       | Some i \<Rightarrow> Some (int i, add_ref 1 r (set_fd (p_fd_table (procs s pr)) i r s)) } }"

definition syscall_dup2 :: "'a net_switch \<Rightarrow> int \<Rightarrow> int \<Rightarrow> 'a net_state_scheme \<Rightarrow> (int \<times> 'a net_state_scheme) option" where
  "syscall_dup2 sw oldfd newfd s = do {
     r \<leftarrow> get_file oldfd s;
     if r = FNull \<or> newfd < 0 \<or> newfd \<ge> 32 then Some (-1, s)
     else do {
       let current = current_task (cpu0 s);
       let tbl = p_fd_table (procs s (t_process (tasks s current)));
       if nat newfd < length (fd_tables s tbl)
       then do {
         s \<leftarrow> (if fd_tables s tbl ! nat newfd \<noteq> FNull then map_option snd (vfs_close sw (fd_tables s tbl ! nat newfd) s) else Some s);
         let tbl = p_fd_table (procs s (t_process (tasks s current)));
         if nat newfd < length (fd_tables s tbl) then Some (newfd, add_ref 1 r (set_fd tbl (nat newfd) r s)) else None }
       else None } }"


section \<open>The handler\<close>

text \<open>A call on the file behind a descriptor; \<^verbatim>\<open>ret\<close> stays \<open>-1\<close> without a file.\<close>

definition on_file ::
  "int \<Rightarrow> (file_ref \<Rightarrow> 'a net_state_scheme \<Rightarrow> (int \<times> 'a net_state_scheme) option) \<Rightarrow> 'a net_state_scheme \<Rightarrow> (int \<times> 'a net_state_scheme) option" where
  "on_file fd op s = do { r \<leftarrow> get_file fd s; if r \<noteq> FNull then op r s else Some (-1, s) }"

text \<open>A call on a path argument.\<close>

definition on_path ::
  "u32 \<Rightarrow> (u8 list option \<Rightarrow> 'a net_state_scheme \<Rightarrow> (int \<times> 'a net_state_scheme) option) \<Rightarrow> 'a net_state_scheme \<Rightarrow> (int \<times> 'a net_state_scheme) option" where
  "on_path p op s = do { path \<leftarrow> path_arg p (mem s); op path s }"

definition handle_open :: "u8 list option \<Rightarrow> u32 \<Rightarrow> 'a net_state_scheme \<Rightarrow> (int \<times> 'a net_state_scheme) option" where
  "handle_open path flags s = do {
     (r, s) \<leftarrow> vfs_open path flags s;
     if r = FNull then Some (-1, s)
     else do {
       pr \<leftarrow> current_proc s;
       if p_fd_count (procs s pr) < 32
       then do {
         let fd = p_fd_count (procs s pr);
         s \<leftarrow> store_fd fd r s;
         let s = upd_proc pr (\<lambda>q. q\<lparr>p_fd_count := fd + 1\<rparr>) s;
         Some (p_fd_count (procs s pr) - 1, s) }
       else Some (-1, s) } }"

definition handle_close :: "'a net_switch \<Rightarrow> int \<Rightarrow> 'a net_state_scheme \<Rightarrow> (int \<times> 'a net_state_scheme) option" where
  "handle_close sw fd = on_file fd (\<lambda>r s. do {
     (v, s) \<leftarrow> vfs_close sw r s;
     s \<leftarrow> store_fd fd FNull s;
     Some (0, s) })"

definition handle_getppid :: "'a kstate_scheme \<Rightarrow> int" where
  "handle_getppid s =
     (let current = current_task (cpu0 s); pr = t_process (tasks s current); par = p_parent (procs s pr)
      in if current \<noteq> NULL \<and> pr \<noteq> NULL \<and> par \<noteq> NULL then p_pid (procs s par) else 0)"

definition handle_socket :: "'a net_switch \<Rightarrow> int \<Rightarrow> int \<Rightarrow> int \<Rightarrow> 'a net_state_scheme \<Rightarrow> (int \<times> 'a net_state_scheme) option" where
  "handle_socket sw domain ty protocol s = do {
     (k, s) \<leftarrow> sock_create sw domain ty protocol s;
     if k = NULL then Some (-1, s)
     else do {
       (ret, s) \<leftarrow> sock_alloc_fd sw k s;
       if ret < 0 then do { (v, s) \<leftarrow> sock_close sw k s; Some (ret, s) } else Some (ret, s) } }"

text \<open>The socket behind a descriptor, null without one; a file whose private data is not a socket gives \<open>None\<close>.\<close>

definition on_socket ::
  "int \<Rightarrow> (u32 \<Rightarrow> 'a net_state_scheme \<Rightarrow> (int \<times> 'a net_state_scheme) option) \<Rightarrow> 'a net_state_scheme \<Rightarrow> (int \<times> 'a net_state_scheme) option" where
  "on_socket fd op = on_file fd (\<lambda>r s. do {
     f \<leftarrow> get_file_obj r s;
     if f_private f = PNull then Some (-1, s) else do { k \<leftarrow> priv_sock (f_private f); op k s } })"

definition handle_sendto ::
  "'a net_switch \<Rightarrow> nat \<Rightarrow> int \<Rightarrow> u32 \<Rightarrow> u32 \<Rightarrow> u32 \<Rightarrow> 'a net_state_scheme \<Rightarrow> (int \<times> 'a net_state_scheme) option" where
  "handle_sendto sw n fd buf len dest = on_socket fd (\<lambda>k s.
     let (addr, port) = (if dest \<noteq> NULL then (ld32 (mem s) (dest + 4), bswap16 (ld16 (mem s) (dest + 2))) else (0, 0))
     in sock_sendto sw n k buf len addr port s)"

definition handle_recvfrom ::
  "'a net_switch \<Rightarrow> int \<Rightarrow> u32 \<Rightarrow> u32 \<Rightarrow> u32 \<Rightarrow> 'a net_state_scheme \<Rightarrow> (int \<times> 'a net_state_scheme) option" where
  "handle_recvfrom sw fd buf len src = on_socket fd (\<lambda>k s. do {
     (ret, s) \<leftarrow> sock_recvfrom sw k buf len s;
     Some (ret, if ret \<ge> 0 \<and> src \<noteq> NULL then poke16 (src + 2) 0 (poke32 (src + 4) 0 (poke16 src 2 s)) else s) })"

text \<open>The switch of the handler on the number of the call.\<close>

definition syscall_switch ::
  "'a net_switch \<Rightarrow> nat \<Rightarrow> u32 \<Rightarrow> u32 \<Rightarrow> task_context \<Rightarrow> 'a net_state_scheme \<Rightarrow> (int \<times> 'a net_state_scheme) option" where
  "syscall_switch sw n pool loc c s =
     (let num = sint (c_a2 c)
      in if num = 0 then do { s \<leftarrow> syscall_exit sw (sint (c_a3 c)) s; Some (-1, s) }
         else if num = 1 then syscall_fork sw s
         else if num = 2 then on_path (c_a3 c) (syscall_exec sw loc) s
         else if num = 3 then syscall_waitpid sw (sint (c_a3 c)) (c_a4 c) s
         else if num = 4 then on_file (sint (c_a3 c)) (\<lambda>r. vfs_read sw r (c_a4 c) (c_a5 c)) s
         else if num = 5 then on_file (sint (c_a3 c)) (\<lambda>r. vfs_write sw n pool r (c_a4 c) (c_a5 c)) s
         else if num = 6 then on_path (c_a3 c) (\<lambda>path. handle_open path (c_a4 c)) s
         else if num = 7 then handle_close sw (sint (c_a3 c)) s
         else if num = 8 then on_file (sint (c_a3 c)) (\<lambda>r. vfs_lseek r (c_a4 c) (sint (c_a5 c))) s
         else if num = 9 then on_path (c_a3 c) (\<lambda>path s. do { (v, st, s) \<leftarrow> vfs_stat path s; Some (v, store_stat (c_a4 c) st s) }) s
         else if num = 10 then on_path (c_a3 c) (\<lambda>path. syscall_mkdir path (c_a4 c)) s
         else if num = 11 then on_path (c_a3 c) syscall_rmdir s
         else if num = 12 then on_path (c_a3 c) syscall_unlink s
         else if num = 13 then on_path (c_a3 c) (\<lambda>oldpath. on_path (c_a4 c) (syscall_rename oldpath)) s
         else if num = 14 then Some (if current_task (cpu0 s) \<noteq> NULL then t_pid (tasks s (current_task (cpu0 s))) else 0, s)
         else if num = 15 then Some (handle_getppid s, s)
         else if num = 18 then do { s \<leftarrow> syscall_sleep sw (c_a3 c) s; Some (0, s) }
         else if num = 19 then do { s \<leftarrow> task_yield sw s; Some (0, s) }
         else if num = 20 then on_file (sint (c_a3 c)) (\<lambda>r s. Some (vfs_ioctl r (sint (c_a4 c)) (c_a5 c) s, s)) s
         else if num = 21 then syscall_pipe sw (c_a3 c) s
         else if num = 22 then syscall_dup (sint (c_a3 c)) s
         else if num = 23 then syscall_dup2 sw (sint (c_a3 c)) (sint (c_a4 c)) s
         else if num = 26 then Some (syscall_kill (sint (c_a3 c)) (sint (c_a4 c)), s)
         else if num = 31 then on_file (sint (c_a3 c)) (\<lambda>r. vfs_pread sw r (c_a4 c) (c_a4 c) (c_a5 c)) s
         else if num = 32 then on_file (sint (c_a3 c)) (\<lambda>r. vfs_pwrite sw n pool r (c_a4 c) (c_a4 c) (c_a5 c)) s
         else if num = 33 then on_path (c_a3 c) (syscall_chdir sw) s
         else if num = 34 then Some (syscall_getcwd (c_a3 c) (c_a4 c) s)
         else if num = 35 then on_file (sint (c_a3 c)) (\<lambda>r s. do { (v, st) \<leftarrow> vfs_fstat r s; Some (v, store_stat (c_a4 c) st s) }) s
         else if num = 36 then handle_socket sw (sint (c_a3 c)) (sint (c_a4 c)) (sint (c_a5 c)) s
         else if num = 37 then on_socket (sint (c_a3 c)) (\<lambda>k s.
           sock_bind sw k (ld32 (mem s) (c_a4 c + 4)) (bswap16 (ld16 (mem s) (c_a4 c + 2))) s) s
         else if num = 38 then on_socket (sint (c_a3 c)) (\<lambda>k s.
           Some (sock_connect k (ld32 (mem s) (c_a4 c + 4)) (bswap16 (ld16 (mem s) (c_a4 c + 2))) s)) s
         else if num = 39 then handle_sendto sw n (sint (c_a3 c)) (c_a4 c) (c_a5 c) (c_a7 c) s
         else if num = 40 then handle_recvfrom sw (sint (c_a3 c)) (c_a4 c) (c_a5 c) (c_a7 c) s
         else Some (-1, s))"

definition syscall_handler ::
  "'a net_switch \<Rightarrow> nat \<Rightarrow> u32 \<Rightarrow> u32 \<Rightarrow> u32 \<Rightarrow> 'a net_state_scheme \<Rightarrow> 'a net_state_scheme option" where
  "syscall_handler sw n pool loc ctx s = do {
     (ret, s) \<leftarrow> syscall_switch sw n pool loc (contexts s ctx) s;
     Some (s\<lparr>contexts := (contexts s)(ctx := (contexts s ctx)\<lparr>c_a2 := word_of_int ret\<rparr>)\<rparr>) }"

section \<open>What a system call leaves alone\<close>

text \<open>The heap lock stays idle and the process table, the run queues, the cpu state and the process identifiers stay
  as they are.\<close>

definition calm_view :: "'a mstate_scheme \<Rightarrow> bool \<times> u32 list \<times> u32 list \<times> u32 \<times> cpu_state \<times> (u32 \<Rightarrow> int)" where
  "calm_view s = (lock_idle s, process_table s, runnable_queue s, sleep_queue s, cpu0 s, \<lambda>q. p_pid (procs s q))"

definition calm :: "'a mstate_scheme \<Rightarrow> 'a mstate_scheme \<Rightarrow> bool" where
  "calm s t \<longleftrightarrow> (lock_idle s \<longrightarrow> calm_view t = calm_view s)"

interpretation cf: frame_rel calm
  by unfold_locales (auto simp: calm_def calm_view_def)

lemma calm_same_kernel: "(lock_idle s \<Longrightarrow> same_kernel s t) \<Longrightarrow> calm s t"
  using same_kernelD [of s t] lock_idle_same [of s t] same_kernel_more [of s t] by (auto simp: calm_def calm_view_def)

lemma calm_cong: "calm_view s = calm_view s' \<Longrightarrow> calm_view t = calm_view t' \<Longrightarrow> calm s t = calm s' t'"
  by (simp add: calm_def) (simp add: calm_view_def)

lemma calm_eq: "calm_view t = calm_view s \<Longrightarrow> calm s t"
  by (simp add: calm_def)

lemma calm_kzalloc: "kzalloc sw n s = Some (p, t) \<Longrightarrow> calm_view s = calm_view u \<Longrightarrow> calm u t"
  using calm_same_kernel [OF kzalloc_kernel] calm_cong by blast

lemma calm_kfree: "kfree sw p s = Some t \<Longrightarrow> calm_view s = calm_view u \<Longrightarrow> calm u t"
  using calm_same_kernel [OF kfree_kernel] calm_cong by blast

lemma calm_aligned: "kmalloc_aligned sw n al s = Some (p, t) \<Longrightarrow> calm_view s = calm_view u \<Longrightarrow> calm u t"
  using calm_same_kernel [OF kmalloc_aligned_kernel] calm_cong by blast

lemma calm_view_simps [simp]:
  "calm_view (upd_task p f t) = calm_view t" "calm_view (free_tid i t) = calm_view t"
  "calm_view (setup_stack p e t) = calm_view t" "calm_view (set_fd tbl j r t) = calm_view t"
  "calm_view (t\<lparr>fd_tables := fds\<rparr>) = calm_view t" "calm_view (t\<lparr>contexts := cs\<rparr>) = calm_view t"
  "calm_view (t\<lparr>task_table := tt\<rparr>) = calm_view t"
  by (simp_all add: calm_view_def free_tid_def setup_stack_def set_fd_def Let_def lock_idle_def)

lemma calm_view_proc [simp]: "(\<And>q. p_pid (g q) = p_pid q) \<Longrightarrow> calm_view (upd_proc p g t) = calm_view t"
  by (simp add: calm_view_def upd_proc_def lock_idle_def fun_eq_iff)

lemma calm_view_register [simp]: "calm_view (register_task pr p t) = calm_view t"
  by (simp add: register_task_def Let_def)

lemma calm_view_file [simp]: "calm_view (upd_file r f t) = calm_view t"
  by (cases r) (simp_all add: calm_view_def lock_idle_def)

lemma calm_kzalloc_task: "kzalloc_task sw s = Some (p, t) \<Longrightarrow> calm s t"
  by (auto simp: kzalloc_task_def calm_def split: bind_splits dest: calm_kzalloc [OF _ refl])

lemma calm_task_create: "task_create sw proc entry prio s = Some (p, s') \<Longrightarrow> calm s s'"
  unfolding task_create_def Let_def
  apply (simp add: cf.frame_refl split: if_split_asm)
  apply (erule cf.bind_pair, erule calm_kzalloc_task)
  apply (simp add: cf.frame_refl split: if_split_asm)
   apply (auto intro: calm_kfree split: bind_splits) [1]
  apply (erule cf.bind_pair, erule calm_aligned, simp)
  apply (auto intro: calm_kfree calm_eq split: bind_splits if_split_asm) [1]
  done

lemma calm_share_fds: "share_fds is old new s = Some s' \<Longrightarrow> calm s s'"
proof (induction "is" arbitrary: s)
  case (Cons i "is")
  have v: "calm_view (add_ref 1 r (set_fd new i r s)) = calm_view s" for r by (simp add: add_ref_def)
  consider "share_fds is old new s = Some s'" | r where "share_fds is old new (add_ref 1 r (set_fd new i r s)) = Some s'"
    using Cons.prems by (auto simp: Let_def split: if_splits)
  then show ?case using Cons.IH calm_cong [OF v refl] by cases blast+
qed (simp add: cf.frame_refl)

lemma calm_unshare_fds: "unshare_fds is new s = Some s' \<Longrightarrow> calm s s'"
proof (induction "is" arbitrary: s)
  case (Cons i "is")
  have v: "calm_view (add_ref (-1) r s) = calm_view s" for r by (simp add: add_ref_def)
  consider "unshare_fds is new s = Some s'" | r where "unshare_fds is new (add_ref (-1) r s) = Some s'"
    using Cons.prems by (auto simp: Let_def split: if_splits)
  then show ?case using Cons.IH calm_cong [OF v refl] by cases blast+
qed (simp add: cf.frame_refl)

lemma fork_task_calm:
  assumes "fork_task sw current par new_proc tbl s = Some (pid, s')" "pid \<noteq> -1"
  shows "calm s s'" "pid = p_pid (procs s' new_proc)"
proof -
  define fds where "fds = [0..<nat (p_fd_count (procs s par))]"
  let ?s0 = "upd_proc new_proc (\<lambda>q. q\<lparr>p_fd_count := p_fd_count (procs s par)\<rparr>) s"
  obtain s1 where s1: "share_fds fds (p_fd_table (procs ?s0 par)) tbl ?s0 = Some s1"
    using assms(1) by (auto simp: fork_task_def Let_def fds_def split: bind_splits)
  then obtain nt s2 where s2: "task_create sw new_proc (c_pc (contexts s1 (t_context (tasks s1 current)))) (t_priority (tasks s1 current)) s1 = Some (nt, s2)"
    using assms(1) by (auto simp: fork_task_def Let_def fds_def split: bind_splits)
  have nt: "nt \<noteq> NULL" using assms s1 s2 by (auto simp: fork_task_def Let_def fds_def split: bind_splits)
  define s3 where "s3 = s2\<lparr>contexts := (contexts s2)(t_context (tasks s2 nt) :=
                 (contexts s2 (t_context (tasks s2 current)))\<lparr>c_a2 := 0\<rparr>)\<rparr>"
  have e: "s' = upd_proc par (\<lambda>q. q\<lparr>p_children := new_proc\<rparr>) (upd_proc new_proc (\<lambda>q. q\<lparr>p_parent := par, p_sibling := p_children (procs s3 par)\<rparr>) s3)"
    "pid = p_pid (procs s' new_proc)"
    using assms(1) s1 s2 nt by (auto simp: fork_task_def Let_def fds_def s3_def)
  have v0: "calm_view s = calm_view ?s0" by simp
  have "calm ?s0 s1" using s1 by (rule calm_share_fds)
  then have "calm s s1" using calm_cong [OF v0 refl] by blast
  moreover have "calm s1 s2" using s2 by (rule calm_task_create)
  moreover have "calm_view s' = calm_view s2" by (simp add: e(1) s3_def)
  ultimately show "calm s s'" using cf.frame_trans calm_eq by metis
  show "pid = p_pid (procs s' new_proc)" by (rule e(2))
qed


lemma alloc_pid_calm: "calm s t \<Longrightarrow> lock_idle s \<Longrightarrow> alloc_pid t = alloc_pid s"
  by (simp add: calm_def calm_view_def alloc_pid_def)

lemma fork_proc_calm:
  assumes "fork_proc sw current new_proc s = Some (pid, s')" "pid \<noteq> -1"
  shows "calm s s'" "pid = p_pid (procs s' new_proc)"
proof -
  define par where "par = t_process (tasks s current)"
  define s1 where "s1 = upd_proc new_proc (\<lambda>q. q\<lparr>p_ppid := p_pid (procs s par), p_uid := p_uid (procs s par), p_gid := p_gid (procs s par),
               p_name := take 31 (p_name (procs s par)), p_fd_max := p_fd_max (procs s par)\<rparr>) s"
  obtain tbl s2 where s2: "kzalloc sw (4 * word_of_int (p_fd_max (procs s1 new_proc))) s1 = Some (tbl, s2)"
    using assms(1) unfolding fork_proc_def Let_def par_def [symmetric] s1_def [symmetric] by (auto split: bind_splits)
  define s3 where "s3 = upd_proc new_proc (\<lambda>q. q\<lparr>p_fd_table := tbl\<rparr>) s2"
  obtain fds where f: "fork_task sw current par new_proc tbl (s3\<lparr>fd_tables := fds\<rparr>) = Some (pid, s')"
    using assms s2 unfolding fork_proc_def Let_def par_def [symmetric] s1_def [symmetric]
    by (auto simp: s3_def split: if_splits bind_splits)
  have "calm s s2" by (rule calm_kzalloc [OF s2]) (simp add: s1_def)
  moreover have "calm_view (s3\<lparr>fd_tables := fds\<rparr>) = calm_view s2" by (simp add: s3_def)
  moreover note fork_task_calm [OF f assms(2)]
  ultimately show "calm s s'" "pid = p_pid (procs s' new_proc)" using cf.frame_trans calm_eq by metis+
qed

text \<open>C39: \<^verbatim>\<open>syscall_fork\<close> gives every child the same identifier and never makes a child runnable: the new process is not
  entered in the process table, so the identifier it returns is still the one \<^verbatim>\<open>alloc_pid\<close> hands out next, and no
  run queue has changed.\<close>

theorem fork_reuses_pid:
  assumes "lock_idle s" "syscall_fork sw s = Some (pid, s')" "pid \<noteq> -1"
  shows "pid = alloc_pid s \<and> alloc_pid s' = pid \<and> runnable_queue s' = runnable_queue s \<and> sleep_queue s' = sleep_queue s"
proof -
  let ?c = "current_task (cpu0 s)"
  have c: "?c \<noteq> NULL" "t_process (tasks s ?c) \<noteq> NULL" using assms(2,3) by (auto simp: syscall_fork_def Let_def)
  obtain np s1 where k: "kzalloc_process sw s = Some (np, s1)" "np \<noteq> NULL"
    using assms(2,3) c by (auto simp: syscall_fork_def Let_def split: bind_splits if_splits)
  obtain s0 where s0: "kzalloc sw 112 s = Some (np, s0)" "s1 = upd_proc np (\<lambda>_. process_zero) s0"
    using k by (auto simp: kzalloc_process_def split: bind_splits)
  have c0: "calm s s0" using calm_kzalloc [OF s0(1) refl] .
  define s2 where "s2 = upd_proc np (\<lambda>q. q\<lparr>p_pid := alloc_pid s1\<rparr>) s1"
  have p2: "process_table s2 = process_table s" "runnable_queue s2 = runnable_queue s" "sleep_queue s2 = sleep_queue s"
    "lock_idle s2" "p_pid (procs s2 np) = alloc_pid s"
    using c0 assms(1) s0(2) alloc_pid_calm [OF c0] by (simp_all add: calm_def calm_view_def s2_def)
  have ap: "alloc_pid s1 \<noteq> 0"
    using assms(2,3) c k by (auto simp: syscall_fork_def Let_def split: bind_splits if_splits)
  have "fork_proc sw ?c np s2 = Some (pid, s')"
    using assms(2,3) c k ap by (auto simp: syscall_fork_def Let_def s2_def split: bind_splits if_splits)
  note F = fork_proc_calm [OF this assms(3)]
  then have "pid = alloc_pid s" "process_table s' = process_table s" "runnable_queue s' = runnable_queue s" "sleep_queue s' = sleep_queue s"
    using p2 by (auto simp: calm_def calm_view_def fun_eq_iff)
  then show ?thesis by (simp add: alloc_pid_def)
qed


text \<open>A process with one task on the example heap.\<close>

definition demo_proc :: net_state where
  "demo_proc = demo_net\<lparr>cpu0 := (cpu0 demo_net)\<lparr>current_task := 0x600\<rparr>,
     tasks := (tasks demo_net)(0x600 := task_zero\<lparr>t_process := 0x700, t_state := TASK_STATE_RUNNING\<rparr>),
     procs := (procs demo_net)(0x700 := process_zero\<lparr>p_pid := 1, p_fd_max := 2\<rparr>),
     process_table := (replicate 32 NULL)[1 := 0x700], task_table := replicate 64 NULL, heap_lock := mutex_zero\<rparr>"

lemma demo_proc_bump: "bump 0 0x3FC90000 demo_proc" "hb_size demo_proc 0x3FC90000 = 0xFFEC" "lock_idle demo_proc" "num_regions demo_proc = 1"
  using demo_net_bump demo_heap_bump(5) by (simp_all add: demo_proc_def bump_def hb_defs lock_idle_def)

lemma demo_alloc_pid: "first_free MAX_PROCESSES ((replicate 32 NULL)[1 := 0x700]) = 2" "first_free MAX_TASKS (replicate 64 NULL) = 1"
  by (simp_all add: first_free_def upt_conv_Cons)

lemma bump_payload:
  assumes "bump i f s" shows "f + 20 \<noteq> NULL"
proof -
  have "unat (f + 20) = unat f + 20" using bump_bounds(1) [OF assms] by (simp add: unat_add_lem [THEN iffD1])
  then show ?thesis by (metis add_is_0 unat_0 zero_neq_numeral)
qed

lemma task_create_bump:
  assumes b: "bump 0 f s" and idle: "lock_idle s" and sz: "4300 \<le> unat (hb_size s f)" and nr: "0 < num_regions s"
    and al: "(f + 96 + 15) AND NOT 15 = f + 96" and tid: "alloc_tid s \<noteq> 0" and pr: "proc \<noteq> NULL"
  shows "\<exists>s'. task_create sw proc e prio s = Some (f + 20, s')"
proof -
  have r: "round_up 56 = 56" by (simp add: round_up_def)
  have n56: "(56 :: u32) \<noteq> 0" "unat (56 :: u32) \<le> unat (round_up 56)" by (simp_all add: r)
  have e: "f + 20 + 56 = f + 76" "hb_size s f - 56 - 20 = hb_size s f - 76" "f + 76 + 20 = f + 96" "f + 96 + 16 - 1 = f + 96 + 15" by simp_all
  obtain s1 where s1: "kzalloc sw 56 s = Some (f + 20, s1)" "bump 0 (f + 76) s1" "hb_size s1 (f + 76) = hb_size s f - 76"
    "lock_idle s1" "num_regions s1 = num_regions s"
    using kzalloc_bump [OF b idle n56, of sw] sz unfolding r e by auto
  have nz: "f + 20 \<noteq> NULL" "f + 96 \<noteq> NULL"
    using bump_payload [OF b] bump_payload [OF s1(2)] unfolding e by auto
  have t1: "alloc_tid s1 = alloc_tid s" using same_kernelD(10) [OF kzalloc_kernel [OF idle s1(1)]] by (simp add: alloc_tid_def)
  have sz1: "unat (hb_size s f - 76) = unat (hb_size s f) - 76" using sz by (simp add: unat_sub word_le_nat_alt)
  have A: "kmalloc_aligned sw 4096 16 t = Some (f + 96, carve 0 (f + 76) 4096 t)"
    if "bump 0 (f + 76) t" "lock_idle t" "hb_size t (f + 76) = hb_size s f - 76" "num_regions t = num_regions s" for t
    using kmalloc_aligned_bump [OF that(1,2), of 4096 16 sw] that(4) sz1 sz nr al unfolding e that(3) by simp
  have K: "kzalloc_task sw s = Some (f + 20, upd_task (f + 20) (\<lambda>_. task_zero) s1)" using s1(1) nz by (simp add: kzalloc_task_def)
  show ?thesis using s1 K t1 tid pr nz by (simp add: task_create_def Let_def A)
qed


lemma bump_upd_proc [simp]:
  "bump i g (upd_proc p f s) = bump i g s" "hb_size (upd_proc p f s) = hb_size s" "num_regions (upd_proc p f s) = num_regions s"
  "bump i g (s\<lparr>fd_tables := fds\<rparr>) = bump i g s" "hb_size (s\<lparr>fd_tables := fds\<rparr>) = hb_size s"
  "lock_idle (s\<lparr>fd_tables := fds\<rparr>) = lock_idle s"
  by (simp_all add: bump_def upd_proc_def hb_defs lock_idle_def fun_eq_iff)

lemma fd_tables_upd_proc [simp]: "fd_tables (upd_proc p f s) = fd_tables s" "contexts (upd_proc p f s) = contexts s"
  by (simp_all add: upd_proc_def)

lemma demo_fork_proc:
  assumes "bump 0 0x3FC90084 s" "hb_size s 0x3FC90084 = 0xFF68" "lock_idle s" "num_regions s = 1"
    and "t_process (tasks s 0x600) = 0x700" "procs s 0x700 = process_zero\<lparr>p_pid := 1, p_fd_max := 2\<rparr>" "task_table s = replicate 64 NULL"
    and "p_pid (procs s 0x3FC90014) = 2"
  shows "\<exists>s'. fork_proc sw 0x600 0x3FC90014 s = Some (2, s')"
proof -
  have r: "round_up 8 = 8" by (simp add: round_up_def)
  define s1 where "s1 = upd_proc 0x3FC90014 (\<lambda>q. q\<lparr>p_ppid := 1, p_uid := p_uid process_zero, p_gid := p_gid process_zero,
               p_name := take 31 (p_name process_zero), p_fd_max := 2\<rparr>) s"
  have b1: "bump 0 0x3FC90084 s1" "hb_size s1 0x3FC90084 = 0xFF68" "lock_idle s1" "num_regions s1 = 1"
    using assms(1-4) by (simp_all add: s1_def)
  obtain s2 where s2: "kzalloc sw 8 s1 = Some (0x3FC90098, s2)" "bump 0 0x3FC900A0 s2"
    "hb_size s2 0x3FC900A0 = 0xFF4C" "lock_idle s2" "num_regions s2 = 1"
    using kzalloc_bump [OF b1(1,3), of 8 sw] b1(2,4) by (auto simp: r)
  note k = kzalloc_kernel [OF b1(3) s2(1)]
  note K = same_kernelD [OF k] same_kernel_more [OF k]
  have ps: "procs s2 = procs s1" using K(11) by simp
  define s3 where "s3 = (upd_proc 0x3FC90014 (\<lambda>q. q\<lparr>p_fd_table := 0x3FC90098\<rparr>) s2)\<lparr>fd_tables := (fd_tables s2)(0x3FC90098 := replicate 2 FNull)\<rparr>"
  have f: "fork_proc sw 0x600 0x3FC90014 s = fork_task sw 0x600 0x700 0x3FC90014 0x3FC90098 s3"
  proof -
    have "p_fd_max (procs s1 0x3FC90014) = 2" by (simp add: s1_def)
    moreover have "p_fd_max (procs s2 0x3FC90014) = 2" using calculation by (simp only: ps)
    ultimately have "p_fd_max (procs s1 0x3FC90014) = 2" "p_fd_max (procs s2 0x3FC90014) = 2" by blast+
    then show ?thesis unfolding fork_proc_def Let_def using assms(5,6) s2(1)
      by (simp add: s1_def [symmetric] s3_def)
  qed
  have s3: "p_fd_count (procs s3 0x700) = 0" "p_pid (procs s3 0x3FC90014) = 2" "alloc_tid s3 \<noteq> 0"
    "bump 0 0x3FC900A0 s3" "hb_size s3 0x3FC900A0 = 0xFF4C" "lock_idle s3" "num_regions s3 = 1"
    using s2(2-5) K(10) assms(6-8) demo_alloc_pid(2) by (simp_all add: s3_def ps s1_def alloc_tid_def process_zero_def)
  define s4 where "s4 = upd_proc 0x3FC90014 (\<lambda>q. q\<lparr>p_fd_count := 0\<rparr>) s3"
  have s4: "alloc_tid s4 \<noteq> 0" "bump 0 0x3FC900A0 s4" "hb_size s4 0x3FC900A0 = 0xFF4C" "lock_idle s4" "num_regions s4 = 1"
    "p_pid (procs s4 0x3FC90014) = 2" "p_fd_count (procs s4 0x3FC90014) = 0" using s3 by (simp_all add: s4_def alloc_tid_def)
  obtain s5 where s5: "task_create sw 0x3FC90014 (c_pc (contexts s4 (t_context (tasks s4 0x600)))) (t_priority (tasks s4 0x600)) s4 = Some (0x3FC900B4, s5)"
    using task_create_bump [OF s4(2,4), of "0x3FC90014" sw] s4(1,3,5) by auto
  have p5: "p_pid (procs s5 0x3FC90014) = 2"
    using calm_task_create [OF s5] s4(4,6) by (simp add: calm_def calm_view_def fun_eq_iff)
  have "\<exists>s'. fork_task sw 0x600 0x700 0x3FC90014 0x3FC90098 s3 = Some (2, s')"
    using s3(1) s4(7) s5 p5 by (simp add: fork_task_def s4_def [symmetric])
  then show ?thesis by (simp add: f)
qed

theorem fork_reuses_pid_witness:
  "\<exists>s'. syscall_fork (\<lambda>_ _. Some) demo_proc = Some (2, s') \<and> alloc_pid s' = 2"
proof -
  have r: "round_up 112 = 112" "round_up 8 = 8" by (simp_all add: round_up_def)
  obtain s1 where s1: "kzalloc (\<lambda>_ _. Some) 112 demo_proc = Some (0x3FC90014, s1)" "bump 0 0x3FC90084 s1"
    "hb_size s1 0x3FC90084 = 0xFF68" "lock_idle s1" "num_regions s1 = 1"
    using kzalloc_bump [OF demo_proc_bump(1,3), of 112 "\<lambda>_ _. Some"] demo_proc_bump(2,4) by (auto simp: r)
  note k1 = kzalloc_kernel [OF demo_proc_bump(3) s1(1)]
  note K = same_kernelD [OF k1] same_kernel_more [OF k1]
  define s2 where "s2 = upd_proc 0x3FC90014 (\<lambda>q. q\<lparr>p_pid := 2\<rparr>) (upd_proc 0x3FC90014 (\<lambda>_. process_zero) s1)"
  have eq: "procs s1 = procs demo_proc" "tasks s1 = tasks demo_proc" "task_table s1 = task_table demo_proc" "process_table s1 = process_table demo_proc"
    using K by simp_all
  have "\<exists>s'. fork_proc (\<lambda>_ _. Some) 0x600 0x3FC90014 s2 = Some (2, s')"
    by (rule demo_fork_proc) (use s1 in \<open>simp_all add: s2_def eq demo_proc_def\<close>)
  moreover have "syscall_fork (\<lambda>_ _. Some) demo_proc = fork_proc (\<lambda>_ _. Some) 0x600 0x3FC90014 s2"
  proof -
    have "alloc_pid s1 = 2" using eq(4) demo_alloc_pid(1) by (simp add: alloc_pid_def demo_proc_def)
    moreover have "current_task (cpu0 demo_proc) = 0x600" "t_process (tasks demo_proc 0x600) = 0x700" by (simp_all add: demo_proc_def)
    ultimately show ?thesis using s1(1) by (simp add: syscall_fork_def kzalloc_process_def s2_def)
  qed
  ultimately have "\<exists>pid s'. syscall_fork (\<lambda>_ _. Some) demo_proc = Some (pid, s') \<and> pid \<noteq> -1" by auto
  then show ?thesis using fork_reuses_pid [OF demo_proc_bump(3)] demo_alloc_pid(1)
    by (fastforce simp: alloc_pid_def demo_proc_def)
qed

section \<open>Descriptors of the running process\<close>

lemma set_fd_frame [simp]:
  "cpu0 (set_fd tbl i r s) = cpu0 s" "tasks (set_fd tbl i r s) = tasks s" "procs (set_fd tbl i r s) = procs s"
  "fd_tables (set_fd tbl i r s) = (fd_tables s)(tbl := (fd_tables s tbl)[i := r])"
  by (simp_all add: set_fd_def)

lemma current_proc_Some: "current_proc s = Some pr \<longleftrightarrow>
  current_task (cpu0 s) \<noteq> NULL \<and> pr \<noteq> NULL \<and> t_process (tasks s (current_task (cpu0 s))) = pr"
  by (auto simp: current_proc_def Let_def)

lemma get_file_proc:
  "current_proc s = Some pr \<Longrightarrow> get_file fd s =
     (if fd < 0 \<or> fd \<ge> p_fd_count (procs s pr) then Some FNull
      else if nat fd < length (fd_tables s (p_fd_table (procs s pr))) then Some (fd_tables s (p_fd_table (procs s pr)) ! nat fd)
      else None)"
  by (auto simp: get_file_def current_proc_Some Let_def)

lemma free_fd_from_Some:
  "free_fd_from j n fs = Some (Some i) \<Longrightarrow> j \<le> i \<and> i - j < length fs \<and> fs ! (i - j) = FNull \<and> (\<forall>m<i - j. fs ! m \<noteq> FNull)"
proof (induction j n fs rule: free_fd_from.induct)
  case (2 j n fs)
  then show ?case
  proof (cases fs)
    case (Cons f fs')
    show ?thesis
    proof (cases "f = FNull")
      case False
      then have "Suc j \<le> i \<and> i - Suc j < length fs' \<and> fs' ! (i - Suc j) = FNull \<and> (\<forall>m<i - Suc j. fs' ! m \<noteq> FNull)"
        using 2 Cons by auto
      moreover have "i - j = Suc (i - Suc j)" if "Suc j \<le> i" using that by simp
      ultimately show ?thesis using Cons False by (auto simp: less_Suc_eq_0_disj)
    qed (use 2 Cons in auto)
  qed auto
qed auto

text \<open>C9: A successful \<^verbatim>\<open>open\<close> system call returns the old descriptor count; that descriptor then names the file
  \<^verbatim>\<open>vfs_open\<close> returned, and the descriptors below it name the files they named before.\<close>

theorem open_then_get_file:
  assumes "handle_open path flags s = Some (fd, s')" and "fd \<noteq> -1"
  shows "\<exists>r s1. vfs_open path flags s = Some (r, s1) \<and> r \<noteq> FNull \<and> get_file fd s' = Some r
           \<and> (\<forall>j. j \<noteq> fd \<longrightarrow> get_file j s' = get_file j s1)"
proof -
  obtain r s1 pr where o: "vfs_open path flags s = Some (r, s1)" "r \<noteq> FNull" "current_proc s1 = Some pr"
    "p_fd_count (procs s1 pr) < 32"
    using assms by (auto simp: handle_open_def bind_eq_Some_conv split: if_splits)
  let ?n = "p_fd_count (procs s1 pr)" and ?t = "p_fd_table (procs s1 pr)"
  have st: "0 \<le> ?n" "nat ?n < length (fd_tables s1 ?t)"
    and s': "fd = ?n" "s' = upd_proc pr (\<lambda>q. q\<lparr>p_fd_count := ?n + 1\<rparr>) (set_fd ?t (nat ?n) r s1)"
    using assms o by (auto simp: handle_open_def store_fd_def Let_def bind_eq_Some_conv split: if_splits)
  have pr: "current_proc s' = Some pr" using o(3) by (simp add: s' current_proc_Some)
  have "get_file fd s' = Some r" using st by (simp add: get_file_proc [OF pr]) (simp add: s')
  moreover have "get_file j s' = get_file j s1" if "j \<noteq> fd" for j
    using st that by (auto simp: get_file_proc [OF pr] get_file_proc [OF o(3)]) (simp_all add: s' nth_list_update nat_eq_iff)
  ultimately show ?thesis using o by blast
qed

text \<open>\<^verbatim>\<open>syscall_dup\<close> does not update the descriptor count.  When the descriptors below the count are all in use,
  the duplicate it returns is not below the count, so \<^verbatim>\<open>get_file\<close> refuses it: the new descriptor can be neither used
  nor closed.\<close>

theorem dup_result_unusable:
  assumes "syscall_dup oldfd s = Some (fd, s')" and "fd \<noteq> -1" and "current_proc s = Some pr"
    and "\<forall>j. 0 \<le> j \<and> j < p_fd_count (procs s pr) \<longrightarrow> get_file j s \<noteq> Some FNull"
  shows "p_fd_count (procs s pr) \<le> fd \<and> get_file fd s' = Some FNull"
proof -
  let ?n = "p_fd_count (procs s pr)" and ?t = "p_fd_table (procs s pr)"
  obtain r i where r: "free_fd_from 0 32 (fd_tables s ?t) = Some (Some i)" "fd = int i" "s' = add_ref 1 r (set_fd ?t i r s)"
    using assms(1-3) by (auto simp: syscall_dup_def bind_eq_Some_conv split: if_splits option.splits)
  have i: "i < length (fd_tables s ?t)" "fd_tables s ?t ! i = FNull" using free_fd_from_Some [OF r(1)] by auto
  have n: "?n \<le> fd" using assms(4) [rule_format, of "int i"] i by (force simp: get_file_proc [OF assms(3)] r(2))
  have pr: "current_proc s' = Some pr" using assms(3) by (simp add: r(3) add_ref_def current_proc_Some)
  have "get_file fd s' = Some FNull" using n by (simp add: get_file_proc [OF pr]) (simp add: r(3) add_ref_def)
  with n show ?thesis by simp
qed

text \<open>\<^verbatim>\<open>syscall_sleep\<close> marks the running task sleeping and switches away without linking it into the sleep queue:
  at the switch it is in no queue at all, so no timer tick makes it runnable again.\<close>

theorem syscall_sleep_not_queued:
  assumes rel: "sched_rel rq sq s" and c: "current_task (cpu0 s) = c" "c \<noteq> NULL" "t_state (tasks s c) = TASK_STATE_RUNNING"
    and idle: "idle_task (cpu0 s) \<notin> set sq"
    and nx: "abs_next rq (idle_task (cpu0 s)) = (nx, rq1)" "nx \<noteq> NULL" "nx \<noteq> c"
  shows "\<exists>s'. syscall_sleep sw n s = sw c nx s' \<and> sched_rel rq1 sq s' \<and> unqueued rq1 sq c
           \<and> t_state (tasks s' c) = TASK_STATE_SLEEPING"
proof -
  let ?w = "\<lambda>t. t\<lparr>t_wake_time := tick_count (cpu0 s) + n * 1000, t_state := TASK_STATE_SLEEPING\<rparr>"
  let ?s = "upd_task c ?w s"
  have uq: "unqueued rq sq c" using sched_rel_unqueued [OF rel, of c] c(3) by simp
  have "?s = set_t_state c TASK_STATE_SLEEPING (set_t_wake_time c (tick_count (cpu0 s) + n * 1000) s)"
    by (simp add: upd_task_def task_set_defs)
  then have rel': "sched_rel rq sq ?s" using sched_rel_set_state [OF _ uq, of "set_t_wake_time c (tick_count (cpu0 s) + n * 1000) s"] rel by simp
  have nx': "abs_next rq (idle_task (cpu0 ?s)) = (nx, rq1)" "nx \<noteq> current_task (cpu0 ?s)"
    and idle': "idle_task (cpu0 ?s) \<notin> set sq" using nx c(1) idle by auto
  obtain s' where "schedule sw ?s = sw c nx s'" "sched_rel (abs_requeue ?s c rq1) sq s'"
    "t_state (tasks s' c) = TASK_STATE_SLEEPING"
    using schedule_switch [OF rel' idle' nx'(1) nx(2) nx'(2), of sw] c(1) by auto
  moreover have "abs_requeue ?s c rq1 = rq1" by (simp add: abs_requeue_def)
  moreover have "unqueued rq1 sq c" using uq nx(1)
    by (auto simp: unqueued_def abs_next_def split: option.splits if_splits) (metis list.sel(2) list.set_sel(2))
  ultimately show ?thesis using c by (auto simp: syscall_sleep_def Let_def)
qed

text \<open>A process with one open file, after \<^verbatim>\<open>fs_init\<close>.\<close>

definition demo_fds :: "net_state \<Rightarrow> net_state" where
  "demo_fds s = s\<lparr>cpu0 := (cpu0 demo_proc)\<lparr>idle_task := 0x900\<rparr>, tasks := tasks demo_proc,
     procs := (procs demo_proc)(0x700 := process_zero\<lparr>p_pid := 1, p_fd_max := 32, p_fd_count := 1, p_fd_table := 0x800\<rparr>),
     fd_tables := (\<lambda>_. [])(0x800 := HeapFile 0x640 # replicate 31 FNull),
     runnable_queue := replicate 32 NULL, sleep_queue := NULL\<rparr>"

lemma demo_fds_proc:
  "current_proc (demo_fds s) = Some 0x700" "p_fd_count (procs (demo_fds s) 0x700) = 1" "p_fd_table (procs (demo_fds s) 0x700) = 0x800"
  "fd_tables (demo_fds s) 0x800 = HeapFile 0x640 # replicate 31 FNull"
  by (simp_all add: demo_fds_def demo_proc_def current_proc_Some)

theorem open_then_get_file_witness:
  "\<exists>s1 s2. fs_init (\<lambda>_ _. Some) demo_net = Some s1
     \<and> handle_open (Some (bytes ''/dev/uart0'')) 0 (demo_fds s1) = Some (1, s2) \<and> get_file 1 s2 = Some (OpenFile 0)"
proof -
  obtain s1 where s1: "fs_init (\<lambda>_ _. Some) demo_net = Some s1" "fs_ready s1" "open_files s1 = replicate MAX_OPEN_FILES file_zero"
    by (rule demo_fs)
  let ?s = "demo_fds s1" and ?p = "bytes ''/dev/uart0''"
  have j: "free_slot 0 (open_files ?s) = Some 0" by (simp add: demo_fds_def s1(3) file_zero_def numeral_eq_Suc)
  have r: "fs_ready ?s" using s1(2) by (simp add: demo_fds_def fs_ready_def mount_fops_def device_names_def split: if_splits)
  have p: "?p \<noteq> []" "hd ?p = SLASH" "length ?p \<le> 254" "canon ?p \<noteq> bytes ''/dev''" unfolding demo_paths by (simp_all add: bytes_def)
  obtain t where t: "vfs_open (Some ?p) 0 ?s = Some (OpenFile 0, t)" "same_running t ?s"
    using open_ready [OF r p j, of 0] unfolding demo_paths by auto
  have c: "current_proc t = Some 0x700" "procs t = procs ?s" "fd_tables t = fd_tables ?s"
    using t(2) demo_fds_proc(1) [of s1] by (auto simp: same_running_def current_proc_Some)
  then obtain s2 where "handle_open (Some ?p) 0 ?s = Some (1, s2)"
    using t(1) demo_fds_proc [of s1] by (simp add: handle_open_def store_fd_def)
  then show ?thesis using open_then_get_file [of "Some ?p" 0 ?s 1 s2] s1(1) t(1) by auto
qed

theorem dup_result_unusable_witness:
  "\<exists>s'. syscall_dup 0 (demo_fds demo_net) = Some (1, s') \<and> get_file 1 s' = Some FNull"
proof -
  note P = demo_fds_proc [of demo_net] and G = get_file_proc [OF demo_fds_proc(1) [of demo_net]]
  have f: "free_fd_from 0 32 (HeapFile 0x640 # replicate 31 FNull) = Some (Some 1)" by (simp add: numeral_eq_Suc)
  obtain s' where s': "syscall_dup 0 (demo_fds demo_net) = Some (1, s')" using P f G by (simp add: syscall_dup_def)
  have "\<forall>j. 0 \<le> j \<and> j < p_fd_count (procs (demo_fds demo_net) 0x700) \<longrightarrow> get_file j (demo_fds demo_net) \<noteq> Some FNull"
    using P by (auto simp: G)
  then show ?thesis using dup_result_unusable [OF s' _ P(1)] s' by auto
qed

theorem syscall_sleep_not_queued_witness:
  "\<exists>s'. syscall_sleep (\<lambda>_ _. Some) 1 (demo_fds demo_net) = Some s' \<and> sleep_queue s' = NULL
      \<and> t_state (tasks s' 0x600) = TASK_STATE_SLEEPING"
proof -
  have t: "top_queue (\<lambda>_. []) = None" by (simp add: top_queue_None)
  have rel: "sched_rel (\<lambda>_. []) [] (demo_fds demo_net)" by (simp add: sched_rel_def demo_fds_def)
  have "\<exists>s'. syscall_sleep (\<lambda>_ _. Some) 1 (demo_fds demo_net) = Some s' \<and> sched_rel (\<lambda>_. []) [] s' \<and> unqueued (\<lambda>_. []) [] 0x600
      \<and> t_state (tasks s' 0x600) = TASK_STATE_SLEEPING"
    by (rule syscall_sleep_not_queued [OF rel, of "0x600" "0x900" "\<lambda>_. []" "\<lambda>_ _. Some" 1])
      (simp_all add: demo_fds_def demo_proc_def abs_next_def t)
  then show ?thesis by (auto dest: sched_relD(3))
qed

end
