(* ===== verification/Wifi.thy ===== *)
theory Wifi
  imports Net Frame
begin

text \<open>
  \<^verbatim>\<open>src/drivers/wifi/wifi.c\<close>: the wireless driver.  The static variables of the file extend the state of the network
  stack; the descriptor rings are lists of records, the frame buffers are in the byte memory.  The addresses the
  linker gives to the rings, the buffers and the task functions are the parameter \<open>L\<close>.  The device registers are
  those of theory Device, whose reads depend on the log of the accesses.

  The two task functions are endless loops; a round of each, without its wait, is a definition of its own.  The
  relation \<open>wifi_step\<close> collects everything that changes the driver's state, and its invariant gives the shape of that
  state; the other lemmas follow the association handshake, the transmit ring and the retries.
\<close>

unbundle bit_operations_syntax

section \<open>State\<close>

abbreviation (input) WIFI_STATE_DOWN :: int where "WIFI_STATE_DOWN \<equiv> 0"
abbreviation (input) WIFI_STATE_INIT :: int where "WIFI_STATE_INIT \<equiv> 1"
abbreviation (input) WIFI_STATE_SCANNING :: int where "WIFI_STATE_SCANNING \<equiv> 2"
abbreviation (input) WIFI_STATE_AUTHENTICATING :: int where "WIFI_STATE_AUTHENTICATING \<equiv> 3"
abbreviation (input) WIFI_STATE_ASSOCIATING :: int where "WIFI_STATE_ASSOCIATING \<equiv> 4"
abbreviation (input) WIFI_STATE_ASSOCIATED :: int where "WIFI_STATE_ASSOCIATED \<equiv> 5"
abbreviation (input) WIFI_STATE_FAILED :: int where "WIFI_STATE_FAILED \<equiv> 6"
abbreviation (input) WIFI_STATE_ERROR :: int where "WIFI_STATE_ERROR \<equiv> 6"
abbreviation (input) WIFI_STATE_UP :: int where "WIFI_STATE_UP \<equiv> 5"
abbreviation (input) WIFI_SEC_OPEN :: u8 where "WIFI_SEC_OPEN \<equiv> 0"
abbreviation (input) WIFI_MGMT_PROBE_REQ :: u8 where "WIFI_MGMT_PROBE_REQ \<equiv> 0x40"
abbreviation (input) WIFI_MGMT_PROBE_RESP :: u8 where "WIFI_MGMT_PROBE_RESP \<equiv> 0x50"
abbreviation (input) WIFI_MGMT_AUTH :: u8 where "WIFI_MGMT_AUTH \<equiv> 0xB0"
abbreviation (input) WIFI_MGMT_ASSOC_REQ :: u8 where "WIFI_MGMT_ASSOC_REQ \<equiv> 0x00"
abbreviation (input) WIFI_MGMT_ASSOC_RESP :: u8 where "WIFI_MGMT_ASSOC_RESP \<equiv> 0x10"
abbreviation (input) WIFI_MGMT_DISASSOC :: u8 where "WIFI_MGMT_DISASSOC \<equiv> 0xA0"
abbreviation (input) WIFI_MGMT_DEAUTH :: u8 where "WIFI_MGMT_DEAUTH \<equiv> 0xC0"
abbreviation (input) WIFI_MAX_RETRIES :: int where "WIFI_MAX_RETRIES \<equiv> 3"
abbreviation (input) WIFI_SCAN_TIMEOUT :: int where "WIFI_SCAN_TIMEOUT \<equiv> 5000"
abbreviation (input) WIFI_AUTH_TIMEOUT :: int where "WIFI_AUTH_TIMEOUT \<equiv> 3000"
abbreviation (input) WIFI_ASSOC_TIMEOUT :: int where "WIFI_ASSOC_TIMEOUT \<equiv> 3000"
abbreviation (input) WIFI_DMA_BUF_SIZE :: u32 where "WIFI_DMA_BUF_SIZE \<equiv> 1536"
abbreviation (input) OWNER_CPU :: u32 where "OWNER_CPU \<equiv> 0"
abbreviation (input) OWNER_DMA :: u32 where "OWNER_DMA \<equiv> 1"
abbreviation (input) WIFI_MAC_BASE :: u32 where "WIFI_MAC_BASE \<equiv> 0x60036000"
abbreviation (input) WIFI_PWR_BASE :: u32 where "WIFI_PWR_BASE \<equiv> 0x60036800"

record wifi_dma_desc =
  d_owner :: u32
  d_buf_ptr :: u32
  d_buf_len :: u32
  d_next_desc :: u32

record wifi_layout =
  l_rx_descs :: u32
  l_tx_descs :: u32
  l_mgmt_descs :: u32
  l_rx_buffers :: u32
  l_tx_buffers :: u32
  l_mgmt_buffers :: u32
  l_rx_task_func :: u32
  l_mgmt_task_func :: u32

record wifi_st = net_state +
  wifi_state :: int
  wifi_mac :: "u8 list"
  wifi_iface :: u32
  wifi_rx_task :: u32
  wifi_mgmt_task :: u32
  wifi_rx_sem :: semaphore
  wifi_mgmt_sem :: semaphore
  rx_descs :: "wifi_dma_desc list"
  tx_descs :: "wifi_dma_desc list"
  mgmt_descs :: "wifi_dma_desc list"
  rx_desc_head :: nat
  tx_desc_head :: nat
  mgmt_desc_head :: nat
  wifi_ssid :: "u8 list"
  wifi_pass :: "u8 list"
  wifi_sec_mode :: u8
  wifi_bssid :: "u8 list"
  wifi_channel :: u8
  wifi_rssi :: int
  wifi_seq_num :: u16
  wifi_retry_count :: int
  wifi_assoc_deadline :: u32

type_synonym 'a wifi_switch = "('a wifi_st_ext) net_switch"


section \<open>Hardware\<close>

definition wifi_read_mac_address :: "'a wifi_st_scheme \<Rightarrow> 'a wifi_st_scheme" where
  "wifi_read_mac_address s =
     (let (mac_low, s) = reg_read (WIFI_MAC_BASE + 0x40) s;
          (mac_high, s) = reg_read (WIFI_MAC_BASE + 0x44) s
      in s\<lparr>wifi_mac := [ucast (drop_bit 24 mac_low), ucast (drop_bit 16 mac_low), ucast (drop_bit 8 mac_low), ucast mac_low,
              ucast (drop_bit 8 mac_high), ucast mac_high]\<rparr>)"

text \<open>The two delay loops count a local variable and change nothing.\<close>

definition wifi_hw_init :: "'a wifi_st_scheme \<Rightarrow> int \<times> 'a wifi_st_scheme" where
  "wifi_hw_init s =
     (let s = reg_write WIFI_PWR_BASE 7 s;
          s = reg_write (WIFI_PWR_BASE + 4) 0 s;
          s = reg_write (WIFI_PWR_BASE + 4) 7 s;
          s = reg_write (WIFI_MAC_BASE + 8) 0 s;
          s = reg_write (WIFI_MAC_BASE + 0xC) 0xFFFFFFFF s
      in (0, s))"

text \<open>A ring of \<open>n\<close> descriptors at \<open>base\<close>, 32 bytes each, over buffers of 1536 bytes at \<open>buf\<close>.\<close>

definition desc_ring :: "nat \<Rightarrow> u32 \<Rightarrow> u32 \<Rightarrow> u32 \<Rightarrow> u32 \<Rightarrow> wifi_dma_desc list" where
  "desc_ring n owner len base buf =
     map (\<lambda>i. \<lparr>d_owner = owner, d_buf_ptr = buf + 1536 * of_nat i, d_buf_len = len,
                d_next_desc = base + 32 * of_nat ((i + 1) mod n)\<rparr>) [0..<n]"

definition wifi_dma_init :: "wifi_layout \<Rightarrow> 'a wifi_st_scheme \<Rightarrow> 'a wifi_st_scheme" where
  "wifi_dma_init L s =
     (let s = s\<lparr>rx_descs := desc_ring 8 OWNER_DMA WIFI_DMA_BUF_SIZE (l_rx_descs L) (l_rx_buffers L)\<rparr>;
          s = s\<lparr>tx_descs := desc_ring 8 OWNER_CPU 0 (l_tx_descs L) (l_tx_buffers L)\<rparr>;
          s = s\<lparr>mgmt_descs := desc_ring 4 OWNER_CPU 0 (l_mgmt_descs L) (l_mgmt_buffers L)\<rparr>;
          s = reg_write (WIFI_MAC_BASE + 0x120) (l_rx_descs L) s;
          s = reg_write (WIFI_MAC_BASE + 0x130) (l_tx_descs L) s;
          s = reg_write (WIFI_MAC_BASE + 0x130 + 0x20) (l_mgmt_descs L) s;
          s = reg_write (WIFI_MAC_BASE + 0x100) 0x80000001 s
      in reg_write (WIFI_MAC_BASE + 0x110) 0x80000001 s)"


section \<open>State changes and management frames\<close>

definition wifi_set_state :: "int \<Rightarrow> 'a wifi_st_scheme \<Rightarrow> 'a wifi_st_scheme" where
  "wifi_set_state new_state s =
     (let s = s\<lparr>wifi_state := new_state\<rparr>
      in if new_state = WIFI_STATE_FAILED then s\<lparr>wifi_assoc_deadline := 0, wifi_retry_count := 0\<rparr> else s)"

definition wifi_set_assoc_deadline :: "int \<Rightarrow> 'a wifi_st_scheme \<Rightarrow> 'a wifi_st_scheme" where
  "wifi_set_assoc_deadline ms s = s\<lparr>wifi_assoc_deadline := tick_count (cpu0 s) + word_of_int ms\<rparr>"

definition wifi_check_deadline :: "'a wifi_st_scheme \<Rightarrow> bool" where
  "wifi_check_deadline s \<longleftrightarrow> wifi_assoc_deadline s \<noteq> 0 \<and> tick_count (cpu0 s) \<ge> wifi_assoc_deadline s"

text \<open>A descriptor is handed to the device and the head of the management ring advances.\<close>

definition post_mgmt :: "int \<Rightarrow> 'a wifi_st_scheme \<Rightarrow> 'a wifi_st_scheme" where
  "post_mgmt len s =
     (let h = mgmt_desc_head s
      in s\<lparr>mgmt_descs := (mgmt_descs s)[h := (mgmt_descs s ! h)\<lparr>d_buf_len := word_of_int len, d_owner := OWNER_DMA\<rparr>],
           mgmt_desc_head := (h + 1) mod 4\<rparr>)"

text \<open>The frame is given by its bytes: both calls pass a string literal.\<close>

definition wifi_mgmt_transmit :: "u8 list \<Rightarrow> 'a wifi_st_scheme \<Rightarrow> int \<times> 'a wifi_st_scheme" where
  "wifi_mgmt_transmit data s =
     (if wifi_state s \<in> {WIFI_STATE_DOWN, WIFI_STATE_INIT, WIFI_STATE_FAILED} then (-1, s)
      else if length data > 1536 then (-1, s)
      else let desc = mgmt_descs s ! mgmt_desc_head s
           in if d_owner desc = OWNER_DMA then (-1, s)
              else (0, post_mgmt (int (length data)) (poke_list (d_buf_ptr desc) data s)))"

text \<open>The 24-byte header of a management frame, with its sequence number.\<close>

definition mgmt_header :: "u8 \<Rightarrow> u8 list \<Rightarrow> u8 list \<Rightarrow> u32 \<Rightarrow> 'a wifi_st_scheme \<Rightarrow> 'a wifi_st_scheme" where
  "mgmt_header ty da bssid buf s =
     (let s = poke_list buf ([ty, 0, 0, 0] @ da @ wifi_mac s @ bssid
                @ [ucast (wifi_seq_num s), ucast (drop_bit 8 (wifi_seq_num s))]) s
      in s\<lparr>wifi_seq_num := wifi_seq_num s + 1\<rparr>)"

definition mgmt_buffer :: "wifi_layout \<Rightarrow> 'a wifi_st_scheme \<Rightarrow> u32" where
  "mgmt_buffer L s = l_mgmt_buffers L + 1536 * of_nat (mgmt_desc_head s)"

definition wifi_build_probe_req :: "u32 \<Rightarrow> 'a wifi_st_scheme \<Rightarrow> int \<times> 'a wifi_st_scheme" where
  "wifi_build_probe_req buf s =
     (let ssid = arr_str (wifi_ssid s);
          s = mgmt_header WIFI_MGMT_PROBE_REQ (replicate 6 0xFF) (replicate 6 0xFF) buf s;
          body = [0, of_nat (length ssid)] @ ssid @ [1, 8, 0x82, 0x84, 0x8B, 0x96, 0x0C, 0x12, 0x18, 0x24]
      in (24 + int (length body), poke_list (buf + 24) body s))"

definition wifi_build_auth_req :: "u32 \<Rightarrow> 'a wifi_st_scheme \<Rightarrow> int \<times> 'a wifi_st_scheme" where
  "wifi_build_auth_req buf s =
     (let s = mgmt_header WIFI_MGMT_AUTH (wifi_bssid s) (wifi_bssid s) buf s
      in (28, poke_list (buf + 24) [0, 0, 1, 0] s))"

definition wifi_build_assoc_req :: "u32 \<Rightarrow> 'a wifi_st_scheme \<Rightarrow> int \<times> 'a wifi_st_scheme" where
  "wifi_build_assoc_req buf s =
     (let ssid = arr_str (wifi_ssid s);
          s = mgmt_header WIFI_MGMT_ASSOC_REQ (wifi_bssid s) (wifi_bssid s) buf s;
          body = [1, 0, 0, 0, 0, of_nat (length ssid)] @ ssid
            @ [1, 8, 0x82, 0x84, 0x8B, 0x96, 0x0C, 0x12, 0x18, 0x24, 0x30, 0x48, 0x60, 0x6C]
      in (24 + int (length body), poke_list (buf + 24) body s))"


section \<open>Received frames\<close>

text \<open>The loop over the information elements of a probe response, from the offset \<open>off\<close> of \<^verbatim>\<open>p\<close>.\<close>

function parse_elems :: "nat \<Rightarrow> u32 \<Rightarrow> u32 \<Rightarrow> 'a wifi_st_scheme \<Rightarrow> 'a wifi_st_scheme" where
  "parse_elems off data len s =
     (if int off < sint len - 2
      then let elem_id = mem s (data + of_nat off);
               elem_len = mem s (data + of_nat off + 1);
               p = data + of_nat off + 2;
               s = (if elem_id = 0
                    then if unat elem_len = length (arr_str (wifi_ssid s))
                            \<and> mem_read (mem s) p (unat elem_len) = arr_str (wifi_ssid s)
                         then s\<lparr>wifi_rssi := -50\<rparr> else s
                    else if elem_id = 3
                    then if elem_len = 1 then s\<lparr>wifi_channel := mem s p\<rparr> else s
                    else s)
           in parse_elems (off + 2 + unat elem_len) data len s
      else s)"
  by pat_completeness auto

termination parse_elems
  by (relation "measure (\<lambda>(off, data, len, s). nat (sint len - int off))") (auto intro: order.strict_trans1 [of _ 0])

declare parse_elems.simps [simp del]

definition wifi_parse_probe_resp :: "u32 \<Rightarrow> u32 \<Rightarrow> 'a wifi_st_scheme \<Rightarrow> 'a wifi_st_scheme" where
  "wifi_parse_probe_resp data len s = (if len < 12 then s else parse_elems 12 data len s)"

definition wifi_parse_auth_resp :: "wifi_layout \<Rightarrow> u32 \<Rightarrow> u32 \<Rightarrow> 'a wifi_st_scheme \<Rightarrow> 'a wifi_st_scheme" where
  "wifi_parse_auth_resp L data len s =
     (if len < 6 then s
      else let auth_alg = ld16 (mem s) data; auth_seq = ld16 (mem s) (data + 2); status = ld16 (mem s) (data + 4)
           in if auth_alg = 0 \<and> auth_seq = 2 \<and> status = 0
              then let s = s\<lparr>wifi_retry_count := 0\<rparr>;
                       s = wifi_set_state WIFI_STATE_ASSOCIATING s;
                       s = wifi_set_assoc_deadline WIFI_ASSOC_TIMEOUT s;
                       (ret, s) = wifi_build_assoc_req (mgmt_buffer L s) s
                   in if ret > 0 then post_mgmt ret s else s
              else wifi_set_state WIFI_STATE_FAILED s)"

definition wifi_parse_assoc_resp :: "u32 \<Rightarrow> u32 \<Rightarrow> 'a wifi_st_scheme \<Rightarrow> 'a wifi_st_scheme" where
  "wifi_parse_assoc_resp data len s =
     (if len < 6 then s
      else let status = ld16 (mem s) (data + 2)
           in if status = 0
              then (wifi_set_state WIFI_STATE_ASSOCIATED s)\<lparr>wifi_retry_count := 0, wifi_assoc_deadline := 0\<rparr>
              else wifi_set_state WIFI_STATE_FAILED s)"

definition wifi_process_mgmt_frame :: "wifi_layout \<Rightarrow> u32 \<Rightarrow> u32 \<Rightarrow> 'a wifi_st_scheme \<Rightarrow> 'a wifi_st_scheme" where
  "wifi_process_mgmt_frame L data len s =
     (if len < 24 then s
      else let frame_type = mem s data AND 0xFC;
               body = data + 24; body_len = len - 24;
               da = mem_read (mem s) (data + 4) 6;
               sa = mem_read (mem s) (data + 10) 6
           in if da \<noteq> wifi_mac s \<and> da \<noteq> replicate 6 0xFF then s
              else if frame_type = WIFI_MGMT_PROBE_RESP
              then if wifi_state s = WIFI_STATE_SCANNING then wifi_parse_probe_resp body body_len s else s
              else if frame_type = WIFI_MGMT_AUTH
              then if wifi_state s = WIFI_STATE_AUTHENTICATING then wifi_parse_auth_resp L body body_len s else s
              else if frame_type = WIFI_MGMT_ASSOC_RESP
              then if wifi_state s = WIFI_STATE_ASSOCIATING then wifi_parse_assoc_resp body body_len s else s
              else if frame_type = WIFI_MGMT_DEAUTH \<or> frame_type = WIFI_MGMT_DISASSOC
              then if wifi_state s = WIFI_STATE_ASSOCIATED \<and> sa = wifi_bssid s then wifi_set_state WIFI_STATE_FAILED s else s
              else s)"

section \<open>The driver's tasks\<close>

text \<open>A round of \<^verbatim>\<open>wifi_rx_task_func\<close> after its wait.  \<open>n\<close> bounds the nesting of loopback deliveries.\<close>

definition wifi_rx_round ::
  "'a wifi_switch \<Rightarrow> nat \<Rightarrow> wifi_layout \<Rightarrow> 'a wifi_st_scheme \<Rightarrow> 'a wifi_st_scheme option" where
  "wifi_rx_round sw n L s =
     (let h = rx_desc_head s; desc = rx_descs s ! h
      in if d_owner desc = OWNER_CPU
         then do {
           let frame_len = d_buf_len desc;
           let frame_data = d_buf_ptr desc;
           s \<leftarrow> (if frame_len > 0 \<and> frame_len \<le> WIFI_DMA_BUF_SIZE
                 then let frame_type = mem s frame_data AND 0xFC
                      in if frame_type \<in> {WIFI_MGMT_PROBE_RESP, WIFI_MGMT_AUTH, WIFI_MGMT_ASSOC_RESP, WIFI_MGMT_DEAUTH, WIFI_MGMT_DISASSOC}
                         then Some (wifi_process_mgmt_frame L frame_data frame_len s)
                         else do {
                           (p, s) \<leftarrow> pbuf_alloc sw (frame_len + ETH_HDR) s;
                           if p \<noteq> NULL
                           then do {
                             let s = s\<lparr>mem := memcpy (pb_data (pbufs s p)) frame_data frame_len (mem s)\<rparr>;
                             let s = upd_pbuf p (\<lambda>b. b\<lparr>pb_len := frame_len, pb_iface := wifi_iface s\<rparr>) s;
                             net_iface_input sw (loopback_xmit sw n) (wifi_iface s) p s }
                           else Some s }
                 else Some s);
           Some (s\<lparr>rx_descs := (rx_descs s)[h := (rx_descs s ! h)\<lparr>d_buf_len := WIFI_DMA_BUF_SIZE, d_owner := OWNER_DMA\<rparr>],
                   rx_desc_head := (rx_desc_head s + 1) mod 8\<rparr>) }
         else Some s)"

partial_function (option) wifi_rx_task_func ::
  "'a wifi_switch \<Rightarrow> nat \<Rightarrow> wifi_layout \<Rightarrow> 'a wifi_st_scheme \<Rightarrow> 'a wifi_st_scheme option" where
  "wifi_rx_task_func sw n L s = do {
     s \<leftarrow> semaphore_wait sw wifi_rx_sem (\<lambda>f s. s\<lparr>wifi_rx_sem := f (wifi_rx_sem s)\<rparr>) s;
     s \<leftarrow> wifi_rx_round sw n L s;
     wifi_rx_task_func sw n L s }"

text \<open>A frame built in the buffer of the head descriptor and posted.\<close>

definition build_and_post ::
  "(u32 \<Rightarrow> 'a wifi_st_scheme \<Rightarrow> int \<times> 'a wifi_st_scheme) \<Rightarrow> wifi_layout \<Rightarrow> 'a wifi_st_scheme \<Rightarrow> 'a wifi_st_scheme" where
  "build_and_post build L s = (let (ret, s) = build (mgmt_buffer L s) s in if ret > 0 then post_mgmt ret s else s)"

text \<open>A round of \<^verbatim>\<open>wifi_mgmt_task_func\<close> after its wait.\<close>

definition wifi_mgmt_round :: "wifi_layout \<Rightarrow> 'a wifi_st_scheme \<Rightarrow> 'a wifi_st_scheme" where
  "wifi_mgmt_round L s =
     (if wifi_state s = WIFI_STATE_SCANNING
      then if wifi_check_deadline s
           then if wifi_rssi s = 0
                then if wifi_retry_count s < WIFI_MAX_RETRIES
                     then let s = s\<lparr>wifi_retry_count := wifi_retry_count s + 1\<rparr>;
                              s = wifi_set_assoc_deadline WIFI_SCAN_TIMEOUT s
                          in snd (wifi_mgmt_transmit (bytes ''scan_retry'') s)
                     else wifi_set_state WIFI_STATE_FAILED s
                else let s = snd (wifi_mgmt_transmit (bytes ''auth_req'') s);
                         s = wifi_set_state WIFI_STATE_AUTHENTICATING s
                     in wifi_set_assoc_deadline WIFI_AUTH_TIMEOUT s
           else build_and_post wifi_build_probe_req L s
      else if wifi_state s = WIFI_STATE_AUTHENTICATING
      then if wifi_check_deadline s
           then if wifi_retry_count s < WIFI_MAX_RETRIES
                then let s = s\<lparr>wifi_retry_count := wifi_retry_count s + 1\<rparr>;
                         s = wifi_set_assoc_deadline WIFI_AUTH_TIMEOUT s
                     in build_and_post wifi_build_auth_req L s
                else wifi_set_state WIFI_STATE_FAILED s
           else s
      else if wifi_state s = WIFI_STATE_ASSOCIATING
      then if wifi_check_deadline s
           then if wifi_retry_count s < WIFI_MAX_RETRIES
                then let s = s\<lparr>wifi_retry_count := wifi_retry_count s + 1\<rparr>;
                         s = wifi_set_assoc_deadline WIFI_ASSOC_TIMEOUT s
                     in build_and_post wifi_build_assoc_req L s
                else wifi_set_state WIFI_STATE_FAILED s
           else s
      else s)"

partial_function (option) wifi_mgmt_task_func ::
  "'a wifi_switch \<Rightarrow> wifi_layout \<Rightarrow> 'a wifi_st_scheme \<Rightarrow> 'a wifi_st_scheme option" where
  "wifi_mgmt_task_func sw L s = do {
     s \<leftarrow> semaphore_wait sw wifi_mgmt_sem (\<lambda>f s. s\<lparr>wifi_mgmt_sem := f (wifi_mgmt_sem s)\<rparr>) s;
     wifi_mgmt_task_func sw L (wifi_mgmt_round L s) }"

definition wifi_isr :: "'a wifi_st_scheme \<Rightarrow> 'a wifi_st_scheme" where
  "wifi_isr s =
     (let (int_raw, s) = reg_read WIFI_MAC_BASE s;
          s = reg_write (WIFI_MAC_BASE + 0xC) int_raw s;
          s = (if int_raw AND 1 \<noteq> 0
               then semaphore_signal wifi_rx_sem (\<lambda>f s. s\<lparr>wifi_rx_sem := f (wifi_rx_sem s)\<rparr>) s else s)
      in if int_raw AND 16 \<noteq> 0
         then semaphore_signal wifi_mgmt_sem (\<lambda>f s. s\<lparr>wifi_mgmt_sem := f (wifi_mgmt_sem s)\<rparr>) s else s)"


section \<open>The interface of the driver\<close>

definition wifi_set_credentials :: "u8 list option \<Rightarrow> u8 list option \<Rightarrow> int \<Rightarrow> 'a wifi_st_scheme \<Rightarrow> 'a wifi_st_scheme" where
  "wifi_set_credentials ssid pass sec_mode s =
     (let s = (case ssid of None \<Rightarrow> s | Some x \<Rightarrow> s\<lparr>wifi_ssid := (arr_strncpy (wifi_ssid s) x 32)[32 := 0]\<rparr>);
          s = (case pass of None \<Rightarrow> s | Some x \<Rightarrow> s\<lparr>wifi_pass := (arr_strncpy (wifi_pass s) x 64)[64 := 0]\<rparr>)
      in s\<lparr>wifi_sec_mode := word_of_int sec_mode\<rparr>)"

text \<open>The part of \<^verbatim>\<open>wifi_init\<close> after the interface exists: the two tasks, then the device is enabled.\<close>

definition wifi_start_tasks ::
  "'a wifi_switch \<Rightarrow> wifi_layout \<Rightarrow> 'a wifi_st_scheme \<Rightarrow> (int \<times> 'a wifi_st_scheme) option" where
  "wifi_start_tasks sw L s = do {
     (t, s) \<leftarrow> task_create_user sw (l_rx_task_func L) PRIORITY_DEFAULT 4096 s;
     let s = s\<lparr>wifi_rx_task := t\<rparr>;
     if t = NULL then Some (-1, s\<lparr>wifi_state := WIFI_STATE_ERROR\<rparr>)
     else do {
       let s = task_wake (wifi_rx_task s) s;
       (t, s) \<leftarrow> task_create_user sw (l_mgmt_task_func L) PRIORITY_DEFAULT 4096 s;
       let s = s\<lparr>wifi_mgmt_task := t\<rparr>;
       if t = NULL then Some (-1, s\<lparr>wifi_state := WIFI_STATE_ERROR\<rparr>)
       else do {
         let s = task_wake (wifi_mgmt_task s) s;
         let s = reg_write (WIFI_MAC_BASE + 0x20) 3 s;
         let s = reg_write (WIFI_MAC_BASE + 0x10) 1 s;
         let s = reg_write (WIFI_MAC_BASE + 8) 0x3F s;
         Some (0, wifi_set_state WIFI_STATE_UP s) } } }"

definition wifi_init :: "'a wifi_switch \<Rightarrow> wifi_layout \<Rightarrow> 'a wifi_st_scheme \<Rightarrow> (int \<times> 'a wifi_st_scheme) option" where
  "wifi_init sw L s =
     (if wifi_state s \<noteq> WIFI_STATE_DOWN then Some (-1, s)
      else do {
        let s = s\<lparr>wifi_state := WIFI_STATE_INIT\<rparr>;
        let (ret, s) = wifi_hw_init s;
        if ret \<noteq> 0 then Some (-1, s\<lparr>wifi_state := WIFI_STATE_ERROR\<rparr>)
        else do {
          let s = wifi_dma_init L (wifi_read_mac_address s);
          let s = semaphore_init (\<lambda>f s. s\<lparr>wifi_rx_sem := f (wifi_rx_sem s)\<rparr>) 0 s;
          let s = semaphore_init (\<lambda>f s. s\<lparr>wifi_mgmt_sem := f (wifi_mgmt_sem s)\<rparr>) 0 s;
          (i, s) \<leftarrow> net_iface_create sw (bytes ''wlan0'') 0 0 1536 s;
          let s = s\<lparr>wifi_iface := i\<rparr>;
          if i = NULL then Some (-1, s\<lparr>wifi_state := WIFI_STATE_ERROR\<rparr>)
          else do {
            let s = upd_iface i (\<lambda>x. x\<lparr>if_mac := wifi_mac s, if_transmit := XWifi, if_mtu := 1536\<rparr>) s;
            wifi_start_tasks sw L (net_iface_up i s) } } })"

definition wifi_assoc ::
  "u8 list option \<Rightarrow> u8 list option \<Rightarrow> 'a wifi_st_scheme \<Rightarrow> int \<times> 'a wifi_st_scheme" where
  "wifi_assoc ssid password s =
     (if ssid = None \<or> wifi_state s \<noteq> WIFI_STATE_UP then (-1, s)
      else if wifi_sec_mode s \<noteq> WIFI_SEC_OPEN then (-2, s)
      else let s = wifi_set_credentials ssid password 0 s;
               s = s\<lparr>wifi_retry_count := 0\<rparr>;
               s = wifi_set_state WIFI_STATE_SCANNING s;
               s = wifi_set_assoc_deadline WIFI_SCAN_TIMEOUT s
           in (0, semaphore_signal wifi_mgmt_sem (\<lambda>f s. s\<lparr>wifi_mgmt_sem := f (wifi_mgmt_sem s)\<rparr>) s))"

definition wifi_transmit :: "u32 \<Rightarrow> u32 \<Rightarrow> 'a wifi_st_scheme \<Rightarrow> int \<times> 'a wifi_st_scheme" where
  "wifi_transmit iface p s =
     (if iface = NULL \<or> p = NULL \<or> wifi_state s \<noteq> WIFI_STATE_ASSOCIATED then (-1, s)
      else if pb_len (pbufs s p) > WIFI_DMA_BUF_SIZE then (-1, s)
      else let h = tx_desc_head s; desc = tx_descs s ! h
           in if d_owner desc = OWNER_DMA then (-1, s)
              else let len = pb_len (pbufs s p);
                       s = s\<lparr>mem := memcpy (d_buf_ptr desc) (pb_data (pbufs s p)) len (mem s)\<rparr>
                   in (0, s\<lparr>tx_descs := (tx_descs s)[h := desc\<lparr>d_buf_len := len, d_owner := OWNER_DMA\<rparr>],
                            tx_desc_head := (h + 1) mod 8\<rparr>))"

definition wifi_start :: "'a wifi_st_scheme \<Rightarrow> int" where
  "wifi_start s = (if wifi_state s \<noteq> WIFI_STATE_UP \<and> wifi_state s \<noteq> WIFI_STATE_ASSOCIATED then -1 else 0)"

definition wifi_stop :: "'a wifi_switch \<Rightarrow> 'a wifi_st_scheme \<Rightarrow> (int \<times> 'a wifi_st_scheme) option" where
  "wifi_stop sw s =
     (if wifi_state s = WIFI_STATE_DOWN then Some (-1, s)
      else do {
        let s = reg_write (WIFI_MAC_BASE + 8) 0 s;
        let s = reg_write (WIFI_MAC_BASE + 0x20) 0 s;
        let s = reg_write (WIFI_MAC_BASE + 0x10) 0 s;
        s \<leftarrow> (if wifi_rx_task s \<noteq> NULL
              then do { s \<leftarrow> task_destroy sw (wifi_rx_task s) s; Some (s\<lparr>wifi_rx_task := NULL\<rparr>) } else Some s);
        s \<leftarrow> (if wifi_mgmt_task s \<noteq> NULL
              then do { s \<leftarrow> task_destroy sw (wifi_mgmt_task s) s; Some (s\<lparr>wifi_mgmt_task := NULL\<rparr>) } else Some s);
        let s = (if wifi_iface s \<noteq> NULL then net_iface_down (wifi_iface s) s else s);
        Some (0, wifi_set_state WIFI_STATE_DOWN s) })"

definition wifi_set_ip :: "u32 \<Rightarrow> u32 \<Rightarrow> u32 \<Rightarrow> 'a wifi_st_scheme \<Rightarrow> int \<times> 'a wifi_st_scheme" where
  "wifi_set_ip ip msk gw s =
     (if wifi_iface s = NULL then (-1, s)
      else (0, upd_iface (wifi_iface s) (\<lambda>x. x\<lparr>if_ip_addr := ip, if_netmask := msk, if_gateway := gw\<rparr>) s))"

definition wifi_get_state :: "'a wifi_st_scheme \<Rightarrow> int" where
  "wifi_get_state s = wifi_state s"

definition wifi_get_mac :: "'a wifi_st_scheme \<Rightarrow> u8 list" where
  "wifi_get_mac s = wifi_mac s"

definition wifi_get_ssid :: "'a wifi_st_scheme \<Rightarrow> u8 list" where
  "wifi_get_ssid s = arr_str (wifi_ssid s)"

definition wifi_get_rssi :: "'a wifi_st_scheme \<Rightarrow> int" where
  "wifi_get_rssi s = wifi_rssi s"

definition wifi_get_channel :: "'a wifi_st_scheme \<Rightarrow> u8" where
  "wifi_get_channel s = wifi_channel s"

section \<open>The shape of the driver's state\<close>

text \<open>Waking a task writes kernel fields only.\<close>

lemma task_wake_more: "kstate.more (task_wake t s) = kstate.more s"
  by (simp add: task_wake_def task_enqueue_def sleep_unlink_def unlink_node_def set_queue_def task_set_defs Let_def)

lemma more_wifi:
  assumes "kstate.more s' = kstate.more s"
  shows "wifi_st.more s' = wifi_st.more s" "wifi_state s' = wifi_state s" "wifi_mac s' = wifi_mac s" "wifi_iface s' = wifi_iface s"
    "wifi_rx_task s' = wifi_rx_task s" "wifi_mgmt_task s' = wifi_mgmt_task s"
    "rx_descs s' = rx_descs s" "tx_descs s' = tx_descs s" "mgmt_descs s' = mgmt_descs s"
    "rx_desc_head s' = rx_desc_head s" "tx_desc_head s' = tx_desc_head s" "mgmt_desc_head s' = mgmt_desc_head s"
    "wifi_ssid s' = wifi_ssid s" "wifi_pass s' = wifi_pass s" "wifi_sec_mode s' = wifi_sec_mode s" "wifi_bssid s' = wifi_bssid s"
    "wifi_channel s' = wifi_channel s" "wifi_rssi s' = wifi_rssi s" "wifi_seq_num s' = wifi_seq_num s"
    "wifi_retry_count s' = wifi_retry_count s" "wifi_assoc_deadline s' = wifi_assoc_deadline s" "mem s' = mem s"
  using assms by (cases s; cases s'; simp)+

text \<open>What the device driver owns: everything but its two semaphores and the state of its tasks.\<close>

record wifi_view =
  v_state :: int
  v_retry :: int
  v_deadline :: u32
  v_heads :: "nat \<times> nat \<times> nat"
  v_rings :: "nat \<times> nat \<times> nat"
  v_mac :: "u8 list"
  v_bssid :: "u8 list"
  v_ssid :: "u8 list"

definition view :: "'a wifi_st_scheme \<Rightarrow> wifi_view" where
  "view s = \<lparr>v_state = wifi_state s, v_retry = wifi_retry_count s, v_deadline = wifi_assoc_deadline s,
     v_heads = (rx_desc_head s, tx_desc_head s, mgmt_desc_head s),
     v_rings = (length (rx_descs s), length (tx_descs s), length (mgmt_descs s)),
     v_mac = wifi_mac s, v_bssid = wifi_bssid s, v_ssid = wifi_ssid s\<rparr>"

text \<open>The type invariant of the driver: a state of the enumeration, at most three retries, heads inside their rings,
  addresses of six bytes, a terminated network name; a failed driver has no deadline; and the address of the
  access point is never anything but zero.\<close>

definition wifi_ok :: "'a wifi_st_scheme \<Rightarrow> bool" where
  "wifi_ok s \<longleftrightarrow> 0 \<le> wifi_state s \<and> wifi_state s \<le> 6 \<and> 0 \<le> wifi_retry_count s \<and> wifi_retry_count s \<le> WIFI_MAX_RETRIES
     \<and> rx_desc_head s < length (rx_descs s) \<and> tx_desc_head s < length (tx_descs s) \<and> mgmt_desc_head s < length (mgmt_descs s)
     \<and> length (rx_descs s) = 8 \<and> length (tx_descs s) = 8 \<and> length (mgmt_descs s) = 4
     \<and> length (wifi_mac s) = 6 \<and> wifi_bssid s = replicate 6 0
     \<and> length (wifi_ssid s) = 33 \<and> wifi_ssid s ! 32 = 0
     \<and> (wifi_state s = WIFI_STATE_FAILED \<longrightarrow> wifi_assoc_deadline s = 0 \<and> wifi_retry_count s = 0)"

lemma wifi_ok_view: "view s' = view s \<Longrightarrow> wifi_ok s' = wifi_ok s"
  by (simp add: view_def wifi_ok_def)

lemma view_signal [simp]:
  "view (semaphore_signal wifi_rx_sem (\<lambda>f s. s\<lparr>wifi_rx_sem := f (wifi_rx_sem s)\<rparr>) s) = view s"
  "view (semaphore_signal wifi_mgmt_sem (\<lambda>f s. s\<lparr>wifi_mgmt_sem := f (wifi_mgmt_sem s)\<rparr>) s) = view s"
  by (simp_all add: semaphore_signal_def view_def more_wifi [OF task_wake_more] Let_def)

lemma view_io [simp]:
  "view (reg_write a v s) = view s" "view (snd (reg_read a s)) = view s" "view (poke_list p xs s) = view s"
  "view (upd_iface i f s) = view s" "view (s\<lparr>mem := m\<rparr>) = view s"
  by (simp_all add: view_def reg_write_def reg_read_def poke_list_def upd_iface_def Let_def)

lemma wifi_ok_io [simp]:
  "wifi_ok (poke_list p xs s) = wifi_ok s" "wifi_ok (s\<lparr>mem := m\<rparr>) = wifi_ok s" "wifi_ok (upd_iface i f s) = wifi_ok s"
  by (rule wifi_ok_view; simp)+

lemma wifi_ok_set_state:
  "wifi_ok s \<Longrightarrow> 0 \<le> st \<Longrightarrow> st \<le> 6 \<Longrightarrow> wifi_ok (wifi_set_state st s)"
  by (auto simp: wifi_ok_def wifi_set_state_def Let_def)

lemma wifi_ok_post_mgmt: "wifi_ok s \<Longrightarrow> wifi_ok (post_mgmt n s)"
  by (auto simp: wifi_ok_def post_mgmt_def Let_def)

lemma wifi_ok_deadline: "wifi_ok s \<Longrightarrow> wifi_state s \<noteq> WIFI_STATE_FAILED \<Longrightarrow> wifi_ok (wifi_set_assoc_deadline ms s)"
  by (auto simp: wifi_ok_def wifi_set_assoc_deadline_def)

lemma wifi_ok_retry:
  "wifi_ok s \<Longrightarrow> wifi_state s \<noteq> WIFI_STATE_FAILED \<Longrightarrow> 0 \<le> n \<Longrightarrow> n \<le> WIFI_MAX_RETRIES \<Longrightarrow> wifi_ok (s\<lparr>wifi_retry_count := n\<rparr>)"
  by (auto simp: wifi_ok_def)

lemma wifi_ok_header: "wifi_ok (mgmt_header ty da b buf s) = wifi_ok s"
  by (rule wifi_ok_view) (simp add: mgmt_header_def view_def poke_list_def Let_def)

lemma view_build:
  "view (snd (wifi_build_probe_req buf s)) = view s" "view (snd (wifi_build_auth_req buf s)) = view s"
  "view (snd (wifi_build_assoc_req buf s)) = view s"
  by (simp_all add: wifi_build_probe_req_def wifi_build_auth_req_def wifi_build_assoc_req_def mgmt_header_def view_def poke_list_def Let_def)

lemma build_and_post_ok:
  "wifi_ok s \<Longrightarrow> wifi_ok (build_and_post wifi_build_probe_req L s)" "wifi_ok s \<Longrightarrow> wifi_ok (build_and_post wifi_build_auth_req L s)"
  "wifi_ok s \<Longrightarrow> wifi_ok (build_and_post wifi_build_assoc_req L s)"
  using view_build [of "mgmt_buffer L s" s, THEN wifi_ok_view] wifi_ok_post_mgmt
  by (auto simp: build_and_post_def split: prod.split)

lemma wifi_ok_transmit_mgmt: "wifi_ok s \<Longrightarrow> wifi_ok (snd (wifi_mgmt_transmit data s))"
  by (auto simp: wifi_mgmt_transmit_def Let_def wifi_ok_post_mgmt)

lemma parse_elems_ok: "wifi_ok (parse_elems off data len s) = wifi_ok s"
proof (induction off data len s rule: parse_elems.induct)
  case (1 off data len s)
  let ?v = "mem s (data + of_nat off + 2)"
  have "wifi_ok (s\<lparr>wifi_rssi := -50\<rparr>) = wifi_ok s" "wifi_ok (s\<lparr>wifi_channel := ?v\<rparr>) = wifi_ok s"
    by (simp_all add: wifi_ok_def)
  then show ?case using 1 by (subst parse_elems.simps) (auto simp: Let_def)
qed

lemma wifi_process_ok:
  assumes "wifi_ok s"
  shows "wifi_ok (wifi_process_mgmt_frame L data len s)"
proof -
  have p: "wifi_ok (wifi_parse_probe_resp d n s)" for d n
    using assms by (simp add: wifi_parse_probe_resp_def parse_elems_ok)
  have a: "wifi_ok (wifi_parse_auth_resp L d n s)" if "wifi_state s = WIFI_STATE_AUTHENTICATING" for d n
  proof -
    let ?s = "wifi_set_assoc_deadline WIFI_ASSOC_TIMEOUT (wifi_set_state WIFI_STATE_ASSOCIATING (s\<lparr>wifi_retry_count := 0\<rparr>))"
    have "wifi_ok ?s" using assms that
      by (intro wifi_ok_deadline wifi_ok_set_state wifi_ok_retry) (simp_all add: wifi_set_state_def)
    then show ?thesis using assms build_and_post_ok(3) [of ?s L] wifi_ok_set_state [OF assms, of WIFI_STATE_FAILED]
      by (simp add: wifi_parse_auth_resp_def build_and_post_def Let_def)
  qed
  have r: "wifi_ok (wifi_parse_assoc_resp d n s)" for d n
    using assms by (auto simp: wifi_parse_assoc_resp_def wifi_ok_def wifi_set_state_def Let_def)
  show ?thesis using assms p a r wifi_ok_set_state [OF assms, of WIFI_STATE_FAILED]
    by (simp add: wifi_process_mgmt_frame_def Let_def)
qed



lemma wifi_mgmt_round_ok:
  assumes ok: "wifi_ok s"
  shows "wifi_ok (wifi_mgmt_round L s)"
proof -
  have f: "wifi_ok (wifi_set_state WIFI_STATE_FAILED s)" using ok by (rule wifi_ok_set_state) simp_all
  have t: "wifi_ok (wifi_set_assoc_deadline ms (s\<lparr>wifi_retry_count := wifi_retry_count s + 1\<rparr>))"
    if "wifi_state s \<noteq> WIFI_STATE_FAILED" "wifi_retry_count s < WIFI_MAX_RETRIES" for ms
    using ok that by (intro wifi_ok_deadline wifi_ok_retry) (auto simp: wifi_ok_def)
  have a: "wifi_ok (wifi_set_assoc_deadline ms (wifi_set_state WIFI_STATE_AUTHENTICATING (snd (wifi_mgmt_transmit d s))))" for ms d
    using ok by (intro wifi_ok_deadline wifi_ok_set_state wifi_ok_transmit_mgmt) (simp_all add: wifi_set_state_def)
  note R = f t [THEN build_and_post_ok(2)] t [THEN build_and_post_ok(3)] t [THEN wifi_ok_transmit_mgmt] a ok
    build_and_post_ok(1) [OF ok]
  consider "wifi_state s = 2" | "wifi_state s = 3" | "wifi_state s = 4" | "wifi_state s \<notin> {2, 3, 4}" by blast
  then show ?thesis by cases (simp_all add: wifi_mgmt_round_def Let_def R)
qed

lemma wifi_credentials_ok: "wifi_ok s \<Longrightarrow> wifi_ok (wifi_set_credentials ssid pass sec s)"
proof -
  assume ok: "wifi_ok s"
  have "length ((arr_strncpy (wifi_ssid s) x 32)[32 := 0]) = 33" for x
    using ok by (simp add: wifi_ok_def arr_strncpy_def strncpy_bytes_def)
  then show ?thesis using ok by (auto simp: wifi_ok_def wifi_set_credentials_def Let_def split: option.splits)
qed

lemma wifi_assoc_ok:
  assumes ok: "wifi_ok s"
  shows "wifi_ok (snd (wifi_assoc ssid password s))"
proof -
  let ?c = "wifi_set_credentials ssid password 0 s"
  let ?s = "wifi_set_assoc_deadline WIFI_SCAN_TIMEOUT (wifi_set_state WIFI_STATE_SCANNING (?c\<lparr>wifi_retry_count := 0\<rparr>))"
  have "wifi_ok (?c\<lparr>wifi_retry_count := 0\<rparr>)" using wifi_credentials_ok [OF ok, of ssid password 0] by (auto simp: wifi_ok_def)
  then have "wifi_ok ?s" by (intro wifi_ok_deadline wifi_ok_set_state) (simp_all add: wifi_set_state_def)
  then show ?thesis using ok wifi_ok_view [OF view_signal(2), of ?s] by (simp add: wifi_assoc_def Let_def)
qed

lemma wifi_isr_view: "view (wifi_isr s) = view s"
  by (simp add: wifi_isr_def reg_read_def Let_def) (simp add: view_def)

lemma wifi_transmit_ok: "wifi_ok s \<Longrightarrow> wifi_ok (snd (wifi_transmit i p s))"
  by (auto simp: wifi_transmit_def wifi_ok_def Let_def)

text \<open>Everything that can happen to the driver between \<^verbatim>\<open>wifi_init\<close> and \<^verbatim>\<open>wifi_stop\<close>: a management frame, a round of
  the management task, the interrupt handler, the calls of the interface, and any change outside of what the driver
  owns, such as ticks of the clock and descriptors handed back by the device.\<close>

inductive wifi_step :: "wifi_layout \<Rightarrow> wifi_st \<Rightarrow> wifi_st \<Rightarrow> bool" for L where
  step_frame: "wifi_step L s (wifi_process_mgmt_frame L data len s)"
| step_round: "wifi_step L s (wifi_mgmt_round L s)"
| step_isr: "wifi_step L s (wifi_isr s)"
| step_assoc: "wifi_step L s (snd (wifi_assoc ssid password s))"
| step_credentials: "wifi_step L s (wifi_set_credentials ssid pass sec s)"
| step_transmit: "wifi_step L s (snd (wifi_transmit i p s))"
| step_set_ip: "wifi_step L s (snd (wifi_set_ip ip msk gw s))"
| step_outside: "view s' = view s \<Longrightarrow> wifi_step L s s'"

inductive_cases wifi_stepE: "wifi_step L s s'"

lemma wifi_step_ok:
  assumes "wifi_step L s s'" "wifi_ok s"
  shows "wifi_ok s'"
  using assms
proof (cases rule: wifi_step.cases)
  case (step_set_ip ip msk gw)
  then show ?thesis using assms(2) by (simp add: wifi_set_ip_def)
next
  case step_isr
  then show ?thesis using assms(2) wifi_ok_view [OF wifi_isr_view [of s]] by simp
next
  case step_outside
  then show ?thesis using assms(2) wifi_ok_view by blast
qed (use assms(2) in \<open>simp_all add: wifi_process_ok wifi_mgmt_round_ok wifi_assoc_ok wifi_credentials_ok wifi_transmit_ok\<close>)

text \<open>\<^verbatim>\<open>wifi_init\<close> on the zeroed variables of the driver; the heap and the network stack leave them alone.\<close>

interpretation wv: kernel_view view
proof
  show "view t = view s" if "same_kernel s t" for s t :: "'a wifi_st_scheme"
  proof -
    have "view (u\<lparr>mem := x, regions := r\<rparr>) = view u" for u :: "'a wifi_st_scheme" and x r by (simp add: view_def)
    from this [where u = s and x = "\<lambda>_. 0" and r = "[]"] this [where u = t and x = "\<lambda>_. 0" and r = "[]"] show ?thesis
      using arg_cong [OF that [unfolded same_kernel_def], of view] by simp
  qed
qed (simp_all add: view_def upd_task_def)

text \<open>The variables of the driver as the loader leaves them.\<close>

definition wifi_off :: "'a wifi_st_scheme \<Rightarrow> bool" where
  "wifi_off s \<longleftrightarrow> wifi_state s = WIFI_STATE_DOWN \<and> wifi_retry_count s = 0 \<and> wifi_assoc_deadline s = 0 \<and> rx_desc_head s = 0
     \<and> tx_desc_head s = 0 \<and> mgmt_desc_head s = 0 \<and> wifi_bssid s = replicate 6 0 \<and> wifi_ssid s = replicate 33 0"

lemma keeps_iface_create:
  assumes "net_iface_create sw nm ip msk mtu s = Some (i, s')"
  shows "keeps_view view s s'"
proof (cases "8 \<le> num_ifaces s")
  case True
  then show ?thesis using assms wv.kv.frame_refl by (simp add: net_iface_create_def)
next
  case False
  then obtain s1 where s1: "kzalloc sw 56 s = Some (i, s1)"
    using assms by (auto simp: net_iface_create_def kzalloc_iface_def Let_def split: bind_splits if_splits)
  have "keeps_view view s s1" by (rule wv.keeps_kzalloc [OF s1]) simp_all
  moreover have "lock_idle s1 = lock_idle s'" "view s' = view s1"
    using assms False s1 by (auto simp: net_iface_create_def kzalloc_iface_def lock_idle_def view_def upd_iface_def Let_def split: if_splits)
  ultimately show ?thesis using wv.kv.frame_trans wv.keeps_eq by blast
qed

lemma task_wake_view: "lock_idle (task_wake t s) = lock_idle s" "view (task_wake t s) = view s"
proof -
  have "heap_lock (task_wake t s) = heap_lock s" using task_wake_more [of t s] by (cases s; cases "task_wake t s"; simp)
  moreover have "cpu0 (task_wake t s) = cpu0 s"
    by (simp add: task_wake_def task_enqueue_def sleep_unlink_def unlink_node_def set_queue_def task_set_defs Let_def)
  ultimately show "lock_idle (task_wake t s) = lock_idle s" by (simp add: lock_idle_def)
  show "view (task_wake t s) = view s" using more_wifi [OF task_wake_more, of t s] by (simp add: view_def)
qed

lemma view_upd [simp]:
  "view (s\<lparr>wifi_rx_task := t\<rparr>) = view s" "view (s\<lparr>wifi_mgmt_task := t\<rparr>) = view s" "view (s\<lparr>wifi_iface := i\<rparr>) = view s"
  "view (s\<lparr>wifi_state := n\<rparr>) = (view s)\<lparr>v_state := n\<rparr>"
  "lock_idle (s\<lparr>wifi_rx_task := t\<rparr>) = lock_idle s" "lock_idle (s\<lparr>wifi_iface := i\<rparr>) = lock_idle s"
  by (simp_all add: view_def lock_idle_def)

lemma start_tasks_view:
  assumes "lock_idle s" "wifi_start_tasks sw L s = Some (r, s')"
  shows "(r = 0 \<and> view s' = (view s)\<lparr>v_state := WIFI_STATE_UP\<rparr>) \<or> (r = -1 \<and> view s' = (view s)\<lparr>v_state := WIFI_STATE_FAILED\<rparr>)"
proof -
  obtain t s1 where t: "task_create_user sw (l_rx_task_func L) PRIORITY_DEFAULT 4096 s = Some (t, s1)"
    using assms(2) by (auto simp: wifi_start_tasks_def split: bind_splits)
  have k1: "lock_idle s1" "view s1 = view s" using wv.keeps_task_create_user [OF t] assms(1) by (simp_all add: keeps_view_def)
  show ?thesis
  proof (cases "t = NULL")
    case True
    then show ?thesis using assms(2) k1(2) by (auto simp: wifi_start_tasks_def t)
  next
    case False
    let ?s2 = "task_wake t (s1\<lparr>wifi_rx_task := t\<rparr>)"
    have w: "lock_idle ?s2" "view ?s2 = view s" using k1 by (simp_all add: task_wake_view)
    obtain u s3 where u: "task_create_user sw (l_mgmt_task_func L) PRIORITY_DEFAULT 4096 ?s2 = Some (u, s3)"
      using assms(2) t False by (auto simp: wifi_start_tasks_def split: bind_splits)
    have k3: "view s3 = view s" using wv.keeps_task_create_user [OF u] w by (simp add: keeps_view_def)
    show ?thesis using assms(2) False k3
      by (cases "u = NULL") (auto simp: wifi_start_tasks_def t u wifi_set_state_def task_wake_view)
  qed
qed

lemma wifi_init_view:
  assumes "wifi_off s" "lock_idle s" "wifi_init sw L s = Some (r, s')"
  shows "wifi_ok s'" "r = 0 \<Longrightarrow> wifi_state s' = WIFI_STATE_ASSOCIATED"
proof -
  let ?s1 = "wifi_dma_init L (wifi_read_mac_address (snd (wifi_hw_init (s\<lparr>wifi_state := WIFI_STATE_INIT\<rparr>))))"
  let ?s2 = "semaphore_init (\<lambda>f s. s\<lparr>wifi_mgmt_sem := f (wifi_mgmt_sem s)\<rparr>) 0
     (semaphore_init (\<lambda>f s. s\<lparr>wifi_rx_sem := f (wifi_rx_sem s)\<rparr>) 0 ?s1)"
  have s2: "wifi_ok ?s2" "wifi_state ?s2 = WIFI_STATE_INIT" "wifi_retry_count ?s2 = 0" "wifi_assoc_deadline ?s2 = 0" "lock_idle ?s2"
    using assms(1,2) by (simp_all add: wifi_off_def wifi_ok_def wifi_dma_init_def wifi_read_mac_address_def wifi_hw_init_def
      semaphore_init_def reg_read_def reg_write_def desc_ring_def lock_idle_def Let_def)
  have ok: "wifi_ok u" if "view u = (view ?s2)\<lparr>v_state := n\<rparr>" "n \<in> {5, 6}" for u n
  proof -
    have "wifi_ok (?s2\<lparr>wifi_state := n\<rparr>)" using s2 that(2) by (auto simp: wifi_ok_def)
    then show ?thesis using that(1) wifi_ok_view [of u "?s2\<lparr>wifi_state := n\<rparr>"] by simp
  qed
  obtain i s3 where i: "net_iface_create sw (bytes ''wlan0'') 0 0 1536 ?s2 = Some (i, s3)"
    and e: "(if i = NULL then Some (-1, s3\<lparr>wifi_iface := i, wifi_state := WIFI_STATE_ERROR\<rparr>)
       else wifi_start_tasks sw L (net_iface_up i (upd_iface i (\<lambda>x. x\<lparr>if_mac := wifi_mac (s3\<lparr>wifi_iface := i\<rparr>), if_transmit := XWifi,
         if_mtu := 1536\<rparr>) (s3\<lparr>wifi_iface := i\<rparr>)))) = Some (r, s')"
    using assms(1,3) by (auto simp: wifi_init_def wifi_off_def wifi_hw_init_def Let_def split: bind_splits if_splits)
  have k: "lock_idle s3" "view s3 = view ?s2" using keeps_iface_create [OF i] s2(5) by (simp_all add: keeps_view_def)
  have n: "view (net_iface_up i u) = view u" "lock_idle (net_iface_up i u) = lock_idle u" "lock_idle (upd_iface i f u) = lock_idle u" for u :: "'a wifi_st_scheme" and f
    by (simp_all add: net_iface_up_def lock_idle_def upd_iface_def view_def)
  have "(r = 0 \<and> view s' = (view ?s2)\<lparr>v_state := WIFI_STATE_UP\<rparr>) \<or> (r = -1 \<and> view s' = (view ?s2)\<lparr>v_state := WIFI_STATE_FAILED\<rparr>)"
  proof (cases "i = NULL")
    case True
    then show ?thesis using e k by auto
  next
    case False
    then show ?thesis using e k n by (intro start_tasks_view [where s = "net_iface_up i (upd_iface i (\<lambda>x. x\<lparr>if_mac := wifi_mac (s3\<lparr>wifi_iface := i\<rparr>), if_transmit := XWifi,
         if_mtu := 1536\<rparr>) (s3\<lparr>wifi_iface := i\<rparr>))", unfolded n view_io view_upd k]) simp_all
  qed
  then show "wifi_ok s'" "r = 0 \<Longrightarrow> wifi_state s' = WIFI_STATE_ASSOCIATED"
    using ok [of s' 5] ok [of s' 6] by (auto simp: view_def)
qed

section \<open>Claims\<close>

lemma wifi_steps_ok: "(wifi_step L)\<^sup>*\<^sup>* s s' \<Longrightarrow> wifi_ok s \<Longrightarrow> wifi_ok s'"
  by (induction rule: rtranclp_induct) (auto intro: wifi_step_ok)


lemma parse_elems_frame: "wifi_state (parse_elems off data len s) = wifi_state s"
proof (induction off data len s rule: parse_elems.induct)
  case (1 off data len s)
  then show ?case by (subst parse_elems.simps) (auto simp: Let_def)
qed

lemma wifi_state_simps [simp]:
  "wifi_state (poke_list p xs s) = wifi_state s" "wifi_state (s\<lparr>mem := m\<rparr>) = wifi_state s"
  "wifi_state (wifi_set_credentials ssid pass sec s) = wifi_state s" "wifi_state (post_mgmt n s) = wifi_state s"
  "wifi_state (wifi_set_assoc_deadline ms s) = wifi_state s" "wifi_state (wifi_set_state n s) = n"
  by (simp_all add: poke_list_def wifi_set_credentials_def post_mgmt_def wifi_set_assoc_deadline_def wifi_set_state_def Let_def split: option.splits)

lemma wifi_state_view: "view s' = view s \<Longrightarrow> wifi_state s' = wifi_state s"
  by (simp add: view_def)

lemma wifi_failed_step:
  assumes "wifi_step L s s'" "wifi_state s = WIFI_STATE_FAILED"
  shows "wifi_state s' = WIFI_STATE_FAILED"
  using assms
proof (cases rule: wifi_step.cases)
  case step_isr
  then show ?thesis using assms(2) wifi_state_view [OF wifi_isr_view [of s]] by simp
next
  case step_outside
  then show ?thesis using assms(2) wifi_state_view by fastforce
next
  case (step_frame data len)
  then show ?thesis using assms(2) by (simp add: wifi_process_mgmt_frame_def Let_def)
qed (use assms(2) in \<open>simp_all add: wifi_mgmt_round_def wifi_assoc_def wifi_transmit_def wifi_set_ip_def upd_iface_def Let_def\<close>)

text \<open>A failed association is final until \<^verbatim>\<open>wifi_stop\<close>: whatever happens to the driver otherwise, it stays in the failed
  state, sends nothing, and every further \<^verbatim>\<open>wifi_assoc\<close> is refused.\<close>

theorem wifi_failed_is_final:
  assumes "(wifi_step L)\<^sup>*\<^sup>* s s'" "wifi_state s = WIFI_STATE_FAILED"
  shows "wifi_state s' = WIFI_STATE_FAILED \<and> wifi_assoc ssid password s' = (-1, s') \<and> wifi_transmit i p s' = (-1, s')"
proof -
  have "wifi_state s' = WIFI_STATE_FAILED"
    using assms by (induction rule: rtranclp_induct) (auto intro: wifi_failed_step)
  then show ?thesis by (simp add: wifi_assoc_def wifi_transmit_def)
qed

text \<open>A management frame of the given type that is addressed to this station.\<close>

definition frame_for :: "u8 \<Rightarrow> u32 \<Rightarrow> u32 \<Rightarrow> 'a wifi_st_scheme \<Rightarrow> bool" where
  "frame_for ty data len s \<longleftrightarrow> 24 \<le> len \<and> mem s data AND 0xFC = ty
     \<and> (mem_read (mem s) (data + 4) 6 = wifi_mac s \<or> mem_read (mem s) (data + 4) 6 = replicate 6 0xFF)"

lemma process_frame_for:
  assumes "frame_for ty data len s"
  shows "ty = WIFI_MGMT_AUTH \<Longrightarrow> wifi_state s = WIFI_STATE_AUTHENTICATING \<Longrightarrow>
      wifi_process_mgmt_frame L data len s = wifi_parse_auth_resp L (data + 24) (len - 24) s"
    "ty = WIFI_MGMT_ASSOC_RESP \<Longrightarrow> wifi_state s = WIFI_STATE_ASSOCIATING \<Longrightarrow>
      wifi_process_mgmt_frame L data len s = wifi_parse_assoc_resp (data + 24) (len - 24) s"
    "ty = WIFI_MGMT_DEAUTH \<or> ty = WIFI_MGMT_DISASSOC \<Longrightarrow> wifi_state s = WIFI_STATE_ASSOCIATED \<Longrightarrow>
      wifi_process_mgmt_frame L data len s =
        (if mem_read (mem s) (data + 10) 6 = wifi_bssid s then wifi_set_state WIFI_STATE_FAILED s else s)"
  using assms by (auto simp: frame_for_def wifi_process_mgmt_frame_def Let_def)

lemma len_minus: "30 \<le> len \<Longrightarrow> \<not> (len - 24 < (6 :: u32))"
proof -
  assume "30 \<le> len"
  then have "30 \<le> unat len" by (simp add: word_le_nat_alt)
  moreover have "unat (len - 24) = unat len - 24" using \<open>30 \<le> len\<close>
    by (subst unat_sub) (auto simp: word_le_nat_alt)
  ultimately show ?thesis by (simp add: word_less_nat_alt)
qed

lemma arr_str_length: "length (arr_str xs) \<le> length xs"
  by (simp add: arr_str_def length_takeWhile_le)

text \<open>A management frame starts with its type, whatever its body.\<close>

lemma mgmt_frame_type:
  assumes "length body < 1000" "length da + length (wifi_mac s) + length bs < 100"
  shows "mem (poke_list (buf + 24) body (mgmt_header ty da bs buf s)) buf = ty"
proof -
  have "buf + 24 + of_nat i \<noteq> buf" if "i < length body" for i
  proof
    assume "buf + 24 + of_nat i = buf"
    then have "(of_nat (24 + i) :: u32) = of_nat 0" by (simp add: add.assoc)
    then show False using that assms(1) of_nat_inj_32 [of "24 + i" 0] by simp
  qed
  then have "mem_write m (buf + 24) body buf = m buf" for m by (simp add: mem_write_other)
  moreover have "mem_write m buf (ty # xs) buf = ty" if "length xs < 200" for m xs
    using mem_write_nth [of 0 "ty # xs" m buf] that by (simp del: mem_write.simps)
  ultimately show ?thesis using assms(2) by (simp add: mgmt_header_def poke_list_def Let_def del: mem_write.simps)
qed

lemma build_assoc_fields:
  assumes "wifi_build_assoc_req buf s = (ret, s')"
  shows "0 < ret" "wifi_state s' = wifi_state s" "wifi_retry_count s' = wifi_retry_count s" "wifi_assoc_deadline s' = wifi_assoc_deadline s"
    "mgmt_descs s' = mgmt_descs s" "mgmt_desc_head s' = mgmt_desc_head s"
    "length (wifi_ssid s) = 33 \<Longrightarrow> length (wifi_mac s) = 6 \<Longrightarrow> length (wifi_bssid s) = 6 \<Longrightarrow> mem s' buf = WIFI_MGMT_ASSOC_REQ"
proof -
  define b where "b = [1, 0, 0, 0, 0, of_nat (length (arr_str (wifi_ssid s)))] @ arr_str (wifi_ssid s)
     @ [1, 8, 0x82, 0x84, 0x8B, 0x96, 0x0C, 0x12, 0x18, 0x24, 0x30, 0x48, 0x60, 0x6C :: u8]"
  have s': "ret = 24 + int (length b)"
    "s' = poke_list (buf + 24) b (mgmt_header WIFI_MGMT_ASSOC_REQ (wifi_bssid s) (wifi_bssid s) buf s)"
    using assms by (auto simp: wifi_build_assoc_req_def b_def Let_def)
  show "0 < ret" by (simp add: s'(1))
  show "wifi_state s' = wifi_state s" "wifi_retry_count s' = wifi_retry_count s" "wifi_assoc_deadline s' = wifi_assoc_deadline s"
    "mgmt_descs s' = mgmt_descs s" "mgmt_desc_head s' = mgmt_desc_head s"
    by (simp_all add: s'(2) mgmt_header_def poke_list_def Let_def)
  assume "length (wifi_ssid s) = 33" "length (wifi_mac s) = 6" "length (wifi_bssid s) = 6"
  moreover have "length b < 1000" if "length (wifi_ssid s) = 33" using that arr_str_length [of "wifi_ssid s"] by (simp add: b_def)
  ultimately show "mem s' buf = WIFI_MGMT_ASSOC_REQ" unfolding s'(2) by (intro mgmt_frame_type) simp_all
qed

text \<open>C20: The association handshake.  In the authenticating state, an open-system authentication response with
  sequence number 2 and status 0 moves the driver to the associating state, hands an association request to the
  device and starts a fresh deadline and retry count; an association response with status 0 then makes it associated,
  with no deadline left.\<close>

theorem wifi_handshake:
  fixes L :: wifi_layout and s :: "'a wifi_st_scheme"
  assumes "wifi_state s = WIFI_STATE_AUTHENTICATING" "wifi_ok s"
    and "frame_for WIFI_MGMT_AUTH d1 n1 s" "30 \<le> n1"
    and "ld16 (mem s) (d1 + 24) = 0" "ld16 (mem s) (d1 + 26) = 2" "ld16 (mem s) (d1 + 28) = 0"
  defines "s1 \<equiv> wifi_process_mgmt_frame L d1 n1 s"
  assumes "frame_for WIFI_MGMT_ASSOC_RESP d2 n2 s1" "30 \<le> n2" "ld16 (mem s1) (d2 + 26) = 0"
  defines "s2 \<equiv> wifi_process_mgmt_frame L d2 n2 s1"
  shows "wifi_state s1 = WIFI_STATE_ASSOCIATING \<and> wifi_retry_count s1 = 0
     \<and> wifi_assoc_deadline s1 = tick_count (cpu0 s) + 3000
     \<and> d_owner (mgmt_descs s1 ! mgmt_desc_head s) = OWNER_DMA
     \<and> mem s1 (l_mgmt_buffers L + 1536 * of_nat (mgmt_desc_head s)) = WIFI_MGMT_ASSOC_REQ
     \<and> wifi_state s2 = WIFI_STATE_ASSOCIATED \<and> wifi_assoc_deadline s2 = 0"
proof -
  let ?t = "wifi_set_assoc_deadline WIFI_ASSOC_TIMEOUT (wifi_set_state WIFI_STATE_ASSOCIATING (s\<lparr>wifi_retry_count := 0\<rparr>))"
  obtain ret t where b: "wifi_build_assoc_req (mgmt_buffer L ?t) ?t = (ret, t)" by (cases "wifi_build_assoc_req (mgmt_buffer L ?t) ?t")
  note B = build_assoc_fields [OF b]
  have h: "mgmt_desc_head ?t = mgmt_desc_head s" "mgmt_descs ?t = mgmt_descs s" "wifi_ssid ?t = wifi_ssid s" "wifi_mac ?t = wifi_mac s" "wifi_bssid ?t = wifi_bssid s" "wifi_retry_count ?t = 0"
    "wifi_assoc_deadline ?t = tick_count (cpu0 s) + 3000"
    by (simp_all add: wifi_set_assoc_deadline_def wifi_set_state_def)
  have r: "mgmt_desc_head s < length (mgmt_descs s)" "length (wifi_ssid s) = 33" "length (wifi_mac s) = 6" "length (wifi_bssid s) = 6"
    using assms(2) by (simp_all add: wifi_ok_def)
  have s1: "s1 = post_mgmt ret t"
    using process_frame_for(1) [OF assms(3) refl assms(1), of L] assms(5-7) len_minus [OF assms(4)] b B(1)
    by (simp add: s1_def wifi_parse_auth_resp_def add.assoc)
  have st: "wifi_state s1 = WIFI_STATE_ASSOCIATING" using B(2) by (simp add: s1)
  have s2: "s2 = (wifi_set_state WIFI_STATE_ASSOCIATED s1)\<lparr>wifi_retry_count := 0, wifi_assoc_deadline := 0\<rparr>"
    using process_frame_for(2) [OF assms(9) refl st, of L] assms(11) len_minus [OF assms(10)]
    by (simp add: s2_def wifi_parse_assoc_resp_def add.assoc)
  show ?thesis using st B h r by (simp add: s2) (simp add: s1 post_mgmt_def mgmt_buffer_def Let_def)
qed

section \<open>Retries, rings and forged frames\<close>

definition set_tick :: "u32 \<Rightarrow> 'a kstate_scheme \<Rightarrow> 'a kstate_scheme" where
  "set_tick t s = s\<lparr>cpu0 := (cpu0 s)\<lparr>tick_count := t\<rparr>\<rparr>"

text \<open>Rounds of the management task at the given times.\<close>

fun mgmt_rounds :: "wifi_layout \<Rightarrow> u32 list \<Rightarrow> 'a wifi_st_scheme \<Rightarrow> 'a wifi_st_scheme" where
  "mgmt_rounds L [] s = s"
| "mgmt_rounds L (t # ts) s = mgmt_rounds L ts (wifi_mgmt_round L (set_tick t s))"

lemma mgmt_transmit_fields:
  "wifi_state (snd (wifi_mgmt_transmit d s)) = wifi_state s" "wifi_retry_count (snd (wifi_mgmt_transmit d s)) = wifi_retry_count s"
  "wifi_rssi (snd (wifi_mgmt_transmit d s)) = wifi_rssi s" "wifi_assoc_deadline (snd (wifi_mgmt_transmit d s)) = wifi_assoc_deadline s"
  by (simp_all add: wifi_mgmt_transmit_def post_mgmt_def poke_list_def Let_def)

lemma scan_round:
  fixes L :: wifi_layout
  assumes "wifi_state s = WIFI_STATE_SCANNING" "wifi_rssi s = 0" "wifi_assoc_deadline s \<noteq> 0" "wifi_assoc_deadline s \<le> t"
  defines "s' \<equiv> wifi_mgmt_round L (set_tick t s)"
  shows "if wifi_retry_count s < 3
         then wifi_state s' = WIFI_STATE_SCANNING \<and> wifi_rssi s' = 0 \<and> wifi_retry_count s' = wifi_retry_count s + 1 \<and> wifi_assoc_deadline s' = t + 5000
         else wifi_state s' = WIFI_STATE_FAILED"
  using assms by (simp add: s'_def wifi_mgmt_round_def wifi_check_deadline_def set_tick_def wifi_set_assoc_deadline_def mgmt_transmit_fields Let_def)


text \<open>C21: \<^verbatim>\<open>wifi_transmit\<close> succeeds exactly when the driver is associated, the packet fits a buffer and the next
  descriptor of the ring belongs to the processor.  It then copies the packet, hands that descriptor over and moves
  on; otherwise nothing changes.  A descriptor the device owns is never written.\<close>

theorem wifi_transmit_ring:
  assumes "wifi_ok s" "iface \<noteq> NULL" "p \<noteq> NULL"
  defines "h \<equiv> tx_desc_head s" and "len \<equiv> pb_len (pbufs s p)"
  assumes "wifi_transmit iface p s = (r, s')"
  shows "(r = 0 \<longleftrightarrow> wifi_state s = WIFI_STATE_ASSOCIATED \<and> len \<le> WIFI_DMA_BUF_SIZE \<and> d_owner (tx_descs s ! h) \<noteq> OWNER_DMA)
     \<and> (r \<noteq> 0 \<longrightarrow> s' = s)
     \<and> (r = 0 \<longrightarrow> d_owner (tx_descs s' ! h) = OWNER_DMA \<and> d_buf_len (tx_descs s' ! h) = len
          \<and> (\<forall>j. j \<noteq> h \<longrightarrow> tx_descs s' ! j = tx_descs s ! j) \<and> tx_desc_head s' = (h + 1) mod 8
          \<and> mem s' = memcpy (d_buf_ptr (tx_descs s ! h)) (pb_data (pbufs s p)) len (mem s))"
proof -
  have "h < length (tx_descs s)" using assms(1) by (simp add: wifi_ok_def h_def)
  then show ?thesis using assms(2,3,6) by (auto simp: wifi_transmit_def h_def len_def Let_def not_le split: if_splits)
qed

text \<open>The management task builds its frame in the buffer of the next descriptor without looking at the owner: a
  probe request is written over a frame that the device is still sending.\<close>

theorem probe_overwrites_owned_buffer:
  assumes "wifi_ok s" "wifi_state s = WIFI_STATE_SCANNING" "\<not> wifi_check_deadline s"
    and "d_owner (mgmt_descs s ! mgmt_desc_head s) = OWNER_DMA"
  shows "mem (wifi_mgmt_round L s) (mgmt_buffer L s) = WIFI_MGMT_PROBE_REQ
     \<and> mgmt_desc_head (wifi_mgmt_round L s) = (mgmt_desc_head s + 1) mod 4"
proof -
  let ?ssid = "arr_str (wifi_ssid s)" and ?buf = "mgmt_buffer L s"
  let ?b = "[0, of_nat (length ?ssid)] @ ?ssid @ [1, 8, 0x82, 0x84, 0x8B, 0x96, 0x0C, 0x12, 0x18, 0x24]"
  let ?t = "poke_list (?buf + 24) ?b (mgmt_header WIFI_MGMT_PROBE_REQ (replicate 6 0xFF) (replicate 6 0xFF) ?buf s)"
  have l: "length ?b < 1000" "length (replicate 6 (0xFF :: u8)) + length (wifi_mac s) + length (replicate 6 (0xFF :: u8)) < 100"
    using assms(1) arr_str_length [of "wifi_ssid s"] by (simp_all add: wifi_ok_def)
  have "wifi_build_probe_req ?buf s = (24 + int (length ?b), ?t)" by (simp only: wifi_build_probe_req_def Let_def)
  then have "wifi_mgmt_round L s = post_mgmt (24 + int (length ?b)) ?t"
    using assms(2,3) by (simp add: wifi_mgmt_round_def build_and_post_def)
  moreover have "mem ?t ?buf = WIFI_MGMT_PROBE_REQ" by (rule mgmt_frame_type [OF l])
  moreover have "mgmt_desc_head ?t = mgmt_desc_head s" by (simp add: poke_list_def mgmt_header_def Let_def)
  ultimately show ?thesis by (simp only: post_mgmt_def Let_def) simp
qed

section \<open>Instances\<close>

definition demo_wifi :: "int \<Rightarrow> wifi_st" where
  "demo_wifi st = net_state.extend demo_net (wifi_st.fields st [2, 4, 6, 8, 10, 12] 0 0 0 \<lparr>sem_count = 0, sem_waiters = NULL\<rparr>
     \<lparr>sem_count = 0, sem_waiters = NULL\<rparr> (replicate 8 \<lparr>d_owner = 1, d_buf_ptr = 0x7000, d_buf_len = 0, d_next_desc = 0\<rparr>)
     (replicate 8 \<lparr>d_owner = 0, d_buf_ptr = 0x8000, d_buf_len = 0, d_next_desc = 0\<rparr>)
     (replicate 4 \<lparr>d_owner = OWNER_DMA, d_buf_ptr = 0x9000, d_buf_len = 0, d_next_desc = 0\<rparr>)
     0 0 0 (replicate 33 0) (replicate 65 0) 0 (replicate 6 0) 0 0 0 0 0)"

definition demo_layout :: wifi_layout where
  "demo_layout = \<lparr>l_rx_descs = 0x1000, l_tx_descs = 0x2000, l_mgmt_descs = 0x3000, l_rx_buffers = 0x7000, l_tx_buffers = 0x8000,
     l_mgmt_buffers = 0x9000, l_rx_task_func = 0x400, l_mgmt_task_func = 0x500\<rparr>"

lemmas demo_wifi_defs = demo_wifi_def net_state.defs wifi_st.defs

lemma demo_wifi_fields [simp]:
  "wifi_state (demo_wifi st) = st" "wifi_mac (demo_wifi st) = [2, 4, 6, 8, 10, 12]" "wifi_retry_count (demo_wifi st) = 0"
  "wifi_rssi (demo_wifi st) = 0" "wifi_assoc_deadline (demo_wifi st) = 0" "mgmt_desc_head (demo_wifi st) = 0"
  "tx_desc_head (demo_wifi st) = 0" "num_ifaces (demo_wifi st) = 0" "cpu0 (demo_wifi st) = cpu0 demo_heap"
  "d_owner (mgmt_descs (demo_wifi st) ! 0) = OWNER_DMA" "wifi_ssid (demo_wifi st) = replicate 33 0"
  "wifi_bssid (demo_wifi st) = replicate 6 0" "wifi_seq_num (demo_wifi st) = 0"
  by (simp_all add: demo_wifi_defs demo_net_def net_boot_defs)

lemma demo_wifi_ok: "0 \<le> st \<Longrightarrow> st < 6 \<Longrightarrow> wifi_ok (demo_wifi st)"
  by (simp add: wifi_ok_def) (simp add: demo_wifi_defs)

lemma wifi_ok_irrelevant [simp]: "wifi_ok (s\<lparr>mem := m\<rparr>) = wifi_ok s" "wifi_ok (set_tick t s) = wifi_ok s" "wifi_ok (s\<lparr>num_ifaces := n\<rparr>) = wifi_ok s"
  by (simp_all add: wifi_ok_def set_tick_def)




theorem probe_overwrites_owned_buffer_witness:
  "mem (wifi_mgmt_round demo_layout (demo_wifi WIFI_STATE_SCANNING)) (mgmt_buffer demo_layout (demo_wifi WIFI_STATE_SCANNING)) = WIFI_MGMT_PROBE_REQ
     \<and> d_owner (mgmt_descs (demo_wifi WIFI_STATE_SCANNING) ! 0) = OWNER_DMA"
  using probe_overwrites_owned_buffer [of "demo_wifi WIFI_STATE_SCANNING" demo_layout] by (simp add: demo_wifi_ok wifi_check_deadline_def)

theorem wifi_failed_is_final_witness:
  "wifi_transmit 1 1 (wifi_isr (wifi_mgmt_round demo_layout (demo_wifi WIFI_STATE_FAILED)))
     = (-1, wifi_isr (wifi_mgmt_round demo_layout (demo_wifi WIFI_STATE_FAILED)))"
proof -
  let ?s = "demo_wifi WIFI_STATE_FAILED"
  have "(wifi_step demo_layout)\<^sup>*\<^sup>* ?s (wifi_isr (wifi_mgmt_round demo_layout ?s))"
    by (meson r_into_rtranclp rtranclp_trans wifi_step.step_round wifi_step.step_isr)
  from wifi_failed_is_final [OF this] show ?thesis by simp
qed

theorem wifi_transmit_ring_witness:
  "tx_desc_head (snd (wifi_transmit 1 1 (demo_wifi WIFI_STATE_ASSOCIATED))) = 1"
proof -
  let ?s = "demo_wifi WIFI_STATE_ASSOCIATED"
  have "wifi_ok ?s" by (simp add: demo_wifi_ok)
  moreover have "d_owner (tx_descs ?s ! 0) = 0" "pb_len (pbufs ?s 1) = 0"
    by (simp_all add: demo_wifi_defs demo_net_def net_boot_defs pbuf_zero_def)
  ultimately show ?thesis
    using wifi_transmit_ring [of ?s 1 1 "fst (wifi_transmit 1 1 ?s)" "snd (wifi_transmit 1 1 ?s)"] by simp
qed

text \<open>An authentication response at 0x5000 and an association response at 0x6000, both broadcast.\<close>

definition demo_air :: wifi_st where
  "demo_air = (demo_wifi WIFI_STATE_AUTHENTICATING)\<lparr>mem := (\<lambda>_. 0)
     (0x5000 := 0xB0, 0x5004 := 0xFF, 0x5005 := 0xFF, 0x5006 := 0xFF, 0x5007 := 0xFF, 0x5008 := 0xFF, 0x5009 := 0xFF, 0x501A := 2,
      0x6000 := 0x10, 0x6004 := 0xFF, 0x6005 := 0xFF, 0x6006 := 0xFF, 0x6007 := 0xFF, 0x6008 := 0xFF, 0x6009 := 0xFF)\<rparr>"

lemma mem_read_6: "mem_read m p 6 = [m p, m (p + 1), m (p + 2), m (p + 3), m (p + 4), m (p + 5)]"
  by (simp add: mem_read_def upt_rec)

lemma replicate_6: "replicate 6 x = [x, x, x, x, x, x]"
  by (simp add: numeral_eq_Suc)

lemma demo_air_frame:
  "frame_for WIFI_MGMT_AUTH 0x5000 30 demo_air" "ld16 (mem demo_air) (0x5000 + 24) = 0" "ld16 (mem demo_air) (0x5000 + 26) = 2"
  "ld16 (mem demo_air) (0x5000 + 28) = 0"
  by (simp_all add: demo_air_def frame_for_def ld16_def mem_read_6 replicate_6)

theorem wifi_handshake_witness:
  "wifi_state (wifi_process_mgmt_frame demo_layout 0x6000 30 (wifi_process_mgmt_frame demo_layout 0x5000 30 demo_air)) = WIFI_STATE_ASSOCIATED"
proof -
  have a: "wifi_state demo_air = WIFI_STATE_AUTHENTICATING" "wifi_ok demo_air" by (simp_all add: demo_air_def demo_wifi_ok)
  note f = demo_air_frame
  let ?s1 = "wifi_process_mgmt_frame demo_layout 0x5000 30 demo_air"
  have "?s1 = wifi_parse_auth_resp demo_layout 0x5018 6 demo_air"
    using process_frame_for(1) [OF f(1) refl a(1), of demo_layout] by simp
  then have s1: "wifi_mac ?s1 = wifi_mac demo_air"
    "mem ?s1 = mem_write (mem_write (mem demo_air) 0x9000 ([0, 0, 0, 0] @ replicate 6 0 @ [2, 4, 6, 8, 10, 12] @ replicate 6 0 @ [0, 0]))
       0x9018 [1, 0, 0, 0, 0, 0, 1, 8, 0x82, 0x84, 0x8B, 0x96, 0x0C, 0x12, 0x18, 0x24, 0x30, 0x48, 0x60, 0x6C]"
    using f(2-4) by (simp_all add: wifi_parse_auth_resp_def wifi_build_assoc_req_def mgmt_header_def poke_list_def post_mgmt_def Let_def
      wifi_set_assoc_deadline_def wifi_set_state_def mgmt_buffer_def demo_layout_def demo_air_def arr_str_def del: mem_write.simps)
  then have "frame_for WIFI_MGMT_ASSOC_RESP 0x6000 30 ?s1" "ld16 (mem ?s1) (0x6000 + 26) = 0"
    by (simp_all add: frame_for_def ld16_def mem_read_6 replicate_6 demo_air_def)
  then show ?thesis
    using wifi_handshake [where L = demo_layout and s = demo_air and ?d1.0 = "0x5000" and ?n1.0 = "30" and ?d2.0 = "0x6000" and ?n2.0 = "30"] a f by blast
qed

end
