(* ===== verification/Trap.thy ===== *)
theory Trap
  imports Syscall Wifi
begin

unbundle bit_operations_syntax

text \<open>
  Exceptions, interrupts and time: \<^verbatim>\<open>arch/xtensa/traps/traps.c\<close>, \<^verbatim>\<open>cpu/cpu.c\<close>, \<^verbatim>\<open>timer/timer.c\<close>,
  \<^verbatim>\<open>atomic/atomic.c\<close> and \<^verbatim>\<open>kernel/panic/panic.c\<close>.

  A special register is a field that its read and write functions share.  The cycle counter runs by itself:
  \<open>cycles i\<close> is the number of cycles between access \<open>i\<close> and the one before it, so any clock can stand
  behind it.  Handlers that the kernel installs are named by constructors; handlers that a caller registers are
  parameters.  A function that can end in \<^verbatim>\<open>kernel_panic\<close>, which prints and never returns, gives
  \<open>Inl\<close> of the state it stopped in, and \<open>Inr\<close> of the state it returned with.
\<close>

section \<open>State\<close>

datatype exc_handler = ENone | EDefault | EUser u32
datatype int_handler = INone | ITimer | IUser u32

record arch_st = wifi_st +
  intenable :: u32
  exccause :: u32
  epc :: u32
  excvaddr :: u32
  vecbase :: u32
  ccount :: u32
  ccompare :: "u32 list"
  cycles :: "nat \<Rightarrow> u32"
  cycle_pos :: nat
  exception_handlers :: "exc_handler list"
  interrupt_handlers :: "int_handler list"
  tick_hz :: u32

type_synonym 'a arch_switch = "('a arch_st_ext) wifi_switch"

definition read_intenable :: "'a arch_st_scheme \<Rightarrow> u32" where
  "read_intenable s = intenable s"

definition write_intenable :: "u32 \<Rightarrow> 'a arch_st_scheme \<Rightarrow> 'a arch_st_scheme" where
  "write_intenable v s = s\<lparr>intenable := v\<rparr>"

text \<open>\<^verbatim>\<open>write_intclear\<close> of \<^verbatim>\<open>xtensa_regs.S\<close> has no body.\<close>

definition write_intclear :: "u32 \<Rightarrow> 'a arch_st_scheme \<Rightarrow> 'a arch_st_scheme" where
  "write_intclear v s = s"

definition read_ccount :: "'a arch_st_scheme \<Rightarrow> u32 \<times> 'a arch_st_scheme" where
  "read_ccount s = (let c = ccount s + cycles s (cycle_pos s) in (c, s\<lparr>ccount := c, cycle_pos := cycle_pos s + 1\<rparr>))"

definition write_ccount :: "u32 \<Rightarrow> 'a arch_st_scheme \<Rightarrow> 'a arch_st_scheme" where
  "write_ccount v s = s\<lparr>ccount := v\<rparr>"

definition read_ccompare :: "int \<Rightarrow> 'a arch_st_scheme \<Rightarrow> u32" where
  "read_ccompare n s = (if n = 0 then ccompare s ! 0 else if n = 1 then ccompare s ! 1 else 0)"

definition write_ccompare :: "int \<Rightarrow> u32 \<Rightarrow> 'a arch_st_scheme \<Rightarrow> 'a arch_st_scheme" where
  "write_ccompare n v s = (if n = 0 then s\<lparr>ccompare := (ccompare s)[0 := v]\<rparr> else if n = 1 then s\<lparr>ccompare := (ccompare s)[1 := v]\<rparr> else s)"

section \<open>Panic\<close>

definition puts_hex :: "u8 list \<Rightarrow> u32 \<Rightarrow> 'a dstate_scheme \<Rightarrow> 'a dstate_scheme option" where
  "puts_hex msg v s = do { s \<leftarrow> uart_puts msg s; s \<leftarrow> uart_puthex v s; uart_puts [10] s }"

definition puts_dec :: "u8 list \<Rightarrow> u32 \<Rightarrow> 'a dstate_scheme \<Rightarrow> 'a dstate_scheme option" where
  "puts_dec msg v s = do { s \<leftarrow> uart_puts msg s; s \<leftarrow> uart_putdec v s; uart_puts [10] s }"

text \<open>The state in which \<^verbatim>\<open>kernel_panic\<close> starts to wait forever.\<close>

definition kernel_panic :: "u8 list \<Rightarrow> 'a arch_st_scheme \<Rightarrow> 'a arch_st_scheme option" where
  "kernel_panic msg s = do {
     s \<leftarrow> uart_puts (bytes ''KERNEL PANIC: '') s;
     s \<leftarrow> uart_puts msg s;
     s \<leftarrow> uart_puts [10] s;
     s \<leftarrow> uart_puts (bytes ''CPU state:'' @ [10]) s;
     s \<leftarrow> puts_hex (bytes ''  PSR: '') (psr s) s;
     s \<leftarrow> puts_hex (bytes ''  EPC: '') (epc s) s;
     s \<leftarrow> puts_hex (bytes ''  EXCCAUSE: '') (exccause s) s;
     s \<leftarrow> puts_hex (bytes ''  EXCVADDR: '') (excvaddr s) s;
     let current = current_task (cpu0 s);
     if current \<noteq> NULL
     then do {
       s \<leftarrow> uart_puts (bytes ''Current task: '') s;
       let pr = t_process (tasks s current);
       s \<leftarrow> uart_puts (if pr \<noteq> NULL then bytes (p_name (procs s pr)) else bytes ''kernel'') s;
       s \<leftarrow> uart_puts [10] s;
       s \<leftarrow> puts_dec (bytes ''  PID: '') (word_of_int (t_pid (tasks s current))) s;
       puts_dec (bytes ''  TID: '') (word_of_int (t_tid (tasks s current))) s }
     else Some s }"

section \<open>Traps\<close>

definition trap_init :: "u32 \<Rightarrow> 'a arch_st_scheme \<Rightarrow> 'a arch_st_scheme" where
  "trap_init vector_table s =
     (let s = s\<lparr>exception_handlers := replicate 32 ENone, interrupt_handlers := replicate 32 INone\<rparr>;
          s = s\<lparr>exception_handlers := replicate 32 EDefault\<rparr>;
          s = s\<lparr>interrupt_handlers := (interrupt_handlers s)[6 := ITimer]\<rparr>;
          s = s\<lparr>vecbase := vector_table\<rparr>;
          s = write_intenable 0 s
      in write_intclear 0xFFFFFFFF s)"

definition trap_register_exception :: "int \<Rightarrow> exc_handler \<Rightarrow> 'a arch_st_scheme \<Rightarrow> 'a arch_st_scheme" where
  "trap_register_exception cause handler s =
     (if cause \<ge> 0 \<and> cause < 32 then s\<lparr>exception_handlers := (exception_handlers s)[nat cause := handler]\<rparr> else s)"

definition trap_register_interrupt :: "int \<Rightarrow> int_handler \<Rightarrow> 'a arch_st_scheme \<Rightarrow> 'a arch_st_scheme" where
  "trap_register_interrupt num handler s =
     (if num \<ge> 0 \<and> num < 32 then s\<lparr>interrupt_handlers := (interrupt_handlers s)[nat num := handler]\<rparr> else s)"

text \<open>The shift \<^verbatim>\<open>1 << num\<close> has no meaning for other numbers.\<close>

definition interrupt_enable :: "int \<Rightarrow> 'a arch_st_scheme \<Rightarrow> 'a arch_st_scheme option" where
  "interrupt_enable num s =
     (if 0 \<le> num \<and> num < 32 then Some (write_intenable (read_intenable s OR push_bit (nat num) 1) s) else None)"

definition interrupt_disable :: "int \<Rightarrow> 'a arch_st_scheme \<Rightarrow> 'a arch_st_scheme option" where
  "interrupt_disable num s =
     (if 0 \<le> num \<and> num < 32 then Some (write_intenable (read_intenable s AND NOT (push_bit (nat num) 1)) s) else None)"

definition default_exception_handler :: "u32 \<Rightarrow> 'a arch_st_scheme \<Rightarrow> ('a arch_st_scheme + 'a arch_st_scheme) option" where
  "default_exception_handler ctx s = do {
     s \<leftarrow> uart_puts (bytes ''Exception: '') s;
     s \<leftarrow> uart_puthex (exccause s) s;
     s \<leftarrow> uart_puts (10 # bytes ''EPC: '') s;
     s \<leftarrow> uart_puthex (c_pc (contexts s ctx)) s;
     s \<leftarrow> uart_puts (10 # bytes ''PS: '') s;
     s \<leftarrow> uart_puthex (c_ps (contexts s ctx)) s;
     s \<leftarrow> uart_puts [10] s;
     s \<leftarrow> kernel_panic (bytes ''Unhandled exception'') s;
     Some (Inl s) }"

definition timer_interrupt_handler :: "'a arch_switch \<Rightarrow> 'a arch_st_scheme \<Rightarrow> 'a arch_st_scheme option" where
  "timer_interrupt_handler sw s = do {
     let (c, s) = read_ccount s;
     let s = write_ccompare 0 (c + 240000) s;
     s \<leftarrow> scheduler_tick s;
     schedule sw s }"

definition trap_dispatch_exception ::
  "'a arch_switch \<Rightarrow> nat \<Rightarrow> u32 \<Rightarrow> u32 \<Rightarrow> (u32 \<Rightarrow> u32 \<Rightarrow> 'a arch_st_scheme \<Rightarrow> ('a arch_st_scheme + 'a arch_st_scheme) option) \<Rightarrow>
     u32 \<Rightarrow> 'a arch_st_scheme \<Rightarrow> ('a arch_st_scheme + 'a arch_st_scheme) option" where
  "trap_dispatch_exception sw n pool loc user ctx s =
     (let cause = exccause s
      in if cause = 1 then map_option Inr (syscall_handler sw n pool loc ctx s)
         else if cause < 32 \<and> exception_handlers s ! unat cause \<noteq> ENone
         then (case exception_handlers s ! unat cause of
                 EDefault \<Rightarrow> default_exception_handler ctx s
               | EUser h \<Rightarrow> user h ctx s
               | ENone \<Rightarrow> None)
         else default_exception_handler ctx s)"

definition run_interrupt ::
  "'a arch_switch \<Rightarrow> (u32 \<Rightarrow> 'a arch_st_scheme \<Rightarrow> 'a arch_st_scheme option) \<Rightarrow> nat \<Rightarrow> 'a arch_st_scheme \<Rightarrow> 'a arch_st_scheme option" where
  "run_interrupt sw user i s =
     (case interrupt_handlers s ! i of INone \<Rightarrow> Some s | ITimer \<Rightarrow> timer_interrupt_handler sw s | IUser h \<Rightarrow> user h s)"

fun dispatch_loop ::
  "'a arch_switch \<Rightarrow> (u32 \<Rightarrow> 'a arch_st_scheme \<Rightarrow> 'a arch_st_scheme option) \<Rightarrow> u32 \<Rightarrow> nat list \<Rightarrow> 'a arch_st_scheme \<Rightarrow> 'a arch_st_scheme option" where
  "dispatch_loop sw user intraw [] s = Some s"
| "dispatch_loop sw user intraw (i # is) s =
     (if bit intraw i
      then do { s \<leftarrow> run_interrupt sw user i s; dispatch_loop sw user intraw is (write_intclear (push_bit i 1) s) }
      else dispatch_loop sw user intraw is s)"

definition trap_dispatch_interrupt ::
  "'a arch_switch \<Rightarrow> (u32 \<Rightarrow> 'a arch_st_scheme \<Rightarrow> 'a arch_st_scheme option) \<Rightarrow> 'a arch_st_scheme \<Rightarrow> 'a arch_st_scheme option" where
  "trap_dispatch_interrupt sw user s = dispatch_loop sw user (read_intenable s) [0..<32] s"

section \<open>Processor and timer\<close>

definition cpu_get_id :: int where
  "cpu_get_id = 0"

definition cpu_init :: "'a arch_st_scheme \<Rightarrow> 'a arch_st_scheme" where
  "cpu_init s =
     (let s = write_intclear 0xFFFFFFFF (write_intenable 0 s);
          s = write_ccompare 0 240000 (write_ccount 0 s)
      in write_intenable (read_intenable s OR push_bit 6 1) s)"

text \<open>A division by zero has no result.\<close>

definition per_tick :: "u32 \<Rightarrow> u32 option" where
  "per_tick hz = (if hz = 0 then None else Some (240000000 div hz))"

definition timer_init :: "'a arch_st_scheme \<Rightarrow> 'a arch_st_scheme option" where
  "timer_init s = do {
     let s = write_ccount 0 s;
     d \<leftarrow> per_tick (tick_hz s);
     let s = write_ccompare 0 d s;
     Some (write_intenable (read_intenable s OR push_bit 6 1) s) }"

definition timer_set_freq :: "u32 \<Rightarrow> 'a arch_st_scheme \<Rightarrow> 'a arch_st_scheme option" where
  "timer_set_freq hz s = do {
     let s = s\<lparr>tick_hz := hz\<rparr>;
     let (c, s) = read_ccount s;
     d \<leftarrow> per_tick (tick_hz s);
     Some (write_ccompare 0 (c + d) s) }"

definition timer_get_ticks :: "'a arch_st_scheme \<Rightarrow> u32" where
  "timer_get_ticks s = tick_count (cpu0 s)"

definition timer_get_freq :: "'a arch_st_scheme \<Rightarrow> u32" where
  "timer_get_freq s = tick_hz s"

partial_function (option) udelay_loop :: "u32 \<Rightarrow> u32 \<Rightarrow> 'a arch_st_scheme \<Rightarrow> 'a arch_st_scheme option" where
  "udelay_loop start target s =
     (let (c, s) = read_ccount s in if c - start < target then udelay_loop start target s else Some s)"

definition udelay :: "u32 \<Rightarrow> 'a arch_st_scheme \<Rightarrow> 'a arch_st_scheme option" where
  "udelay us s = (let (start, s) = read_ccount s in udelay_loop start (us * 240) s)"

definition mdelay :: "u32 \<Rightarrow> 'a arch_st_scheme \<Rightarrow> 'a arch_st_scheme option" where
  "mdelay ms s = udelay (ms * 1000) s"

section \<open>Atomic operations\<close>

text \<open>Signed arithmetic that overflows has no result.\<close>

definition add_signed :: "u32 \<Rightarrow> u32 \<Rightarrow> u32 option" where
  "add_signed a b = (let r = sint a + sint b in if - (2 ^ 31) \<le> r \<and> r < 2 ^ 31 then Some (a + b) else None)"

definition sub_signed :: "u32 \<Rightarrow> u32 \<Rightarrow> u32 option" where
  "sub_signed a b = (let r = sint a - sint b in if - (2 ^ 31) \<le> r \<and> r < 2 ^ 31 then Some (a - b) else None)"

definition atomic_cmpxchg :: "u32 \<Rightarrow> u32 \<Rightarrow> u32 \<Rightarrow> 'a mstate_scheme \<Rightarrow> u32 \<times> 'a mstate_scheme" where
  "atomic_cmpxchg ptr old new s =
     (let ps = psr s; s = s\<lparr>psr := ps OR 0xF\<rparr>;
          prev = ld32 (mem s) ptr;
          s = (if prev = old then s\<lparr>mem := st32 (mem s) ptr new\<rparr> else s)
      in (prev, s\<lparr>psr := ps\<rparr>))"

definition atomic_set :: "u32 \<Rightarrow> u32 \<Rightarrow> 'a mstate_scheme \<Rightarrow> 'a mstate_scheme" where
  "atomic_set ptr val s = (let ps = psr s; s = s\<lparr>psr := ps OR 0xF\<rparr>; s = s\<lparr>mem := st32 (mem s) ptr val\<rparr> in s\<lparr>psr := ps\<rparr>)"

definition atomic_get :: "u32 \<Rightarrow> 'a mstate_scheme \<Rightarrow> u32 \<times> 'a mstate_scheme" where
  "atomic_get ptr s = (let ps = psr s; s = s\<lparr>psr := ps OR 0xF\<rparr>; val = ld32 (mem s) ptr in (val, s\<lparr>psr := ps\<rparr>))"

definition atomic_add :: "u32 \<Rightarrow> u32 \<Rightarrow> 'a mstate_scheme \<Rightarrow> 'a mstate_scheme option" where
  "atomic_add ptr val s = do {
     let ps = psr s; let s = s\<lparr>psr := ps OR 0xF\<rparr>;
     r \<leftarrow> add_signed (ld32 (mem s) ptr) val;
     let s = s\<lparr>mem := st32 (mem s) ptr r\<rparr>;
     Some (s\<lparr>psr := ps\<rparr>) }"

definition atomic_sub :: "u32 \<Rightarrow> u32 \<Rightarrow> 'a mstate_scheme \<Rightarrow> 'a mstate_scheme option" where
  "atomic_sub ptr val s = do {
     let ps = psr s; let s = s\<lparr>psr := ps OR 0xF\<rparr>;
     r \<leftarrow> sub_signed (ld32 (mem s) ptr) val;
     let s = s\<lparr>mem := st32 (mem s) ptr r\<rparr>;
     Some (s\<lparr>psr := ps\<rparr>) }"

definition atomic_inc :: "u32 \<Rightarrow> 'a mstate_scheme \<Rightarrow> (u32 \<times> 'a mstate_scheme) option" where
  "atomic_inc ptr s = do {
     let ps = psr s; let s = s\<lparr>psr := ps OR 0xF\<rparr>;
     val \<leftarrow> add_signed (ld32 (mem s) ptr) 1;
     let s = s\<lparr>mem := st32 (mem s) ptr val\<rparr>;
     Some (val, s\<lparr>psr := ps\<rparr>) }"

definition atomic_dec :: "u32 \<Rightarrow> 'a mstate_scheme \<Rightarrow> (u32 \<times> 'a mstate_scheme) option" where
  "atomic_dec ptr s = do {
     let ps = psr s; let s = s\<lparr>psr := ps OR 0xF\<rparr>;
     val \<leftarrow> sub_signed (ld32 (mem s) ptr) 1;
     let s = s\<lparr>mem := st32 (mem s) ptr val\<rparr>;
     Some (val, s\<lparr>psr := ps\<rparr>) }"

definition atomic_xchg :: "u32 \<Rightarrow> u32 \<Rightarrow> 'a mstate_scheme \<Rightarrow> u32 \<times> 'a mstate_scheme" where
  "atomic_xchg ptr val s =
     (let ps = psr s; s = s\<lparr>psr := ps OR 0xF\<rparr>;
          old = ld32 (mem s) ptr; s = s\<lparr>mem := st32 (mem s) ptr val\<rparr>
      in (old, s\<lparr>psr := ps\<rparr>))"

definition atomic_cmpxchg_ul :: "u32 \<Rightarrow> u32 \<Rightarrow> u32 \<Rightarrow> 'a mstate_scheme \<Rightarrow> u32 \<times> 'a mstate_scheme" where
  "atomic_cmpxchg_ul ptr old new s =
     (let ps = psr s; s = s\<lparr>psr := ps OR 0xF\<rparr>;
          prev = ld32 (mem s) ptr;
          s = (if prev = old then s\<lparr>mem := st32 (mem s) ptr new\<rparr> else s)
      in (prev, s\<lparr>psr := ps\<rparr>))"

section \<open>Delays\<close>

definition elapsed :: "'a arch_st_scheme \<Rightarrow> nat \<Rightarrow> nat \<Rightarrow> nat" where
  "elapsed s i k = (\<Sum>j<k. unat (cycles s (i + j)))"

lemma elapsed_Suc: "elapsed s i (Suc k) = unat (cycles s i) + elapsed s (Suc i) k"
  unfolding elapsed_def by (subst sum.lessThan_Suc_shift) simp

lemma udelay_loop_ends:
  assumes c: "\<And>i. 1 \<le> unat (cycles s i) \<and> unat (cycles s i) \<le> d" and b: "unat target + d < 2 ^ 32"
    and e: "ccount s = start + of_nat e" "e \<le> unat target"
  shows "\<exists>k. udelay_loop start target s = Some (s\<lparr>ccount := start + of_nat (e + elapsed s (cycle_pos s) k), cycle_pos := cycle_pos s + k\<rparr>)
     \<and> unat target \<le> e + elapsed s (cycle_pos s) k \<and> e + elapsed s (cycle_pos s) k \<le> unat target + d"
  using c e
proof (induction "unat target - e" arbitrary: e s rule: less_induct)
  case less
  let ?v = "unat (cycles s (cycle_pos s))" let ?e = "e + ?v"
  let ?s = "s\<lparr>ccount := start + of_nat ?e, cycle_pos := Suc (cycle_pos s)\<rparr>"
  have v: "1 \<le> ?v" "?v \<le> d" using less.prems(1) by simp_all
  have l: "?e < 2 ^ 32" using v(2) less.prems(3) b by simp
  have u: "unat (of_nat ?e :: u32) = ?e" using l by (simp add: unat_of_nat take_bit_nat_eq_self del: of_nat_add)
  have r: "read_ccount s = (start + of_nat ?e, ?s)"
    using less.prems(2) by (simp add: read_ccount_def Let_def add.assoc)
  have step: "udelay_loop start target s = (if ?e < unat target then udelay_loop start target ?s else Some ?s)"
    by (subst udelay_loop.simps) (simp add: r word_less_nat_alt u del: of_nat_add)
  show ?case
  proof (cases "?e < unat target")
    case True
    have dec: "unat target - ?e < unat target - e" using True v(1) by linarith
    have "\<exists>k. udelay_loop start target ?s = Some (?s\<lparr>ccount := start + of_nat (?e + elapsed ?s (cycle_pos ?s) k), cycle_pos := cycle_pos ?s + k\<rparr>)
        \<and> unat target \<le> ?e + elapsed ?s (cycle_pos ?s) k \<and> ?e + elapsed ?s (cycle_pos ?s) k \<le> unat target + d"
      by (rule less.hyps [OF dec]) (use True less.prems(1) in auto)
    then obtain k where "udelay_loop start target ?s = Some (?s\<lparr>ccount := start + of_nat (?e + elapsed ?s (Suc (cycle_pos s)) k), cycle_pos := Suc (cycle_pos s) + k\<rparr>)"
      "unat target \<le> ?e + elapsed ?s (Suc (cycle_pos s)) k" "?e + elapsed ?s (Suc (cycle_pos s)) k \<le> unat target + d" by auto
    moreover have "elapsed ?s = elapsed s" by (simp add: elapsed_def fun_eq_iff)
    ultimately show ?thesis using step True
      by (intro exI [of _ "Suc k"]) (simp add: elapsed_Suc add.assoc)
  next
    case False
    then show ?thesis using step v less.prems(3) by (intro exI [of _ 1]) (simp add: elapsed_def)
  qed
qed


text \<open>The product is taken in 32 bits, so a long delay is cut short: 17896 milliseconds wait for 72704 cycles, a third
  of a millisecond.\<close>

lemma mdelay_wraps: "mdelay 17896 s = (let (start, s) = read_ccount s in udelay_loop start 72704 s)"
proof -
  have w: "17896 * 1000 * 240 = (72704 :: u32)" by (rule word_uint_eqI) simp
  show ?thesis unfolding mdelay_def udelay_def w ..
qed

section \<open>Dispatch\<close>

lemma dispatch_skip:
  "(\<And>i. i \<in> set is \<Longrightarrow> interrupt_handlers s ! i = INone) \<Longrightarrow> dispatch_loop sw user m (is @ js) s = dispatch_loop sw user m js s"
  by (induction "is") (auto simp: run_interrupt_def write_intclear_def)

text \<open>C34: The dispatcher reads the enabled interrupts where it needs the pending ones.  With the handlers that
  \<^verbatim>\<open>trap_init\<close> installs and the timer enabled, every interrupt, whatever raised it, is taken for a timer tick:
  it moves the compare register, advances the clock and reschedules.\<close>

theorem every_interrupt_ticks:
  assumes "interrupt_handlers s = (replicate 32 INone)[6 := ITimer]" "bit (intenable s) 6"
  shows "trap_dispatch_interrupt sw user s = do {
     s' \<leftarrow> scheduler_tick (write_ccompare 0 (fst (read_ccount s) + 240000) (snd (read_ccount s)));
     s' \<leftarrow> schedule sw s';
     dispatch_loop sw user (intenable s) [7..<32] s' }"
proof -
  have h: "interrupt_handlers s ! i = INone" if "i \<in> set [0..<6]" for i using that assms(1) by simp
  have u: "[0..<32] = [0..<6] @ [6] @ [7..<32]" by (simp add: upt_rec)
  have "trap_dispatch_interrupt sw user s = dispatch_loop sw user (intenable s) ([6] @ [7..<32]) s"
    unfolding trap_dispatch_interrupt_def u read_intenable_def by (rule dispatch_skip [OF h])
  then show ?thesis using assms
    by (simp add: run_interrupt_def timer_interrupt_handler_def write_intclear_def case_prod_beta Let_def)
qed

text \<open>\<open>said bs r s\<close>: the result \<open>r\<close> of a function called in \<open>s\<close> is that it returned, and has sent
  \<open>bs\<close> and perhaps more.\<close>

definition said :: "u8 list \<Rightarrow> 'a dstate_scheme option \<Rightarrow> 'a dstate_scheme \<Rightarrow> bool" where
  "said bs r s \<longleftrightarrow> (\<exists>s' cs. r = Some s' \<and> sends (bs @ cs) s s')"

lemma said_exact: "\<exists>s'. r = Some s' \<and> sends bs s s' \<Longrightarrow> said bs r s"
  unfolding said_def by (metis append_Nil2)

lemma said_any: "said bs r s \<Longrightarrow> said [] r s"
  unfolding said_def by (metis append_Nil)

lemma said_nil: "said [] (Some s) s"
  by (rule said_exact) simp

lemma said_bind:
  assumes "\<exists>s'. r = Some s' \<and> sends bs s s'" "uart_ready s" "\<And>s'. uart_ready s' \<Longrightarrow> said cs (g s') s'"
  shows "said (bs @ cs) (r \<bind> g) s"
proof -
  obtain s' where s': "r = Some s'" "sends bs s s'" using assms(1) by blast
  have "said cs (g s') s'" using assms(2,3) sends_ready [OF s'(2)] by blast
  then show ?thesis using s' sends_trans [OF s'(2)] unfolding said_def by fastforce
qed

lemma said_then:
  assumes "said bs r s" "uart_ready s" "\<And>s'. uart_ready s' \<Longrightarrow> said [] (g s') s'"
  shows "said bs (r \<bind> g) s"
proof -
  obtain s' cs where s': "r = Some s'" "sends (bs @ cs) s s'" using assms(1) by (auto simp: said_def)
  have "said [] (g s') s'" using assms(2,3) sends_ready [OF s'(2)] by blast
  then show ?thesis using s' sends_trans [OF s'(2)] unfolding said_def by fastforce
qed

definition hex_text :: "u32 \<Rightarrow> u8 list" where
  "hex_text v = map (\<lambda>i. hex_digit (drop_bit i v AND 0xF)) [28, 24, 20, 16, 12, 8, 4, 0]"

lemma puthex_sends_text: "uart_ready s \<Longrightarrow> \<exists>s'. uart_puthex v s = Some s' \<and> sends (hex_text v) s s'"
  unfolding hex_text_def by (rule uart_puthex_sends)

lemma said_puts: "uart_ready s \<Longrightarrow> said [] (uart_puts bs s) s"
  by (rule said_any, rule said_exact, rule uart_puts_sends)

lemma said_puthex: "uart_ready s \<Longrightarrow> said [] (uart_puthex v s) s"
  by (rule said_any, rule said_exact, rule puthex_sends_text)

lemma said_putdec: "uart_ready s \<Longrightarrow> said [] (uart_putdec v s) s"
  unfolding uart_putdec_def by (cases "v = 0") (auto intro: said_any said_exact put_all_sends uart_putc_sends)

lemma said_hex: "uart_ready s \<Longrightarrow> said [] (puts_hex msg v s) s"
  unfolding puts_hex_def by (intro said_then said_puts said_puthex)

lemma said_dec: "uart_ready s \<Longrightarrow> said [] (puts_dec msg v s) s"
  unfolding puts_dec_def by (intro said_then said_puts said_putdec)

lemma said_puts_exact: "uart_ready s \<Longrightarrow> said (crlf bs) (uart_puts bs s) s"
  by (rule said_exact, rule uart_puts_sends)

lemma said_if: "(c \<Longrightarrow> said bs x s) \<Longrightarrow> (\<not> c \<Longrightarrow> said bs y s) \<Longrightarrow> said bs (if c then x else y) s"
  by simp

lemmas said_intros = said_then said_if said_puts said_puthex said_putdec said_hex said_dec said_nil said_puts_exact

lemma said_panic: "uart_ready s \<Longrightarrow> said (crlf (bytes ''KERNEL PANIC: '') @ crlf msg) (kernel_panic msg s) s"
  unfolding kernel_panic_def Let_def
  by (rule said_bind [OF uart_puts_sends]) (assumption | intro said_intros)+


section \<open>Atomic operations\<close>

text \<open>The interrupt mask is as before and only the addressed word changes.\<close>

lemma atomic_ops:
  "atomic_cmpxchg p old new s = (ld32 (mem s) p, if ld32 (mem s) p = old then s\<lparr>mem := st32 (mem s) p new\<rparr> else s)"
  "atomic_set p v s = s\<lparr>mem := st32 (mem s) p v\<rparr>" "atomic_get p s = (ld32 (mem s) p, s)"
  "atomic_xchg p v s = (ld32 (mem s) p, s\<lparr>mem := st32 (mem s) p v\<rparr>)"
  "atomic_inc p s = map_option (\<lambda>r. (r, s\<lparr>mem := st32 (mem s) p r\<rparr>)) (add_signed (ld32 (mem s) p) 1)"
  "atomic_dec p s = map_option (\<lambda>r. (r, s\<lparr>mem := st32 (mem s) p r\<rparr>)) (sub_signed (ld32 (mem s) p) 1)"
  by (simp_all add: atomic_cmpxchg_def atomic_set_def atomic_get_def atomic_xchg_def atomic_inc_def atomic_dec_def Let_def
    map_option_case split: option.splits bind_splits)

lemma atomic_inc_some: "sint (ld32 (mem s) p) < 2 ^ 31 - 1 \<Longrightarrow>
    atomic_inc p s = Some (ld32 (mem s) p + 1, s\<lparr>mem := st32 (mem s) p (ld32 (mem s) p + 1)\<rparr>)"
  using sint_greater_eq [of "ld32 (mem s) p"] by (simp add: atomic_ops(5) add_signed_def)

text \<open>A counter that goes up and down: tasks call \<^verbatim>\<open>atomic_inc\<close> (\<open>True\<close>) and \<^verbatim>\<open>atomic_dec\<close> in some order.\<close>

fun atomic_run :: "u32 \<Rightarrow> bool list \<Rightarrow> 'a mstate_scheme \<Rightarrow> 'a mstate_scheme option" where
  "atomic_run p [] s = Some s"
| "atomic_run p (b # bs) s = do { (_, s) \<leftarrow> (if b then atomic_inc p s else atomic_dec p s); atomic_run p bs s }"

fun tally :: "bool list \<Rightarrow> int" where
  "tally [] = 0"
| "tally (b # bs) = (if b then 1 else -1) + tally bs"

lemma signed_sum: "- (2 ^ 31) \<le> sint a + k \<Longrightarrow> sint a + k < 2 ^ 31 \<Longrightarrow> sint (a + word_of_int k :: u32) = sint a + k"
proof -
  assume k: "- (2 ^ 31) \<le> sint a + k" "sint a + k < 2 ^ 31"
  have "a + word_of_int k = word_of_int (sint a + k)" by simp
  then show ?thesis using k signed_take_bit_int_eq_self [of 31 "sint a + k"] by (simp only: sint_sbintrunc') simp
qed

text \<open>C29: Counting with the atomic operations: a run of increments and decrements that stays within the range of an
  \<^verbatim>\<open>int\<close> ends with the counter moved by their difference, the interrupt level as it was and no other byte
  changed.\<close>

theorem atomic_counter:
  assumes "- (2 ^ 31) \<le> sint (ld32 (mem s) p) - int (length bs)" "sint (ld32 (mem s) p) + int (length bs) < 2 ^ 31"
  shows "\<exists>s'. atomic_run p bs s = Some s' \<and> sint (ld32 (mem s') p) = sint (ld32 (mem s) p) + tally bs \<and> psr s' = psr s
     \<and> (\<forall>a. a \<notin> {p, p + 1, p + 2, p + 3} \<longrightarrow> mem s' a = mem s a)"
  using assms
proof (induction bs arbitrary: s)
  case (Cons b bs)
  let ?v = "ld32 (mem s) p" let ?d = "if b then 1 else -1 :: int"
  let ?s = "s\<lparr>mem := st32 (mem s) p (?v + word_of_int ?d)\<rparr>"
  have v: "sint (?v + word_of_int ?d) = sint ?v + ?d" using Cons.prems by (intro signed_sum) auto
  have l: "ld32 (mem ?s) p = ?v + word_of_int ?d" by (simp add: ld32_st32_same)
  have "atomic_run p (b # bs) s = atomic_run p bs ?s"
    using Cons.prems by (cases b) (simp_all add: atomic_ops add_signed_def sub_signed_def Let_def)
  moreover have "\<exists>s'. atomic_run p bs ?s = Some s' \<and> sint (ld32 (mem s') p) = sint (ld32 (mem ?s) p) + tally bs \<and> psr s' = psr ?s
     \<and> (\<forall>a. a \<notin> {p, p + 1, p + 2, p + 3} \<longrightarrow> mem s' a = mem ?s a)"
    by (rule Cons.IH) (use Cons.prems v l in \<open>auto split: if_splits\<close>)
  moreover have "a \<notin> {p, p + 1, p + 2, p + 3} \<Longrightarrow> mem ?s a = mem s a" for a by (simp add: st32_def)
  ultimately show ?case using v l by (simp add: add.assoc)
qed simp

section \<open>Instances\<close>

definition demo_arch :: arch_st where
  "demo_arch = wifi_st.extend (demo_wifi 0) (arch_st.fields 0x40 9 0 0 0x40080000 0 [0, 0] (\<lambda>_. 100) 0
     (replicate 32 EDefault) ((replicate 32 INone)[6 := ITimer]) 1000)"

lemmas demo_arch_defs = demo_arch_def wifi_st.defs arch_st.defs

lemma demo_arch_fields [simp]:
  "cycles demo_arch = (\<lambda>_. 100)" "cycle_pos demo_arch = 0" "intenable demo_arch = 0x40" "exccause demo_arch = 9"
  "interrupt_handlers demo_arch = (replicate 32 INone)[6 := ITimer]" "exception_handlers demo_arch = replicate 32 EDefault"
  by (simp_all add: demo_arch_defs)

lemma demo_arch_base [simp]: "mem demo_arch = mem demo_net" "io_dev demo_arch = demo_dev" "psr demo_arch = psr demo_net"
  by (simp_all add: demo_arch_defs demo_wifi_defs) (simp_all add: demo_net_def net_boot_defs)


theorem every_interrupt_ticks_witness:
  "trap_dispatch_interrupt (\<lambda>_ _. Some) (\<lambda>_. Some) demo_arch = do {
     s' \<leftarrow> scheduler_tick (write_ccompare 0 (fst (read_ccount demo_arch) + 240000) (snd (read_ccount demo_arch)));
     s' \<leftarrow> schedule (\<lambda>_ _. Some) s';
     dispatch_loop (\<lambda>_ _. Some) (\<lambda>_. Some) 0x40 [7..<32] s' }"
proof -
  have "bit (0x40 :: u32) 6" by (simp add: bit_iff_odd_drop_bit)
  then show ?thesis using every_interrupt_ticks [of demo_arch "\<lambda>_ _. Some" "\<lambda>_. Some"] by (simp only: demo_arch_fields)
qed


theorem atomic_counter_witness:
  "\<exists>s'. atomic_run 0x100 [True, True, False] (demo_arch\<lparr>mem := (\<lambda>_. 0)\<rparr>) = Some s' \<and> sint (ld32 (mem s') 0x100) = 1 \<and> mem s' 0x200 = 0"
  using atomic_counter [of "demo_arch\<lparr>mem := (\<lambda>_. 0)\<rparr>" "0x100" "[True, True, False]"] by (auto simp: ld32_def)

end
