(* ===== verification/Services.thy ===== *)
theory Services
  imports Trap "HOL-Library.Signed_Division"
begin

unbundle bit_operations_syntax

text \<open>
  Signals and time: \<^verbatim>\<open>kernel/signal/signal.c\<close>, \<^verbatim>\<open>kernel/time/time.c\<close> and \<^verbatim>\<open>libc/time/time.c\<close> without \<^verbatim>\<open>ctime\<close>.
  \<^verbatim>\<open>long\<close> and the time types have 32 bits.  A signal handler is an address; calling one is a parameter.
\<close>

section \<open>Signals\<close>

abbreviation (input) SIGKILL :: int where "SIGKILL \<equiv> 9"
abbreviation (input) SIGTERM :: int where "SIGTERM \<equiv> 15"
abbreviation (input) SIG_DFL :: u32 where "SIG_DFL \<equiv> 0"
abbreviation (input) SIG_IGN :: u32 where "SIG_IGN \<equiv> 1"
abbreviation (input) SIG_ERR :: u32 where "SIG_ERR \<equiv> -1"

record sigaction_rec =
  sa_handler :: u32
  sa_flags :: u32

record svc_st = arch_st +
  signal_handlers :: "sigaction_rec list"
  system_ticks :: u32
  time_tick_hz :: u32
  boot_time :: u32
  boot_ticks :: u32

type_synonym 'a svc_switch = "('a svc_st_ext) arch_switch"

definition signal_init :: "'a svc_st_scheme \<Rightarrow> 'a svc_st_scheme" where
  "signal_init s = s\<lparr>signal_handlers := replicate 32 \<lparr>sa_handler = SIG_DFL, sa_flags = 0\<rparr>\<rparr>"

definition set_signal :: "nat \<Rightarrow> (sigaction_rec \<Rightarrow> sigaction_rec) \<Rightarrow> 'a svc_st_scheme \<Rightarrow> 'a svc_st_scheme" where
  "set_signal i f s = s\<lparr>signal_handlers := (signal_handlers s)[i := f (signal_handlers s ! i)]\<rparr>"

definition signal :: "int \<Rightarrow> u32 \<Rightarrow> 'a svc_st_scheme \<Rightarrow> u32 \<times> 'a svc_st_scheme" where
  "signal signum handler s =
     (if signum \<le> 0 \<or> signum \<ge> 32 then (SIG_ERR, s)
      else let old = sa_handler (signal_handlers s ! nat signum)
           in (old, set_signal (nat signum) (\<lambda>a. a\<lparr>sa_handler := handler\<rparr>) s))"

definition sigaction :: "int \<Rightarrow> u32 \<Rightarrow> u32 \<Rightarrow> 'a svc_st_scheme \<Rightarrow> int \<times> 'a svc_st_scheme" where
  "sigaction signum act oldact s =
     (if signum \<le> 0 \<or> signum \<ge> 32 then (-1, s)
      else let a = signal_handlers s ! nat signum;
               s = (if oldact \<noteq> NULL then poke32 (oldact + 4) (sa_flags a) (poke32 oldact (sa_handler a) s) else s);
               s = (if act \<noteq> NULL
                    then set_signal (nat signum) (\<lambda>_. \<lparr>sa_handler = ld32 (mem s) act, sa_flags = ld32 (mem s) (act + 4)\<rparr>) s
                    else s)
           in (0, s))"

definition kill :: "int \<Rightarrow> int \<Rightarrow> int" where
  "kill pid sig = (if sig \<le> 0 \<or> sig \<ge> 32 then -1 else 0)"

text \<open>\<^verbatim>\<open>raise\<close> passes on the result of \<^verbatim>\<open>getpid\<close>, which is the argument here.\<close>

definition raise :: "int \<Rightarrow> int \<Rightarrow> int" where
  "raise pid sig = kill pid sig"

definition signal_deliver ::
  "'a svc_switch \<Rightarrow> (u32 \<Rightarrow> int \<Rightarrow> 'a svc_st_scheme \<Rightarrow> 'a svc_st_scheme option) \<Rightarrow> int \<Rightarrow> 'a svc_st_scheme \<Rightarrow> 'a svc_st_scheme option" where
  "signal_deliver sw call sig s =
     (if sig \<le> 0 \<or> sig \<ge> 32 then Some s
      else let h = sa_handler (signal_handlers s ! nat sig)
           in if h = SIG_DFL
              then if sig = SIGKILL \<or> sig = SIGTERM then syscall_exit sw (128 + sig) s else Some s
              else if h \<noteq> SIG_IGN then call h sig s
              else Some s)"

section \<open>Kernel time\<close>

definition time_init :: "'a svc_st_scheme \<Rightarrow> 'a svc_st_scheme" where
  "time_init s = s\<lparr>system_ticks := 0\<rparr>"

definition time_tick :: "'a svc_st_scheme \<Rightarrow> 'a svc_st_scheme" where
  "time_tick s = s\<lparr>system_ticks := system_ticks s + 1\<rparr>"

definition time_get_ticks :: "'a svc_st_scheme \<Rightarrow> u32" where
  "time_get_ticks s = system_ticks s"

definition time_get_hz :: "'a svc_st_scheme \<Rightarrow> u32" where
  "time_get_hz s = time_tick_hz s"

definition time_get_time :: "'a svc_st_scheme \<Rightarrow> u32 option" where
  "time_get_time s = (if time_tick_hz s = 0 then None else Some (system_ticks s div time_tick_hz s))"

definition time_set_time :: "u32 \<Rightarrow> 'a svc_st_scheme \<Rightarrow> 'a svc_st_scheme" where
  "time_set_time t s = s\<lparr>system_ticks := t * time_tick_hz s\<rparr>"

section \<open>Library time\<close>

definition libc_time :: "u32 \<Rightarrow> 'a svc_st_scheme \<Rightarrow> u32 \<times> 'a svc_st_scheme" where
  "libc_time tloc s =
     (let t = boot_time s + (tick_count (cpu0 s) - boot_ticks s) div 1000
      in (t, if tloc \<noteq> NULL then poke32 tloc t s else s))"

record tm =
  tm_sec :: int
  tm_min :: int
  tm_hour :: int
  tm_mday :: int
  tm_mon :: int
  tm_year :: int
  tm_wday :: int
  tm_yday :: int
  tm_isdst :: int

text \<open>Signed division truncates towards zero.\<close>

definition localtime :: "u32 \<Rightarrow> tm" where
  "localtime t =
     (let days = sint t sdiv 86400; rem = sint t smod 86400
      in \<lparr>tm_sec = rem smod 60, tm_min = (rem smod 3600) sdiv 60, tm_hour = rem sdiv 3600, tm_mday = 1, tm_mon = 0, tm_year = 70,
          tm_wday = (days + 4) smod 7, tm_yday = 0, tm_isdst = 0\<rparr>)"

definition clock :: "'a svc_st_scheme \<Rightarrow> u32" where
  "clock s = tick_count (cpu0 s)"

definition libc_sleep :: "'a svc_switch \<Rightarrow> u32 \<Rightarrow> 'a svc_st_scheme \<Rightarrow> (u32 \<times> 'a svc_st_scheme) option" where
  "libc_sleep sw seconds s = do { s \<leftarrow> syscall_sleep sw seconds s; Some (0, s) }"

section \<open>What a delivered signal does\<close>

lemma set_signal_nth: "i < length (signal_handlers s) \<Longrightarrow>
    signal_handlers (set_signal i f s) ! j = (if i = j then f (signal_handlers s ! i) else signal_handlers s ! j)"
  by (simp add: set_signal_def nth_list_update)

text \<open>Signals are delivered to the handler that was installed last.  \<^verbatim>\<open>signal\<close> returns the handler it replaces and
  touches no other signal; a delivery then calls an installed handler with the number of the signal, does nothing when
  the signal is ignored, and by default ends the task with status 128 plus the number for the two signals that
  terminate and does nothing for the others.\<close>

theorem signal_then_deliver:
  assumes "0 < sig" "sig < 32" "length (signal_handlers s) = 32"
  shows "\<exists>s'. signal sig h s = (sa_handler (signal_handlers s ! nat sig), s')
     \<and> (\<forall>j. j \<noteq> nat sig \<longrightarrow> signal_handlers s' ! j = signal_handlers s ! j)
     \<and> signal_deliver sw call sig s' =
         (if h = SIG_DFL then if sig \<in> {9, 15} then syscall_exit sw (128 + sig) s' else Some s'
          else if h = SIG_IGN then Some s' else call h sig s')"
proof -
  let ?s = "set_signal (nat sig) (\<lambda>a. a\<lparr>sa_handler := h\<rparr>) s"
  have l: "nat sig < length (signal_handlers s)" using assms by simp
  have "sa_handler (signal_handlers ?s ! nat sig) = h" by (simp add: set_signal_nth [OF l])
  then have "signal_deliver sw call sig ?s =
         (if h = SIG_DFL then if sig \<in> {9, 15} then syscall_exit sw (128 + sig) ?s else Some ?s
          else if h = SIG_IGN then Some ?s else call h sig ?s)"
    using assms(1,2) by (simp add: signal_deliver_def Let_def)
  moreover have "signal sig h s = (sa_handler (signal_handlers s ! nat sig), ?s)" using assms(1,2) by (simp add: signal_def)
  ultimately show ?thesis using set_signal_nth [OF l] by auto
qed

text \<open>What is set is read back, up to the wrap of the counter.\<close>

lemma time_set_get: "time_tick_hz s = 1000 \<Longrightarrow> unat t * 1000 < 2 ^ 32 \<Longrightarrow> time_get_time (time_set_time t s) = Some t"
  by (simp add: time_get_time_def time_set_time_def) (simp add: unat_word_ariths word_unat_eq_iff unat_div)

lemma signed_division_nonneg:
  "0 \<le> a \<Longrightarrow> 0 < b \<Longrightarrow> a sdiv b = a div b" "0 \<le> a \<Longrightarrow> 0 < b \<Longrightarrow> a smod b = a mod b" for a b :: int
  by (simp_all add: signed_divide_int_def signed_modulo_int_def sgn_if)

text \<open>The time of day: from the epoch on, hours, minutes and seconds are in their ranges and add up to the second of
  the day, and the day of the week is in its range.\<close>

theorem localtime_of_day:
  assumes "0 \<le> sint t"
  shows "0 \<le> tm_hour (localtime t) \<and> tm_hour (localtime t) < 24 \<and> 0 \<le> tm_min (localtime t) \<and> tm_min (localtime t) < 60
     \<and> 0 \<le> tm_sec (localtime t) \<and> tm_sec (localtime t) < 60 \<and> 0 \<le> tm_wday (localtime t) \<and> tm_wday (localtime t) < 7
     \<and> 3600 * tm_hour (localtime t) + 60 * tm_min (localtime t) + tm_sec (localtime t) = sint t mod 86400"
proof -
  define r where "r = sint t mod 86400"
  have r: "0 \<le> r" "r < 86400" by (simp_all add: r_def)
  have n: "0 \<le> sint t div 86400 + 4" using assms by (simp add: pos_imp_zdiv_nonneg_iff)
  have l: "tm_hour (localtime t) = r div 3600" "tm_min (localtime t) = r mod 3600 div 60" "tm_sec (localtime t) = r mod 60"
    "tm_wday (localtime t) = (sint t div 86400 + 4) mod 7"
    using r n by (simp_all add: localtime_def Let_def signed_division_nonneg [OF assms] signed_division_nonneg r_def)
  have m: "r mod 3600 mod 60 = r mod 60" by (simp add: mod_mod_cancel)
  have "3600 * (r div 3600) + 60 * (r mod 3600 div 60) + r mod 60 = r"
    using mult_div_mod_eq [of 3600 r] mult_div_mod_eq [of 60 "r mod 3600"] m by linarith
  moreover have "r div 3600 < 24" "r mod 3600 div 60 < 60"
    using r pos_mod_bound [of 3600 r] by (simp_all add: div_less_iff_less_mult)
  ultimately show ?thesis unfolding l r_def [symmetric] using r by (simp add: pos_imp_zdiv_nonneg_iff)
qed

end
