(* ===== verification/Xtensa.thy ===== *)
theory Xtensa
  imports Kstate
begin

unbundle bit_operations_syntax

text \<open>
  The assembly of \<^verbatim>\<open>arch/xtensa\<close>: the instructions that the sources use, a machine that runs them, and the
  routines of \<^verbatim>\<open>context/context.S\<close>, \<^verbatim>\<open>exceptions/vectors.S\<close>, \<^verbatim>\<open>boot/startup.S\<close> and
  \<^verbatim>\<open>cpu/xtensa_regs.S\<close> as instruction lists in source order.  A routine is run from an index into its list;
  a call is to a named function, given by a parameter, that leaves by a jump to an address.  The addresses of the
  instructions are a parameter as well.  Special registers are numbered as in the instruction set architecture
  (\<^verbatim>\<open>rsr.sar\<close> reads number 3, \<^verbatim>\<open>rsr.ps\<close> number 230).
\<close>

section \<open>Instructions\<close>

record xm =
  ar :: "nat \<Rightarrow> u32"
  sr :: "nat \<Rightarrow> u32"
  xmem :: mem

abbreviation (input) SR_SAR :: nat where "SR_SAR \<equiv> 3"
abbreviation (input) SR_PS :: nat where "SR_PS \<equiv> 230"

datatype instr =
    Movi nat u32 | Mov nat nat | Add nat nat nat | Addi nat nat u32
  | S32i nat nat u32 | L32i nat nat u32
  | Rsr nat nat | Wsr nat nat
  | Rsync | Esync | Dsync | Isync | Memw | Waiti nat | Entry nat u32
  | J nat | Beqz nat nat | Beq nat nat nat | Bne nat nat nat
  | Call0 string | Ret | Jx nat

definition set_ar :: "nat \<Rightarrow> u32 \<Rightarrow> xm \<Rightarrow> xm" where
  "set_ar r v m = m\<lparr>ar := (ar m)(r := v)\<rparr>"

text \<open>Instructions that go on to the next one.  The synchronisation instructions and \<^verbatim>\<open>waiti\<close>, which waits for
  an interrupt, leave the registers alone; \<^verbatim>\<open>entry\<close> is executed with no call increment pending.\<close>

fun exec1 :: "instr \<Rightarrow> xm \<Rightarrow> xm" where
  "exec1 (Movi r v) m = set_ar r v m"
| "exec1 (Mov r q) m = set_ar r (ar m q) m"
| "exec1 (Add r p q) m = set_ar r (ar m p + ar m q) m"
| "exec1 (Addi r q v) m = set_ar r (ar m q + v) m"
| "exec1 (S32i r q off) m = m\<lparr>xmem := st32 (xmem m) (ar m q + off) (ar m r)\<rparr>"
| "exec1 (L32i r q off) m = set_ar r (ld32 (xmem m) (ar m q + off)) m"
| "exec1 (Rsr r n) m = set_ar r (sr m n) m"
| "exec1 (Wsr r n) m = m\<lparr>sr := (sr m)(n := ar m r)\<rparr>"
| "exec1 (Entry r v) m = set_ar r (ar m r - v) m"
| "exec1 _ m = m"

datatype outcome = Running nat xm | Jumped u32 xm | Hung

fun is_data :: "instr \<Rightarrow> bool" where
  "is_data (J _) = False"
| "is_data (Beqz _ _) = False"
| "is_data (Beq _ _ _) = False"
| "is_data (Bne _ _ _) = False"
| "is_data (Call0 _) = False"
| "is_data Ret = False"
| "is_data (Jx _) = False"
| "is_data _ = True"

type_synonym callee = "string \<Rightarrow> xm \<Rightarrow> (u32 \<times> xm) option"

fun run :: "callee \<Rightarrow> (nat \<Rightarrow> u32) \<Rightarrow> instr list \<Rightarrow> nat \<Rightarrow> nat \<Rightarrow> xm \<Rightarrow> outcome" where
  "run call addr P 0 pc m = Running pc m"
| "run call addr P (Suc k) pc m =
     (if length P \<le> pc then Hung
      else case P ! pc of
        J t \<Rightarrow> run call addr P k t m
      | Beqz r t \<Rightarrow> run call addr P k (if ar m r = 0 then t else pc + 1) m
      | Beq r q t \<Rightarrow> run call addr P k (if ar m r = ar m q then t else pc + 1) m
      | Bne r q t \<Rightarrow> run call addr P k (if ar m r \<noteq> ar m q then t else pc + 1) m
      | Call0 f \<Rightarrow> (case call f (set_ar 0 (addr (pc + 1)) m) of
                     None \<Rightarrow> Hung
                   | Some (t, m') \<Rightarrow> if t = addr (pc + 1) then run call addr P k (pc + 1) m' else Jumped t m')
      | Ret \<Rightarrow> Jumped (ar m 0) m
      | Jx r \<Rightarrow> Jumped (ar m r) m
      | i \<Rightarrow> run call addr P k (pc + 1) (exec1 i m))"

section \<open>Context switch\<close>

definition ctx_save_code :: "instr list" where
  "ctx_save_code =
     [Movi 2 0x20, Add 2 1 2, S32i 2 0 0,
      S32i 2 0 4, S32i 3 0 8, S32i 4 0 12, S32i 5 0 16, S32i 6 0 20, S32i 7 0 24, S32i 8 0 28,
      S32i 9 0 32, S32i 10 0 36, S32i 11 0 40, S32i 12 0 44, S32i 13 0 48, S32i 14 0 52, S32i 15 0 56,
      Rsr 2 SR_SAR, S32i 2 0 60, Movi 2 0, S32i 2 0 64, Rsr 2 SR_PS, S32i 2 0 68]"

text \<open>Loads from the context that register \<open>b\<close> points to.\<close>

definition ctx_load_code :: "nat \<Rightarrow> instr list" where
  "ctx_load_code b =
     [L32i 1 b 0,
      L32i 2 b 4, L32i 3 b 8, L32i 4 b 12, L32i 5 b 16, L32i 6 b 20, L32i 7 b 24, L32i 8 b 28,
      L32i 9 b 32, L32i 10 b 36, L32i 11 b 40, L32i 12 b 44, L32i 13 b 48, L32i 14 b 52, L32i 15 b 56,
      L32i 2 b 60, Wsr 2 SR_SAR, L32i 2 b 68, Wsr 2 SR_PS, Rsync]"

definition context_switch :: "instr list" where
  "context_switch = ctx_save_code @ ctx_load_code 3 @ [Jx 2]"

definition context_save :: "instr list" where
  "context_save = ctx_save_code @ [Ret]"

definition context_restore :: "instr list" where
  "context_restore = ctx_load_code 0 @ [Jx 2]"

section \<open>Vectors\<close>

definition exc_vector :: "nat \<Rightarrow> instr list" where
  "exc_vector num = [Movi 2 (of_nat num), Call0 ''_exception_entry'', J 0]"

definition int_vector :: "nat \<Rightarrow> instr list" where
  "int_vector num = [Call0 ''_interrupt_entry'', J 0]"

definition vector_table :: "instr list list" where
  "vector_table = map exc_vector [0..<32] @ map int_vector [0..<32]"

definition push_regs :: "instr list" where
  "push_regs =
     [S32i 0 1 0, S32i 2 1 4, S32i 3 1 8, S32i 4 1 12, S32i 5 1 16, S32i 6 1 20, S32i 7 1 24, S32i 8 1 28,
      S32i 9 1 32, S32i 10 1 36, S32i 11 1 40, S32i 12 1 44, S32i 13 1 48, S32i 14 1 52, S32i 15 1 56]"

definition pop_regs :: "instr list" where
  "pop_regs =
     [L32i 15 1 56, L32i 14 1 52, L32i 13 1 48, L32i 12 1 44, L32i 11 1 40, L32i 10 1 36, L32i 9 1 32, L32i 8 1 28,
      L32i 7 1 24, L32i 6 1 20, L32i 5 1 16, L32i 4 1 12, L32i 3 1 8, L32i 2 1 4, L32i 0 1 0]"

definition push_frame :: "instr list" where
  "push_frame = [Addi 1 1 (- 0x60)] @ push_regs
     @ [Rsr 0 SR_SAR, S32i 0 1 60, Rsr 0 17, S32i 0 1 64, Rsr 0 SR_PS, S32i 0 1 68, Mov 2 1]"

definition exception_entry :: "instr list" where
  "exception_entry = push_frame @ [Call0 ''trap_dispatch_exception''] @ pop_regs @ [Addi 1 1 0x60, Jx 0]"

definition interrupt_entry :: "instr list" where
  "interrupt_entry = [Addi 1 1 (- 0x20)] @ push_regs @ [Call0 ''trap_dispatch_interrupt''] @ pop_regs @ [Addi 1 1 0x20, Jx 0]"

section \<open>Startup\<close>

record image =
  bss_start :: u32
  bss_end :: u32
  data_start :: u32
  data_end :: u32
  etext :: u32
  stack_top :: u32

definition bss_init :: "image \<Rightarrow> instr list" where
  "bss_init L =
     [Movi 2 (bss_start L), Movi 3 (bss_end L), Beqz 3 8, Beq 2 3 8, Movi 4 0,
      S32i 4 2 0, Addi 2 2 4, Bne 2 3 5,
      Ret]"

definition data_init :: "image \<Rightarrow> instr list" where
  "data_init L =
     [Movi 2 (data_start L), Movi 3 (data_end L), Movi 4 (etext L), Beq 2 3 9,
      L32i 5 4 0, S32i 5 2 0, Addi 2 2 4, Addi 4 4 4, Bne 2 3 4,
      Ret]"

definition cpu_init_asm :: "instr list" where
  "cpu_init_asm = [Ret]"

definition start_asm :: "image \<Rightarrow> instr list" where
  "start_asm L =
     [Movi 1 (stack_top L), Entry 1 0x20,
      Call0 ''_bss_init'', Call0 ''_data_init'', Call0 ''_cpu_init'', Call0 ''_kernel_main'']"

definition kernel_main_asm :: "instr list" where
  "kernel_main_asm = [Call0 ''kernel_main'', Waiti 0, J 1]"

section \<open>Special registers\<close>

abbreviation (input) PSR :: nat where "PSR \<equiv> 0"
abbreviation (input) EPSR :: nat where "EPSR \<equiv> 1"
abbreviation (input) EPC1 :: nat where "EPC1 \<equiv> 17"
abbreviation (input) EXCCAUSE :: nat where "EXCCAUSE \<equiv> 2"
abbreviation (input) EXCVADDR :: nat where "EXCVADDR \<equiv> 3"
abbreviation (input) INTENABLE :: nat where "INTENABLE \<equiv> 4"
abbreviation (input) CCOUNT :: nat where "CCOUNT \<equiv> 232"
abbreviation (input) CCOMPARE0 :: nat where "CCOMPARE0 \<equiv> 233"
abbreviation (input) CCOMPARE1 :: nat where "CCOMPARE1 \<equiv> 234"
abbreviation (input) SAR :: nat where "SAR \<equiv> 16"

definition rd :: "nat \<Rightarrow> instr list" where
  "rd n = [Rsr 2 n, Mov 2 2, Ret]"

definition wr :: "nat \<Rightarrow> instr list" where
  "wr n = [Wsr 2 n, Rsync, Ret]"

text \<open>The routines of \<^verbatim>\<open>xtensa_regs.S\<close>, by name.\<close>

definition xtensa_regs :: "(string \<times> instr list) list" where
  "xtensa_regs =
     [(''read_psr'', rd PSR), (''write_psr'', wr PSR), (''read_epsr'', rd EPSR), (''read_epc'', rd EPC1), (''write_epc'', wr EPC1),
      (''read_exccause'', rd EXCCAUSE), (''read_excvaddr'', rd EXCVADDR),
      (''read_intenable'', rd INTENABLE), (''write_intenable'', wr INTENABLE), (''write_intclear'', [Ret]),
      (''read_ccount'', rd CCOUNT), (''write_ccount'', wr CCOUNT),
      (''read_ccompare0'', rd CCOMPARE0), (''read_ccompare1'', rd CCOMPARE1),
      (''write_ccompare0'', wr CCOMPARE0), (''write_ccompare1'', wr CCOMPARE1),
      (''read_sar'', rd SAR), (''write_sar'', wr SAR),
      (''rsync'', [Rsync, Ret]), (''esync'', [Esync, Ret]), (''dsync'', [Dsync, Ret]), (''isync'', [Isync, Ret]),
      (''memw'', [Memw, Ret]), (''waiti'', [Waiti 0, Ret])]"

section \<open>Straight-line code\<close>

lemma run_data: "pc < length P \<Longrightarrow> is_data (P ! pc) \<Longrightarrow> run call addr P (Suc k) pc m = run call addr P k (pc + 1) (exec1 (P ! pc) m)"
  by (cases "P ! pc") simp_all

lemma run_call:
  "pc < length P \<Longrightarrow> P ! pc = Call0 f \<Longrightarrow> call f (set_ar 0 (addr (pc + 1)) m) = Some (addr (pc + 1), m') \<Longrightarrow>
   run call addr P (Suc k) pc m = run call addr P k (pc + 1) m'"
  by simp

lemma run_jx: "pc < length P \<Longrightarrow> P ! pc = Jx r \<Longrightarrow> run call addr P (Suc k) pc m = Jumped (ar m r) m"
  by simp

lemma run_block:
  assumes "take (length xs) (drop pc P) = xs" "list_all is_data xs"
  shows "run call addr P (length xs + k) pc m = run call addr P k (pc + length xs) (fold exec1 xs m)"
  using assms
proof (induction xs arbitrary: pc m)
  case (Cons i xs)
  have l: "pc < length P" using Cons.prems(1) by (cases "pc < length P") simp_all
  have p: "P ! pc = i" "take (length xs) (drop (pc + 1) P) = xs"
    using Cons.prems(1) Cons_nth_drop_Suc [OF l, symmetric] by simp_all
  have d: "is_data i" "list_all is_data xs" using Cons.prems(2) by simp_all
  show ?case using Cons.IH [OF p(2) d(2), of "exec1 i m"] p(1) d(1) run_data [OF l, of call addr "length xs + k" m] by simp
qed simp

lemma run_prefix: "list_all is_data xs \<Longrightarrow> run call addr (xs @ ys) (length xs + k) 0 m = run call addr (xs @ ys) k (length xs) (fold exec1 xs m)"
  using run_block [of xs 0 "xs @ ys"] by simp

lemma run_middle: "list_all is_data xs \<Longrightarrow>
    run call addr (ws @ xs @ ys) (length xs + k) (length ws) m = run call addr (ws @ xs @ ys) k (length ws + length xs) (fold exec1 xs m)"
  using run_block [of xs "length ws" "ws @ xs @ ys"] by simp

lemma ld32_st32_off [simp]: "4 \<le> y - x \<Longrightarrow> 4 \<le> x - y \<Longrightarrow> ld32 (st32 m (b + x) v) (b + y) = ld32 m (b + y)"
  by (simp add: ld32_st32_apart apart_def)

lemma ld32_st32_base [simp]: "4 \<le> y \<Longrightarrow> 4 \<le> - y \<Longrightarrow> ld32 (st32 m b v) (b + y) = ld32 m (b + y)"
  "4 \<le> x \<Longrightarrow> 4 \<le> - x \<Longrightarrow> ld32 (st32 m (b + x) v) b = ld32 m b"
  using ld32_st32_off [of y 0 m b v] ld32_st32_off [of 0 x m b v] by simp_all

declare ld32_st32_same [simp]

lemma set_ar_simps [simp]: "ar (set_ar r v m) = (ar m)(r := v)" "sr (set_ar r v m) = sr m" "xmem (set_ar r v m) = xmem m"
  "ar (m\<lparr>xmem := x\<rparr>) = ar m"
  by (simp_all add: set_ar_def)

section \<open>Frames\<close>

lemma push_regs_effect:
  defines "f \<equiv> fold exec1 push_regs"
  shows "ar (f m) = ar m" "sr (f m) = sr m"
    "ld32 (xmem (f m)) (ar m 1) = ar m 0"
    "ld32 (xmem (f m)) (ar m 1 + 4) = ar m 2" "ld32 (xmem (f m)) (ar m 1 + 8) = ar m 3" "ld32 (xmem (f m)) (ar m 1 + 12) = ar m 4"
    "ld32 (xmem (f m)) (ar m 1 + 16) = ar m 5" "ld32 (xmem (f m)) (ar m 1 + 20) = ar m 6" "ld32 (xmem (f m)) (ar m 1 + 24) = ar m 7"
    "ld32 (xmem (f m)) (ar m 1 + 28) = ar m 8" "ld32 (xmem (f m)) (ar m 1 + 32) = ar m 9" "ld32 (xmem (f m)) (ar m 1 + 36) = ar m 10"
    "ld32 (xmem (f m)) (ar m 1 + 40) = ar m 11" "ld32 (xmem (f m)) (ar m 1 + 44) = ar m 12" "ld32 (xmem (f m)) (ar m 1 + 48) = ar m 13"
    "ld32 (xmem (f m)) (ar m 1 + 52) = ar m 14" "ld32 (xmem (f m)) (ar m 1 + 56) = ar m 15"
  by (simp_all add: f_def push_regs_def)


lemma pop_regs_effect:
  defines "f \<equiv> fold exec1 pop_regs"
  shows "sr (f m) = sr m" "xmem (f m) = xmem m" "ar (f m) 1 = ar m 1"
    "ar (f m) 0 = ld32 (xmem m) (ar m 1)" "ar (f m) 2 = ld32 (xmem m) (ar m 1 + 4)" "ar (f m) 3 = ld32 (xmem m) (ar m 1 + 8)"
    "ar (f m) 4 = ld32 (xmem m) (ar m 1 + 12)" "ar (f m) 5 = ld32 (xmem m) (ar m 1 + 16)" "ar (f m) 6 = ld32 (xmem m) (ar m 1 + 20)"
    "ar (f m) 7 = ld32 (xmem m) (ar m 1 + 24)" "ar (f m) 8 = ld32 (xmem m) (ar m 1 + 28)" "ar (f m) 9 = ld32 (xmem m) (ar m 1 + 32)"
    "ar (f m) 10 = ld32 (xmem m) (ar m 1 + 36)" "ar (f m) 11 = ld32 (xmem m) (ar m 1 + 40)" "ar (f m) 12 = ld32 (xmem m) (ar m 1 + 44)"
    "ar (f m) 13 = ld32 (xmem m) (ar m 1 + 48)" "ar (f m) 14 = ld32 (xmem m) (ar m 1 + 52)" "ar (f m) 15 = ld32 (xmem m) (ar m 1 + 56)"
  by (simp_all add: f_def pop_regs_def)

text \<open>The fifteen words of the register frame at an address, and the registers they hold.\<close>

definition slot :: "nat \<Rightarrow> nat" where
  "slot i = (if i = 0 then 0 else i + 1)"

definition frame_at :: "u32 \<Rightarrow> (nat \<Rightarrow> u32) \<Rightarrow> mem \<Rightarrow> bool" where
  "frame_at p r m \<longleftrightarrow> (\<forall>i<15. ld32 m (p + 4 * of_nat i) = r (slot i))"

lemma all_less_15: "(\<forall>i<15. P i) \<longleftrightarrow> P 0 \<and> P 1 \<and> P 2 \<and> P 3 \<and> P 4 \<and> P 5 \<and> P 6 \<and> P 7 \<and> P 8 \<and> P 9 \<and> P 10 \<and> P 11 \<and> P 12 \<and> P 13 \<and> P (14 :: nat)"
  by (simp add: numeral_eq_Suc All_less_Suc conj_ac)

lemma push_regs_frame: "frame_at (ar m 1) (ar m) (xmem (fold exec1 push_regs m))"
  by (simp add: frame_at_def all_less_15 slot_def push_regs_effect del: One_nat_def)

lemma pop_regs_frame: "frame_at (ar m 1) r (xmem m) \<Longrightarrow> k \<le> 15 \<Longrightarrow> k \<noteq> 1 \<Longrightarrow> ar (fold exec1 pop_regs m) k = r k"
proof -
  assume f: "frame_at (ar m 1) r (xmem m)" and k: "k \<le> 15" "k \<noteq> 1"
  have "k \<in> {0, 2, 3, 4, 5, 6, 7, 8, 9, 10, 11, 12, 13, 14, 15}" using k by simp presburger
  then show ?thesis using f unfolding frame_at_def all_less_15 slot_def
    by (elim insertE emptyE) (simp_all add: pop_regs_effect del: One_nat_def)
qed


text \<open>What a function called with \<^verbatim>\<open>call0\<close> owes its caller: it returns, with the stack pointer as it was and the
  register frame the caller built at the stack pointer untouched.\<close>

definition keeps_frame :: "callee \<Rightarrow> string \<Rightarrow> bool" where
  "keeps_frame call f \<longleftrightarrow> (\<forall>m. \<exists>m'. call f m = Some (ar m 0, m') \<and> ar m' 1 = ar m 1
     \<and> (\<forall>i<15. ld32 (xmem m') (ar m 1 + 4 * of_nat i) = ld32 (xmem m) (ar m 1 + 4 * of_nat i)))"

text \<open>Both entries have this shape.\<close>

lemma entry_run:
  assumes P: "P = pre @ [Call0 f] @ pop_regs @ [Addi 1 1 d, Jx 0]" "list_all is_data pre" "keeps_frame call f"
    and pre: "frame_at (ar m 1 - d) (ar m) (xmem (fold exec1 pre m))" "ar (fold exec1 pre m) 1 = ar m 1 - d"
    and k: "k = length pre + 18"
  obtains m2 m' where "call f (set_ar 0 (addr (length pre + 1)) (fold exec1 pre m)) = Some (addr (length pre + 1), m2)"
    "run call addr P k 0 m = Jumped (ar m 0) m'" "\<forall>r\<le>15. ar m' r = ar m r" "xmem m' = xmem m2"
proof -
  let ?m1 = "fold exec1 pre m" and ?ra = "addr (length pre + 1)"
  obtain m2 where m2: "call f (set_ar 0 ?ra ?m1) = Some (?ra, m2)" "ar m2 1 = ar m 1 - d"
    "\<forall>i<15. ld32 (xmem m2) (ar m 1 - d + 4 * of_nat i) = ld32 (xmem ?m1) (ar m 1 - d + 4 * of_nat i)"
    using P(3) pre(2) unfolding keeps_frame_def by (auto dest: spec [of _ "set_ar 0 ?ra ?m1"])
  let ?m3 = "fold exec1 pop_regs m2"
  let ?m' = "set_ar 1 (ar ?m3 1 + d) ?m3"
  have f: "frame_at (ar m2 1) (ar m) (xmem m2)" using pre(1) m2(2,3) by (simp add: frame_at_def)
  have l: "length pop_regs = 15" "list_all is_data pop_regs" by (simp_all add: pop_regs_def)
  have "run call addr P k 0 m = run call addr P 18 (length pre) ?m1"
    using run_prefix [OF P(2), of call addr _ 18 m] by (simp add: P(1) k)
  also have "\<dots> = run call addr P 17 (length pre + 1) m2"
    using run_call [of "length pre" P f call addr ?m1 m2 17] m2(1) by (simp add: P(1) nth_append)
  also have "\<dots> = run call addr P 2 (length pre + 16) ?m3"
    using run_middle [OF l(2), of call addr "pre @ [Call0 f]" "[Addi 1 1 d, Jx 0]" 2 m2] by (simp add: P(1) l(1) add.commute)
  also have "\<dots> = run call addr P 1 (length pre + 17) ?m'"
    using run_data [of "length pre + 16" P call addr 1 ?m3] l(1) by (simp add: P(1) nth_append numeral_2_eq_2)
  also have "\<dots> = Jumped (ar m 0) ?m'"
    using run_jx [of "length pre + 17" P 0 call addr 0 ?m'] pop_regs_frame [OF f, of 0] l(1) by (simp add: P(1) nth_append)
  finally have "run call addr P k 0 m = Jumped (ar m 0) ?m'" .
  moreover have "\<forall>r\<le>15. ar ?m' r = ar m r"
    using pop_regs_frame [OF f] pop_regs_effect(3) [of m2] m2(2) by simp
  moreover have "xmem ?m' = xmem m2" by (simp add: pop_regs_effect(2))
  ultimately show ?thesis using that m2(1) by blast
qed


section \<open>Exceptions\<close>

lemma push_frame_effect:
  "list_all is_data push_frame" "length push_frame = 23" "ar (fold exec1 push_frame m) 1 = ar m 1 - 0x60"
  "frame_at (ar m 1 - 0x60) (ar m) (xmem (fold exec1 push_frame m))"
proof -
  show "list_all is_data push_frame" "length push_frame = 23" by (simp_all add: push_frame_def push_regs_def)
  define p where "p = ar m 1 - 0x60"
  let ?m0 = "set_ar 1 p m"
  let ?m1 = "fold exec1 push_regs ?m0"
  have e: "ar (fold exec1 push_frame m) 1 = p"
    "xmem (fold exec1 push_frame m) = st32 (st32 (st32 (xmem ?m1) (p + 60) (sr m 3)) (p + 64) (sr m 17)) (p + 68) (sr m 230)"
    by (simp_all add: push_frame_def push_regs_effect p_def)
  show "ar (fold exec1 push_frame m) 1 = ar m 1 - 0x60" using e(1) by (simp add: p_def)
  have "frame_at p (ar ?m0) (xmem ?m1)" using push_regs_frame [of ?m0] by simp
  then have "frame_at p (ar m) (xmem (fold exec1 push_frame m))"
    unfolding e(2) frame_at_def all_less_15 slot_def by simp
  then show "frame_at (ar m 1 - 0x60) (ar m) (xmem (fold exec1 push_frame m))" by (simp only: p_def)
qed

lemma exception_entry_run:
  assumes "keeps_frame call ''trap_dispatch_exception''"
  obtains m' where "run call addr exception_entry 41 0 m = Jumped (ar m 0) m'" "\<forall>r\<le>15. ar m' r = ar m r"
  by (rule entry_run [OF exception_entry_def push_frame_effect(1) assms push_frame_effect(4,3), where k = 41 and m = m and addr = addr])
    (auto simp: push_frame_effect(2))


text \<open>The vectors call the entries, which end with a jump.\<close>

definition vector_call :: "callee \<Rightarrow> (nat \<Rightarrow> u32) \<Rightarrow> callee" where
  "vector_call call addr f m =
     (if f = ''_exception_entry'' then case run call addr exception_entry 41 0 m of Jumped t m' \<Rightarrow> Some (t, m') | _ \<Rightarrow> None
      else if f = ''_interrupt_entry'' then case run call addr interrupt_entry 34 0 m of Jumped t m' \<Rightarrow> Some (t, m') | _ \<Rightarrow> None
      else call f m)"

lemma exception_round:
  assumes "keeps_frame call ''trap_dispatch_exception''"
  shows "\<exists>m'. run (vector_call call ea) va (exc_vector num) (Suc (Suc (Suc k))) 0 m = run (vector_call call ea) va (exc_vector num) k 0 m'"
proof -
  let ?m = "set_ar 0 (va 2) (set_ar 2 (of_nat num) m)"
  obtain m' where "run call ea exception_entry 41 0 ?m = Jumped (va 2) m'"
    by (rule exception_entry_run [OF assms, where m = ?m and addr = ea]) auto
  then have "vector_call call ea ''_exception_entry'' ?m = Some (va 2, m')" by (simp add: vector_call_def)
  then show ?thesis by (intro exI [of _ m']) (simp add: exc_vector_def numeral_2_eq_2)
qed



text \<open>The C side reads the frame as a \<^verbatim>\<open>struct task_context\<close>.\<close>

definition ctx_at :: "mem \<Rightarrow> u32 \<Rightarrow> task_context" where
  "ctx_at m p = \<lparr>c_a0 = ld32 m p, c_a1 = ld32 m (p + 4), c_a2 = ld32 m (p + 8), c_a3 = ld32 m (p + 12), c_a4 = ld32 m (p + 16),
     c_a5 = ld32 m (p + 20), c_a6 = ld32 m (p + 24), c_a7 = ld32 m (p + 28), c_a8 = ld32 m (p + 32), c_a9 = ld32 m (p + 36),
     c_a10 = ld32 m (p + 40), c_a11 = ld32 m (p + 44), c_a12 = ld32 m (p + 48), c_a13 = ld32 m (p + 52), c_a14 = ld32 m (p + 56),
     c_a15 = ld32 m (p + 60), c_sar = ld32 m (p + 64), c_pc = ld32 m (p + 68), c_ps = ld32 m (p + 72)\<rparr>"

lemma push_frame_memory:
  defines "p \<equiv> \<lambda>m. ar m 1 - 0x60"
  shows "xmem (fold exec1 push_frame m) = st32 (st32 (st32 (xmem (fold exec1 push_regs (set_ar 1 (p m) m))) (p m + 60) (sr m 3)) (p m + 64) (sr m 17)) (p m + 68) (sr m 230)"
    "ar (fold exec1 push_frame m) 2 = p m"
  by (simp_all add: push_frame_def push_regs_effect p_def)

text \<open>C33: The frame that the exception entry builds is not the \<^verbatim>\<open>struct task_context\<close> that the handler reads
  through its argument: the frame leaves out \<^verbatim>\<open>a1\<close>, so the handler takes every register from \<^verbatim>\<open>a1\<close> to
  \<^verbatim>\<open>a14\<close> from the register with the next number (a system call number in \<^verbatim>\<open>a2\<close> is read from \<^verbatim>\<open>a3\<close>),
  and finds the processor status where it expects the program counter.\<close>

theorem exception_frame_shifted:
  "ctx_at (xmem (fold exec1 push_frame m)) (ar (fold exec1 push_frame m) 2) =
     \<lparr>c_a0 = ar m 0, c_a1 = ar m 2, c_a2 = ar m 3, c_a3 = ar m 4, c_a4 = ar m 5, c_a5 = ar m 6, c_a6 = ar m 7, c_a7 = ar m 8,
      c_a8 = ar m 9, c_a9 = ar m 10, c_a10 = ar m 11, c_a11 = ar m 12, c_a12 = ar m 13, c_a13 = ar m 14, c_a14 = ar m 15,
      c_a15 = sr m SR_SAR, c_sar = sr m 17, c_pc = sr m SR_PS, c_ps = ld32 (xmem m) (ar m 1 - 24)\<rparr>"
proof -
  define p where "p = ar m 1 - 0x60"
  let ?m0 = "set_ar 1 p m"
  have x: "ld32 (xmem (fold exec1 push_regs ?m0)) (p + 72) = ld32 (xmem m) (p + 72)" by (simp add: push_regs_def)
  have y: "ar m 1 - 24 = p + 72" by (simp add: p_def)
  show ?thesis
    using push_regs_effect(3-) [of ?m0] x unfolding ctx_at_def push_frame_memory y p_def [symmetric] by simp
qed

text \<open>The interrupt entry reserves 32 bytes and stores 60: the registers \<^verbatim>\<open>a9\<close> to \<^verbatim>\<open>a15\<close> land on the
  first seven words of the interrupted program's stack.\<close>

theorem interrupt_entry_overruns_stack:
  assumes "keeps_frame call ''trap_dispatch_interrupt''" "j < 7"
  shows "\<exists>m'. run call addr interrupt_entry 34 0 m = Jumped (ar m 0) m' \<and> (\<forall>r\<le>15. ar m' r = ar m r)
     \<and> ld32 (xmem m') (ar m 1 + 4 * of_nat j) = ar m (9 + j)"
proof -
  let ?pre = "[Addi 1 1 (- 0x20)] @ push_regs" and ?p = "ar m 1 - 0x20"
  let ?m1 = "fold exec1 ?pre m" and ?m0 = "set_ar 1 ?p m"
  have m1: "?m1 = fold exec1 push_regs ?m0" "list_all is_data ?pre" "34 = length ?pre + 18" "ar ?m1 1 = ?p"
    by (simp_all add: push_regs_effect) (simp_all add: push_regs_def)
  have "frame_at ?p (ar ?m0) (xmem ?m1)" using push_regs_frame [of ?m0] by (simp add: m1(1))
  then have f: "frame_at ?p (ar m) (xmem ?m1)" unfolding frame_at_def all_less_15 slot_def by simp
  have P: "interrupt_entry = ?pre @ [Call0 ''trap_dispatch_interrupt''] @ pop_regs @ [Addi 1 1 0x20, Jx 0]"
    by (simp add: interrupt_entry_def)
  obtain m2 m' where m': "call ''trap_dispatch_interrupt'' (set_ar 0 (addr (length ?pre + 1)) ?m1) = Some (addr (length ?pre + 1), m2)"
    "run call addr interrupt_entry 34 0 m = Jumped (ar m 0) m'" "\<forall>r\<le>15. ar m' r = ar m r" "xmem m' = xmem m2"
    by (rule entry_run [OF P m1(2) assms(1) f m1(4,3), where addr = addr])
  have k: "ld32 (xmem m2) (?p + 4 * of_nat i) = ld32 (xmem ?m1) (?p + 4 * of_nat i)" if "i < 15" for i
    using assms(1) m1(4) m'(1) that unfolding keeps_frame_def by (auto dest!: spec [of _ "set_ar 0 (addr (length ?pre + 1)) ?m1"])
  have g: "8 + j < 15" "slot (8 + j) = 9 + j" using assms(2) by (simp_all add: slot_def)
  have "ld32 (xmem m') (?p + 4 * of_nat (8 + j)) = ar m (9 + j)"
    using f [unfolded frame_at_def, rule_format, OF g(1)] by (simp only: m'(4) k [OF g(1)] g(2))
  moreover have "?p + 4 * of_nat (8 + j) = ar m 1 + 4 * of_nat j" by (simp add: algebra_simps)
  ultimately show ?thesis using m'(2,3) by auto
qed

section \<open>Saving and restoring a context\<close>

lemma ctx_save_effect:
  defines "f \<equiv> fold exec1 ctx_save_code"
  shows "ar (f m) = (ar m)(2 := sr m 230)" "sr (f m) = sr m"
    "ld32 (xmem (f m)) (ar m 0) = ar m 1 + 0x20" "ld32 (xmem (f m)) (ar m 0 + 4) = ar m 1 + 0x20"
    "ld32 (xmem (f m)) (ar m 0 + 8) = ar m 3" "ld32 (xmem (f m)) (ar m 0 + 12) = ar m 4" "ld32 (xmem (f m)) (ar m 0 + 16) = ar m 5"
    "ld32 (xmem (f m)) (ar m 0 + 20) = ar m 6" "ld32 (xmem (f m)) (ar m 0 + 24) = ar m 7" "ld32 (xmem (f m)) (ar m 0 + 28) = ar m 8"
    "ld32 (xmem (f m)) (ar m 0 + 32) = ar m 9" "ld32 (xmem (f m)) (ar m 0 + 36) = ar m 10" "ld32 (xmem (f m)) (ar m 0 + 40) = ar m 11"
    "ld32 (xmem (f m)) (ar m 0 + 44) = ar m 12" "ld32 (xmem (f m)) (ar m 0 + 48) = ar m 13" "ld32 (xmem (f m)) (ar m 0 + 52) = ar m 14"
    "ld32 (xmem (f m)) (ar m 0 + 56) = ar m 15" "ld32 (xmem (f m)) (ar m 0 + 60) = sr m 3" "ld32 (xmem (f m)) (ar m 0 + 68) = sr m 230"
  by (simp_all add: f_def ctx_save_code_def)

lemma ctx_codes: "list_all is_data ctx_save_code" "length ctx_save_code = 23" "list_all is_data (ctx_load_code b)" "length (ctx_load_code b) = 20"
  by (simp_all add: ctx_save_code_def ctx_load_code_def)

text \<open>A context saved by \<^verbatim>\<open>context_save\<close> and loaded by \<^verbatim>\<open>context_restore\<close>: the registers \<^verbatim>\<open>a3\<close> to
  \<^verbatim>\<open>a15\<close> and the shift amount come back, but the stack pointer is 32 too high, and control goes to the value of
  the processor status register.  Also, \<^verbatim>\<open>context_save\<close> uses its own return address as the address of the context,
  so it writes the context over the code of its caller.\<close>

theorem context_save_restore:
  fixes m :: xm
  defines "m1 \<equiv> fold exec1 ctx_save_code m"
  assumes "xmem m2 = xmem m1" "ar m2 0 = ar m 0"
  shows "run call addr context_save 24 0 m = Jumped (ar m 0) m1 \<and> ld32 (xmem m1) (ar m 0 + 8) = ar m 3
     \<and> (\<exists>m3. run call addr context_restore 21 0 m2 = Jumped (sr m SR_PS) m3 \<and> ar m3 1 = ar m 1 + 0x20
          \<and> (\<forall>r\<in>{3..15}. ar m3 r = ar m r) \<and> sr m3 SR_SAR = sr m SR_SAR \<and> sr m3 SR_PS = sr m SR_PS)"
proof -
  let ?m3 = "fold exec1 (ctx_load_code 0) m2"
  have "run call addr context_save 24 0 m = Jumped (ar m 0) m1"
    using run_prefix [OF ctx_codes(1), of call addr "[Ret]" 1 m] ctx_save_effect(1) [of m]
    by (simp add: context_save_def ctx_codes m1_def nth_append)
  moreover have l: "ar ?m3 2 = sr m 230" "ar ?m3 1 = ar m 1 + 0x20" "sr ?m3 3 = sr m 3" "sr ?m3 230 = sr m 230"
    "ar ?m3 3 = ar m 3" "ar ?m3 4 = ar m 4" "ar ?m3 5 = ar m 5" "ar ?m3 6 = ar m 6" "ar ?m3 7 = ar m 7" "ar ?m3 8 = ar m 8"
    "ar ?m3 9 = ar m 9" "ar ?m3 10 = ar m 10" "ar ?m3 11 = ar m 11" "ar ?m3 12 = ar m 12" "ar ?m3 13 = ar m 13" "ar ?m3 14 = ar m 14" "ar ?m3 15 = ar m 15"
    using assms(2,3) by (simp_all add: ctx_load_code_def ctx_save_effect m1_def)
  moreover have "run call addr context_restore 21 0 m2 = Jumped (sr m 230) ?m3"
    using run_prefix [OF ctx_codes(3), of call addr 0 "[Jx 2]" 1 m2] l(1) by (simp add: context_restore_def ctx_codes nth_append)
  moreover have "r \<in> {3, 4, 5, 6, 7, 8, 9, 10, 11, 12, 13, 14, 15}" if "r \<in> {3..15}" for r :: nat using that by simp presburger
  ultimately show ?thesis using ctx_save_effect(5) [of m] by (fastforce simp: m1_def)
qed


section \<open>Special register numbers\<close>

text \<open>\<^verbatim>\<open>xtensa_regs.S\<close> defines its own numbers for the special registers.  With them \<^verbatim>\<open>write_psr\<close>, which
  the locks call to mask interrupts, writes register 0 and leaves the processor status as it is.\<close>

theorem write_psr_masks_nothing:
  "(''write_psr'', wr 0) \<in> set xtensa_regs \<and> (\<exists>m'. run call addr (wr 0) 3 0 m = Jumped (ar m 0) m' \<and> sr m' SR_PS = sr m SR_PS \<and> sr m' 0 = ar m 2)"
  by (simp add: xtensa_regs_def wr_def numeral_3_eq_3)

section \<open>Startup\<close>

lemma st32_write: "st32 m p v = mem_write m p [ucast v, ucast (drop_bit 8 v), ucast (drop_bit 16 v), ucast (drop_bit 24 v)]"
  by (simp add: st32_def add.assoc)

lemma step_word_neq: "0 < n \<Longrightarrow> n < 2 ^ 30 \<Longrightarrow> p + 4 * of_nat n \<noteq> (p :: u32)"
proof
  assume n: "0 < n" "n < 2 ^ 30" and "p + 4 * of_nat n = p"
  then have "(of_nat (4 * n) :: u32) = of_nat 0" by simp
  then show False using n of_nat_inj_32 [of "4 * n" 0] by simp
qed

lemma bss_loop:
  assumes "0 < n" "n < 2 ^ 30" "ar m 3 = ar m 2 + 4 * of_nat n" "ar m 4 = 0"
  shows "\<exists>m'. run call addr (bss_init L) (3 * n + 1) 5 m = Jumped (ar m 0) m' \<and> xmem m' = mem_write (xmem m) (ar m 2) (replicate (4 * n) 0)"
  using assms
proof (induction n arbitrary: m)
  case (Suc n)
  let ?m = "set_ar 2 (ar m 2 + 4) (m\<lparr>xmem := st32 (xmem m) (ar m 2) 0\<rparr>)"
  have z: "xmem ?m = mem_write (xmem m) (ar m 2) (replicate 4 0)" by (simp add: st32_write numeral_eq_Suc)
  have r: "run call addr (bss_init L) (3 * Suc n + 1) 5 m = run call addr (bss_init L) (3 * n + 1) (if ar m 3 \<noteq> ar m 2 + 4 then 5 else 8) ?m"
    using Suc.prems(4) by (simp add: bss_init_def numeral_eq_Suc)
  show ?case
  proof (cases "n = 0")
    case True
    then show ?thesis using r z Suc.prems(3) by (simp add: bss_init_def)
  next
    case False
    have "ar m 2 + 4 + 4 * of_nat n \<noteq> ar m 2 + 4" using step_word_neq [of n "ar m 2 + 4"] False Suc.prems(2) by simp
    then have n: "ar m 3 \<noteq> ar m 2 + 4" "ar ?m 3 = ar ?m 2 + 4 * of_nat n" "ar ?m 4 = 0" using Suc.prems(3,4) by (simp_all add: algebra_simps)
    obtain m' where "run call addr (bss_init L) (3 * n + 1) 5 ?m = Jumped (ar ?m 0) m'" "xmem m' = mem_write (xmem ?m) (ar ?m 2) (replicate (4 * n) 0)"
      using Suc.IH [of ?m] False Suc.prems(2) n(2,3) by auto
    moreover have "replicate (4 * Suc n) (0 :: u8) = replicate 4 0 @ replicate (4 * n) 0" by (simp flip: replicate_add)
    ultimately show ?thesis using r n(1) z by (simp add: mem_write_append)
  qed
qed simp

lemma bss_begin:
  "bss_end L = 0 \<or> bss_start L = bss_end L \<Longrightarrow>
     \<exists>k. run call addr (bss_init L) k 0 m = Jumped (ar m 0) (set_ar 3 (bss_end L) (set_ar 2 (bss_start L) m))"
  "bss_end L \<noteq> 0 \<Longrightarrow> bss_start L \<noteq> bss_end L \<Longrightarrow> run call addr (bss_init L) (Suc (Suc (Suc (Suc (Suc k))))) 0 m
     = run call addr (bss_init L) k 5 (set_ar 4 0 (set_ar 3 (bss_end L) (set_ar 2 (bss_start L) m)))"
proof -
  assume "bss_end L = 0 \<or> bss_start L = bss_end L"
  then show "\<exists>k. run call addr (bss_init L) k 0 m = Jumped (ar m 0) (set_ar 3 (bss_end L) (set_ar 2 (bss_start L) m))"
    by (intro exI [of _ "Suc (Suc (Suc (Suc (Suc 0))))"]) (auto simp: bss_init_def)
qed (simp add: bss_init_def eval_nat_numeral(2,3))

text \<open>C27: \<^verbatim>\<open>_bss_init\<close> ends, and has then cleared exactly the words from \<^verbatim>\<open>_bss_start\<close> to \<^verbatim>\<open>_bss_end\<close>, which
  the linker script puts a whole number of words apart.\<close>

theorem bss_init_clears:
  assumes "bss_end L = bss_start L + 4 * of_nat n" "n < 2 ^ 30" "bss_end L \<noteq> 0"
  shows "\<exists>k m'. run call addr (bss_init L) k 0 m = Jumped (ar m 0) m' \<and> xmem m' = mem_write (xmem m) (bss_start L) (replicate (4 * n) 0)"
proof (cases "n = 0")
  case True
  then show ?thesis using bss_begin(1) [of L call addr m] assms(1) by fastforce
next
  case False
  let ?m = "set_ar 4 0 (set_ar 3 (bss_end L) (set_ar 2 (bss_start L) m))"
  have "bss_start L \<noteq> bss_end L" using step_word_neq [of n "bss_start L"] False assms(1,2) by simp
  note b = bss_begin(2) [OF assms(3) this, of call addr "3 * n + 1" m]
  obtain m' where "run call addr (bss_init L) (3 * n + 1) 5 ?m = Jumped (ar ?m 0) m'"
    "xmem m' = mem_write (xmem ?m) (ar ?m 2) (replicate (4 * n) 0)"
    using bss_loop [of n ?m call addr L] False assms(1,2) by auto
  then show ?thesis using b by (intro exI [of _ "Suc (Suc (Suc (Suc (Suc (3 * n + 1)))))"] exI [of _ m']) simp
qed

text \<open>The bytes of a word are stored as they were loaded.\<close>

lemma st32_ld32: "st32 m p (ld32 x a) = mem_write m p (mem_read x a 4)"
proof -
  have "mem_read x a 4 = [x a, x (a + 1), x (a + 2), x (a + 3)]" by (simp add: mem_read_def upt_rec)
  moreover have "(ucast (ld32 x a) :: u8) = x a" "(ucast (drop_bit 8 (ld32 x a)) :: u8) = x (a + 1)"
    "(ucast (drop_bit 16 (ld32 x a)) :: u8) = x (a + 2)" "(ucast (drop_bit 24 (ld32 x a)) :: u8) = x (a + 3)"
    by (rule bit_word_eqI; auto simp: ld32_def bit_simps dest: bit_imp_le_length)+
  ultimately show ?thesis by (simp add: st32_write)
qed

lemma data_loop:
  assumes "0 < n" "n < 2 ^ 30" "ar m 3 = ar m 2 + 4 * of_nat n"
    and "\<forall>i<4 * n. \<forall>j<4 * n. ar m 2 + of_nat i \<noteq> ar m 4 + of_nat j"
  shows "\<exists>m'. run call addr (data_init L) (5 * n + 1) 4 m = Jumped (ar m 0) m' \<and> xmem m' = mem_write (xmem m) (ar m 2) (mem_read (xmem m) (ar m 4) (4 * n))"
  using assms
proof (induction n arbitrary: m)
  case (Suc n)
  let ?x = "xmem m" and ?d = "ar m 2" and ?t = "ar m 4"
  let ?m = "set_ar 4 (?t + 4) (set_ar 2 (?d + 4) ((set_ar 5 (ld32 ?x ?t) m)\<lparr>xmem := st32 ?x ?d (ld32 ?x ?t)\<rparr>))"
  have z: "xmem ?m = mem_write ?x ?d (mem_read ?x ?t 4)" by (simp add: st32_ld32)
  have r: "run call addr (data_init L) (5 * Suc n + 1) 4 m = run call addr (data_init L) (5 * n + 1) (if ar m 3 \<noteq> ?d + 4 then 4 else 9) ?m"
    by (simp add: data_init_def numeral_eq_Suc)
  show ?case
  proof (cases "n = 0")
    case True
    then show ?thesis using r z Suc.prems(3) by (simp add: data_init_def)
  next
    case False
    have "?d + 4 + 4 * of_nat n \<noteq> ?d + 4" using step_word_neq [of n "?d + 4"] False Suc.prems(2) by simp
    then have n: "ar m 3 \<noteq> ?d + 4" "ar ?m 3 = ar ?m 2 + 4 * of_nat n" using Suc.prems(3) by (simp_all add: algebra_simps)
    have a: "\<forall>i<4 * n. \<forall>j<4 * n. ar ?m 2 + of_nat i \<noteq> ar ?m 4 + of_nat j"
    proof (intro allI impI)
      fix i j assume "i < 4 * n" "j < 4 * n"
      then show "ar ?m 2 + of_nat i \<noteq> ar ?m 4 + of_nat j" using Suc.prems(4) [rule_format, of "4 + i" "4 + j"] by (simp add: add.assoc)
    qed
    have rd: "mem_read (xmem ?m) (?t + 4) (4 * n) = mem_read ?x (?t + 4) (4 * n)"
    proof (rule nth_equalityI)
      fix j assume "j < length (mem_read (xmem ?m) (?t + 4) (4 * n))"
      then have j: "j < 4 * n" by (simp add: length_mem_read)
      have "mem_write ?x ?d (mem_read ?x ?t 4) (?t + 4 + of_nat j) = ?x (?t + 4 + of_nat j)"
        by (rule mem_write_other) (use Suc.prems(4) [rule_format, of _ "4 + j"] j in \<open>simp add: add.assoc length_mem_read\<close>)
      then show "mem_read (xmem ?m) (?t + 4) (4 * n) ! j = mem_read ?x (?t + 4) (4 * n) ! j" using j by (simp only: z nth_mem_read)
    qed (simp add: length_mem_read)
    obtain m' where "run call addr (data_init L) (5 * n + 1) 4 ?m = Jumped (ar ?m 0) m'"
      "xmem m' = mem_write (xmem ?m) (ar ?m 2) (mem_read (xmem ?m) (ar ?m 4) (4 * n))"
      using Suc.IH [OF _ _ n(2) a] False Suc.prems(2) by auto
    moreover have "mem_read ?x ?t (4 * Suc n) = mem_read ?x ?t 4 @ mem_read ?x (?t + 4) (4 * n)" using mem_read_append [of ?x ?t 4 "4 * n"] by simp
    ultimately show ?thesis using r n(1) z rd by (simp add: mem_write_append length_mem_read del: run.simps)
  qed
qed simp

lemma data_begin:
  "data_start L = data_end L \<Longrightarrow>
     \<exists>k. run call addr (data_init L) k 0 m = Jumped (ar m 0) (set_ar 4 (etext L) (set_ar 3 (data_end L) (set_ar 2 (data_start L) m)))"
  "data_start L \<noteq> data_end L \<Longrightarrow> run call addr (data_init L) (Suc (Suc (Suc (Suc k)))) 0 m
     = run call addr (data_init L) k 4 (set_ar 4 (etext L) (set_ar 3 (data_end L) (set_ar 2 (data_start L) m)))"
proof -
  assume "data_start L = data_end L"
  then show "\<exists>k. run call addr (data_init L) k 0 m = Jumped (ar m 0) (set_ar 4 (etext L) (set_ar 3 (data_end L) (set_ar 2 (data_start L) m)))"
    by (intro exI [of _ "Suc (Suc (Suc (Suc (Suc 0))))"]) (auto simp: data_init_def)
qed (simp add: data_init_def eval_nat_numeral(2,3))

text \<open>C28: \<^verbatim>\<open>_data_init\<close> ends, and has then copied the initial values that follow the code to the data segment, when the
  two do not overlap.\<close>

theorem data_init_copies:
  assumes "data_end L = data_start L + 4 * of_nat n" "n < 2 ^ 30"
    and "\<forall>i<4 * n. \<forall>j<4 * n. data_start L + of_nat i \<noteq> etext L + of_nat j"
  shows "\<exists>k m'. run call addr (data_init L) k 0 m = Jumped (ar m 0) m'
     \<and> xmem m' = mem_write (xmem m) (data_start L) (mem_read (xmem m) (etext L) (4 * n))"
proof (cases "n = 0")
  case True
  then show ?thesis using data_begin(1) [of L call addr m] assms(1) by (fastforce simp: mem_read_def)
next
  case False
  let ?m = "set_ar 4 (etext L) (set_ar 3 (data_end L) (set_ar 2 (data_start L) m))"
  have "data_start L \<noteq> data_end L" using step_word_neq [of n "data_start L"] False assms(1,2) by simp
  note b = data_begin(2) [OF this, of call addr "5 * n + 1" m]
  obtain m' where "run call addr (data_init L) (5 * n + 1) 4 ?m = Jumped (ar ?m 0) m'"
    "xmem m' = mem_write (xmem ?m) (ar ?m 2) (mem_read (xmem ?m) (ar ?m 4) (4 * n))"
    using data_loop [of n ?m call addr L] False assms by auto
  then show ?thesis using b by (intro exI [of _ "Suc (Suc (Suc (Suc (5 * n + 1))))"] exI [of _ m']) simp
qed

section \<open>Instances\<close>

definition demo_m :: xm where
  "demo_m = \<lparr>ar = (\<lambda>r. 0x3FC90000 + of_nat r), sr = (\<lambda>n. of_nat n), xmem = (\<lambda>_. 7)\<rparr>"

lemma keeps_frame_id: "keeps_frame (\<lambda>f m. Some (ar m 0, m)) f"
  by (simp add: keeps_frame_def)



theorem interrupt_entry_overruns_stack_witness:
  "\<exists>m'. run (\<lambda>f m. Some (ar m 0, m)) (\<lambda>i. of_nat i) interrupt_entry 34 0 demo_m = Jumped 0x3FC90000 m'
     \<and> ld32 (xmem m') 0x3FC90001 = 0x3FC90009"
  using interrupt_entry_overruns_stack [OF keeps_frame_id, of 0 "\<lambda>i. of_nat i" demo_m] by (auto simp: demo_m_def)

theorem context_save_restore_witness:
  "\<exists>m3. run (\<lambda>f m. None) (\<lambda>i. of_nat i) context_restore 21 0 (fold exec1 ctx_save_code demo_m) = Jumped 230 m3"
  using context_save_restore [of "fold exec1 ctx_save_code demo_m" demo_m "\<lambda>f m. None" "\<lambda>i. of_nat i"]
  by (simp add: ctx_save_effect(1)) (auto simp: demo_m_def)

definition demo_image :: image where
  "demo_image = \<lparr>bss_start = 0x3FC88100, bss_end = 0x3FC88110, data_start = 0x3FC88000, data_end = 0x3FC88008, etext = 0x40081000,
     stack_top = 0x3FCA0000\<rparr>"

theorem bss_init_clears_witness:
  "\<exists>k m'. run (\<lambda>f m. None) (\<lambda>i. of_nat i) (bss_init demo_image) k 0 demo_m = Jumped 0x3FC90000 m'
     \<and> xmem m' = mem_write (\<lambda>_. 7) 0x3FC88100 (replicate 16 0)"
  using bss_init_clears [of demo_image 4 "\<lambda>f m. None" "\<lambda>i. of_nat i" demo_m] by (simp add: demo_image_def demo_m_def)

lemma all_less_8: "(\<forall>i<8. P i) \<longleftrightarrow> P 0 \<and> P 1 \<and> P 2 \<and> P 3 \<and> P 4 \<and> P 5 \<and> P 6 \<and> P (7 :: nat)"
  by (simp add: numeral_eq_Suc All_less_Suc conj_ac)

theorem data_init_copies_witness:
  "\<exists>k m'. run (\<lambda>f m. None) (\<lambda>i. of_nat i) (data_init demo_image) k 0 demo_m = Jumped 0x3FC90000 m'
     \<and> xmem m' = mem_write (\<lambda>_. 7) 0x3FC88000 (mem_read (\<lambda>_. 7) 0x40081000 8)"
proof -
  have "\<forall>i<8. \<forall>j<8. 0x3FC88000 + of_nat i \<noteq> (0x40081000 + of_nat j :: u32)" by (simp add: all_less_8)
  then show ?thesis
    using data_init_copies [of demo_image 2 "\<lambda>f m. None" "\<lambda>i. of_nat i" demo_m] by (simp add: demo_image_def demo_m_def)
qed

end
