(* ===== verification/Spec2Isabelle.thy ===== *)
theory Spec2Isabelle
  imports Format Services Xtensa
begin

text \<open>
  \<^bold>\<open>BareOS: a verification development.\<close>

  BareOS (\<^verbatim>\<open>src/\<close>) is a small operating system for the ESP32-S3: assembly for startup, vectors and the
  context switch, a kernel with a scheduler, a heap, processes, system calls and locks, drivers, three file systems
  under a virtual file system, a UDP/IPv4 stack over a loopback and a wireless interface, and a C library.  This
  development translates these parts into HOL functions and proves what they do, including, where the code does not do
  what it means to, exactly what it does instead.

  \<^bold>\<open>Conventions.\<close>  Machine integers are words of their width, and their arithmetic wraps as in the source; a C
  \<^verbatim>\<open>int\<close> that is used as a number is an \<^typ>\<open>int\<close>.  A pointer is a 32-bit word, \<open>0\<close> the null pointer.  Memory
  is a total function from addresses to bytes; structs that the code only reaches by typed pointers are records in
  stores indexed by address.  The state is one extensible record, in the order in which components build on each
  other: \<open>kstate\<close> (tasks, processes, queues, clock), \<open>mstate\<close> (memory, heap), \<open>dstate\<close> (devices),
  \<open>file_state\<close>, \<open>ramfs_state\<close>, \<open>devfs_state\<close>, \<open>net_state\<close>, \<open>wifi_st\<close>, \<open>arch_st\<close>.  Every operation takes
  a state and returns one; a function that is polymorphic in the rest of the record provably leaves it alone.
  \<open>None\<close> stands for an execution without a result: a null dereference, undefined arithmetic or a loop that never ends.
  Loops are structural recursions, functions with a termination proof, or \<^theory_text>\<open>partial_function (option)\<close> where
  they may run forever; theorems about the latter state that they return.

  \<^bold>\<open>Parameters.\<close>  \<open>sw\<close> is the context switch as the scheduler sees it, \<open>io_dev\<close> the devices (what a register read
  returns after a history of accesses), \<open>env\<close> the other core at a spin lock, \<open>cycles\<close> the cycle counter, \<open>n\<close> the
  number of nested loopback deliveries that are followed (a delivery beyond it has no result), \<open>pool\<close>, \<open>fsb\<close>,
  \<open>loc\<close> and \<open>L\<close> the addresses of static arrays and of local buffers, which the linker and the compiler choose.

  \<^bold>\<open>Theories.\<close>
  \<^item> \<open>Prelude\<close>: words, little-endian memory accesses and their laws.  \<open>Dll\<close>: the doubly linked lists inside
    objects that the heap, the scheduler and the RAM file system share, as the locale \<open>linked_store\<close> with its
    interpretations \<open>tq\<close>, \<open>hq\<close> and \<open>rq\<close>.  \<open>Frame\<close>: the locales \<open>frame_rel\<close> and \<open>kernel_view\<close> for what a
    sequence of calls leaves alone, interpreted for system calls and for the wireless driver.
  \<^item> \<open>Arp\<close>, \<open>Kstate\<close>: the ARP cache (\<^verbatim>\<open>kernel/net/net.c\<close>) and the shared kernel structs and identifiers
    (\<^verbatim>\<open>include/kernel.h\<close>, \<^verbatim>\<open>kernel/core/kernel.c\<close>).
  \<^item> \<open>Scheduler\<close> (\<^verbatim>\<open>kernel/scheduler/scheduler.c\<close>): the linked queues refine lists; which task runs next, when a
    sleeper wakes, that two yielding tasks starve the others.
  \<^item> \<open>Sync\<close> (\<^verbatim>\<open>kernel/sync/sync.c\<close>): spin locks against the other core, mutexes as the locale \<open>mutex_cell\<close>,
    semaphores as a refinement of a list of waiters.
  \<^item> \<open>CString\<close>, \<open>Format\<close> (\<^verbatim>\<open>libc/string\<close>, \<^verbatim>\<open>libc/ctype\<close>, parts of \<^verbatim>\<open>libc/stdlib\<close> and \<^verbatim>\<open>libc/stdio\<close>):
    copies of overlapping areas, string functions against functions on byte lists, \<^verbatim>\<open>vsnprintf\<close> against the text its
    format stands for, number conversion and its round trip.
  \<^item> \<open>Memory\<close> (\<^verbatim>\<open>kernel/memory/memory.c\<close>): the heap, block headers in memory; blocks that \<^verbatim>\<open>kmalloc\<close> returns are
    disjoint, and the first \<^verbatim>\<open>kfree\<close> breaks the heap.
  \<^item> \<open>Process\<close> (\<^verbatim>\<open>kernel/task\<close>, \<^verbatim>\<open>kernel/process\<close>): creation and destruction of tasks and processes.
  \<^item> \<open>Device\<close> (\<^verbatim>\<open>drivers/uart\<close>, \<^verbatim>\<open>console\<close>, \<^verbatim>\<open>psram\<close>, \<^verbatim>\<open>flash\<close> and the stubs): what is sent, what is read
    from the flash chip.
  \<^item> \<open>Files\<close>, \<open>Ramfs\<close>, \<open>Devfs\<close>, \<open>Vfs\<close> (\<^verbatim>\<open>fs/\<close>): path normalisation, the tree of the RAM file system as an
    invariant of all its operations, devices and the flash file system, and the dispatch by mount point.
  \<^item> \<open>Net\<close> (\<^verbatim>\<open>kernel/net/net.c\<close>): packet buffers, checksums, IPv4, ICMP, UDP, sockets.  \<open>Wifi\<close>
    (\<^verbatim>\<open>drivers/wifi/wifi.c\<close>): the association state machine as an inductive step relation with its type invariant,
    the handshake, retries and the descriptor rings.
  \<^item> \<open>Pipe\<close>, \<open>Syscall\<close> (\<^verbatim>\<open>kernel/syscall\<close>, \<^verbatim>\<open>kernel/ipc\<close>, \<^verbatim>\<open>kernel/exec\<close>): pipes as queues, every case of the
    system call switch, descriptors, program loading.
  \<^item> \<open>Trap\<close> (\<^verbatim>\<open>arch/xtensa/traps\<close>, \<^verbatim>\<open>cpu\<close>, \<^verbatim>\<open>timer\<close>, \<^verbatim>\<open>atomic\<close>, \<^verbatim>\<open>kernel/panic\<close>): dispatch of exceptions and
    interrupts, busy waits, atomic counters, the panic report.
  \<^item> \<open>Services\<close> (\<^verbatim>\<open>kernel/signal\<close>, \<^verbatim>\<open>kernel/time\<close>, \<^verbatim>\<open>libc/time\<close>): which handler a
    delivered signal reaches, the time set and read back, the time of day.
  \<^item> \<open>Xtensa\<close> (\<^verbatim>\<open>arch/xtensa/context\<close>, \<^verbatim>\<open>exceptions\<close>, \<^verbatim>\<open>boot\<close>, \<^verbatim>\<open>cpu/xtensa_regs.S\<close>): the assembly as
    instruction lists on a small machine.

  \<^bold>\<open>Fuel.\<close>  The machine of \<open>Xtensa\<close> runs a given number of steps: 41 and 34 are the lengths of the two entries with
  one call in them, 24, 21 and 44 those of the context routines; the loops of the startup code are shown to end after
  some number of steps, and the exception vector is shown to run on after any number.  The depth \<open>n\<close> of loopback
  deliveries is arbitrary in every theorem.

  \<^bold>\<open>Not modelled.\<close>  \<^verbatim>\<open>libc/posix\<close>, the streams and the rest of \<^verbatim>\<open>libc/stdio\<close> and \<^verbatim>\<open>libc/stdlib\<close>, \<^verbatim>\<open>ctime\<close>,
  the shell and the programs of \<^verbatim>\<open>userland\<close> are not translated; they rest on the modelled system calls and file layer,
  with code of their own (descriptor checks, stream buffers, line parsing) about which nothing is shown.
  The drivers \<^verbatim>\<open>i2c\<close>, \<^verbatim>\<open>spi\<close> and \<^verbatim>\<open>timer\<close> only return 0.  \<^verbatim>\<open>cpu/xtensa_regs.c\<close> is compiled by no build script.  \<^verbatim>\<open>fs/vfs/vfs_ops.c\<close> defines four functions of \<^verbatim>\<open>vfs.c\<close>
  a second time, with other bodies; \<^verbatim>\<open>build.bat\<close> links those of \<^verbatim>\<open>vfs.c\<close>.  Headers of register constants and the linker
  script appear through the constants and parameters the definitions use.  The devices, the compiler's layout of local
  variables and the interleaving of the two cores outside of the spin lock are parameters or left out.
\<close>

end
